(* ===== verification/Prelude.thy ===== *)
theory Prelude
  imports Main "HOL-Library.Word" "HOL-Library.Monad_Syntax"
begin

text \<open>
  Shared ground of the development: the machine integers of a 64-bit target, the arithmetic of
  the two Cargo profiles, raw byte memory, and the generic lemmas the component theories use.

  The library's \<open>usize\<close>, \<open>u32\<close>, \<open>u8\<close> and \<open>i32\<close> are words of their width.  Rust's \<open>+\<close> and \<open>-\<close>
  panic on overflow under the dev profile and wrap under the release profile, so every place of
  the source that adds or subtracts goes through \<open>wadd\<close> and \<open>wsub\<close>, which take the profile as an
  argument.  A value of type \<open>'a option\<close> that models a Rust function returning \<open>'a\<close> is \<open>None\<close>
  exactly when the function does not return (a panic, which aborts under the release profile, or
  a spin that never ends).
\<close>

section \<open>Machine integers\<close>

type_synonym usize = "64 word"
type_synonym u32 = "32 word"
type_synonym u8 = "8 word"
type_synonym i32 = "32 word"

text \<open>The Cargo profiles: \<open>Debug\<close> has overflow checks and debug assertions, \<open>Release\<close> neither.\<close>

datatype build = Debug | Release

named_theorems arith_ok \<open>arithmetic that stays in range returns, under either profile\<close>
named_theorems word_nat \<open>rules that move word facts to natural numbers\<close>

definition wadd :: "build \<Rightarrow> 'a::len word \<Rightarrow> 'a word \<Rightarrow> 'a word option" where
  "wadd b x y =
     (if b = Debug \<and> 2 ^ LENGTH('a) \<le> unat x + unat y then None else Some (x + y))"

definition wsub :: "build \<Rightarrow> 'a::len word \<Rightarrow> 'a word \<Rightarrow> 'a word option" where
  "wsub b x y = (if b = Debug \<and> x < y then None else Some (x - y))"

lemma wadd_ok [arith_ok]:
  "unat x + unat y < 2 ^ LENGTH('a) \<Longrightarrow> wadd b x y = Some (x + y)" for x y :: "'a::len word"
  by (simp add: wadd_def)

lemma wsub_ok [arith_ok]: "y \<le> x \<Longrightarrow> wsub b x y = Some (x - y)" for x y :: "'a::len word"
  by (simp add: wsub_def not_less)

lemma wadd_SomeD: "wadd b x y = Some z \<Longrightarrow> z = x + y"
  by (simp add: wadd_def split: if_splits)

lemma wsub_SomeD: "wsub b x y = Some z \<Longrightarrow> z = x - y"
  by (simp add: wsub_def split: if_splits)

lemma wadd_Release [simp]: "wadd Release x y = Some (x + y)"
  by (simp add: wadd_def)

lemma wsub_Release [simp]: "wsub Release x y = Some (x - y)"
  by (simp add: wsub_def)

lemma wadd_Debug_None:
  "wadd Debug x y = None \<longleftrightarrow> 2 ^ LENGTH('a) \<le> unat x + unat y" for x y :: "'a::len word"
  by (simp add: wadd_def)

lemma wsub_Debug_None: "wsub Debug x y = None \<longleftrightarrow> x < y"
  by (simp add: wsub_def)

section \<open>Results by cases\<close>

text \<open>Rules that open a \<open>case\<close> on a result in an assumption, and the bind of the option monad.\<close>

lemma case_sum_eq:
  "(case r of Inl e \<Rightarrow> f e | Inr x \<Rightarrow> g x) = y \<longleftrightarrow> (\<exists>e. r = Inl e \<and> f e = y) \<or> (\<exists>x. r = Inr x \<and> g x = y)"
  by (cases r) auto

lemma case_option_eq:
  "(case r of None \<Rightarrow> u | Some x \<Rightarrow> g x) = y \<longleftrightarrow> (r = None \<and> u = y) \<or> (\<exists>x. r = Some x \<and> g x = y)"
  by (cases r) auto

lemmas result_cases = case_sum_eq case_option_eq Option.bind_eq_Some_conv

section \<open>Words as natural numbers\<close>

lemma unat_add_small [word_nat]:
  "unat x + unat y < 2 ^ LENGTH('a) \<Longrightarrow> unat (x + y) = unat x + unat y"
  for x y :: "'a::len word"
  by (simp add: unat_add_lem)

lemma unat_sub_le [word_nat]: "y \<le> x \<Longrightarrow> unat (x - y) = unat x - unat y"
  for x y :: "'a::len word"
  by (rule unat_sub)

lemma unat_u32_to_usize [simp]: "unat (ucast (x :: u32) :: usize) = unat x"
  by transfer simp

lemma unat_u8_to_usize [simp]: "unat (ucast (x :: u8) :: usize) = unat x"
  by transfer simp

lemma unat_u32_lt: "unat (x :: u32) < 4294967296"
  using unsigned_less [of x, where ?'a = nat] by simp

lemma unat_usize_lt: "unat (x :: usize) < 18446744073709551616"
  using unsigned_less [of x, where ?'a = nat] by simp

lemma unat_u8_lt: "unat (x :: u8) < 256"
  using unsigned_less [of x, where ?'a = nat] by simp

lemma unat_usize_to_u32: "unat (ucast (x :: usize) :: u32) = unat x mod 4294967296"
  by transfer (simp add: take_bit_eq_mod nat_mod_distrib)

lemma unat_of_nat_usize: "n < 18446744073709551616 \<Longrightarrow> unat (of_nat n :: usize) = n"
  by (rule of_nat_inverse [OF refl]) simp

lemma unat_of_nat_u32: "n < 4294967296 \<Longrightarrow> unat (of_nat n :: u32) = n"
  by (rule of_nat_inverse [OF refl]) simp

text \<open>An address before the last byte of the address space, as every user address is.\<close>

definition below_top :: "usize \<Rightarrow> bool" where
  "below_top a \<longleftrightarrow> unat a < 2 ^ 64 - 1"

lemmas unat_bounds = unat_u32_lt unat_usize_lt unat_u8_lt

section \<open>Raw memory\<close>

text \<open>
  The process's bytes.  \<open>write_bytes\<close> is \<open>copy_nonoverlapping\<close> into raw memory: byte \<open>i\<close> of the
  data goes to address \<open>a + i\<close>.
\<close>

type_synonym memory = "usize \<Rightarrow> u8"

definition write_bytes :: "usize \<Rightarrow> u8 list \<Rightarrow> memory \<Rightarrow> memory" where
  "write_bytes a bs m = (\<lambda>x. if unat (x - a) < length bs then bs ! unat (x - a) else m x)"

definition read_bytes :: "usize \<Rightarrow> nat \<Rightarrow> memory \<Rightarrow> u8 list" where
  "read_bytes a n m = map (\<lambda>i. m (a + of_nat i)) [0..<n]"

lemma length_read_bytes [simp]: "length (read_bytes a n m) = n"
  by (simp add: read_bytes_def)

lemma read_write_same:
  assumes "length bs \<le> 18446744073709551616"
  shows "read_bytes a (length bs) (write_bytes a bs m) = bs"
proof (rule nth_equalityI)
  fix i assume "i < length (read_bytes a (length bs) (write_bytes a bs m))"
  then have i: "i < length bs" by simp
  with assms have "unat (of_nat i :: usize) = i" by (intro unat_of_nat_usize) simp
  with i show "read_bytes a (length bs) (write_bytes a bs m) ! i = bs ! i"
    by (simp add: read_bytes_def write_bytes_def)
qed simp

text \<open>A write leaves every byte outside \<open>[a, a + length bs)\<close> as it was.\<close>

lemma write_bytes_outside:
  assumes "unat x < unat a \<or> unat a + length bs \<le> unat x"
    and "unat a + length bs \<le> 18446744073709551616"
  shows "write_bytes a bs m x = m x"
proof -
  have "length bs \<le> unat (x - a)"
    using assms by (auto simp: unat_sub_if')
  then show ?thesis by (simp add: write_bytes_def)
qed

lemma read_write_disjoint:
  assumes disj: "unat c + n \<le> unat a \<or> unat a + length bs \<le> unat c"
    and fits: "unat a + length bs \<le> 18446744073709551616" "unat c + n \<le> 18446744073709551616"
  shows "read_bytes c n (write_bytes a bs m) = read_bytes c n m"
proof -
  have "write_bytes a bs m (c + of_nat i) = m (c + of_nat i)" if i: "i < n" for i
  proof (rule write_bytes_outside)
    from i fits have "unat (c + of_nat i) = unat c + i"
      by (subst unat_add_small) (simp_all add: unat_of_nat_usize)
    with disj i show "unat (c + of_nat i) < unat a \<or> unat a + length bs \<le> unat (c + of_nat i)"
      by auto
  qed (rule fits)
  then show ?thesis by (simp add: read_bytes_def)
qed

end
