(* ===== verification/Mathematics.thy ===== *)
theory Mathematics
  imports Prelude
begin

text \<open>
  The helpers of \<open>src-rust/src/utilities/mathematics.rs\<close>: rounding to a multiple and the
  saturating sum and difference.  The generic parameter \<open>T: Into<usize>\<close> of the source is already
  converted here: \<open>multiple\<close> is the \<open>usize\<close>.
\<close>

definition round_up :: "build \<Rightarrow> usize \<Rightarrow> usize \<Rightarrow> usize option" where
  "round_up b number multiple =
     (if multiple = 0 then Some number
      else let remainder = number mod multiple in
        if remainder = 0 then Some number
        else do { s \<leftarrow> wadd b number multiple; wsub b s remainder })"

definition round_down :: "build \<Rightarrow> usize \<Rightarrow> usize \<Rightarrow> usize option" where
  "round_down b number multiple =
     (if multiple = 0 then Some number
      else let remainder = number mod multiple in
        if remainder = 0 then Some number
        else wsub b number remainder)"

definition min_usize :: "usize \<Rightarrow> usize \<Rightarrow> usize" where
  "min_usize x y = min x y"

text \<open>\<open>usize::saturating_add\<close> and \<open>usize::saturating_sub\<close>.\<close>

definition add_with_overflow_cap :: "usize \<Rightarrow> usize \<Rightarrow> usize" where
  "add_with_overflow_cap x y = (if unat x + unat y < 2 ^ 64 then x + y else - 1)"

definition subtract_with_underflow_cap :: "usize \<Rightarrow> usize \<Rightarrow> usize" where
  "subtract_with_underflow_cap x y = (if y \<le> x then x - y else 0)"

section \<open>Rounding\<close>

text \<open>The remainder is below the multiple, which every fact on rounding rests on.\<close>

lemma unat_mod_bounds:
  fixes n m :: usize
  assumes "m \<noteq> 0"
  shows "unat (n mod m) < unat m" "unat (n mod m) \<le> unat n"
  using assms by (simp_all add: unat_mod unat_gt_0)

lemma mod_eq_0_iff_dvd_unat: "(n :: usize) mod m = 0 \<longleftrightarrow> unat m dvd unat n"
  by (metis dvd_eq_mod_eq_0 unat_0_iff unat_mod)

lemma dvd_round_up_nat: "0 < n mod m \<Longrightarrow> 0 < m \<Longrightarrow> m dvd n + (m - n mod m)" for n m :: nat
proof -
  assume m: "0 < m" and r: "0 < n mod m"
  have "n mod m \<le> n" "n mod m < m" using m by simp_all
  then have "n + (m - n mod m) = (n - n mod m) + m" by simp
  moreover have "m dvd n - n mod m" by (simp add: dvd_minus_mod)
  ultimately show ?thesis by (metis dvd_add_triv_right_iff)
qed

text \<open>
  Whenever \<open>round_up\<close> returns a value that did not wrap below its argument, the value is the least
  multiple at or above it.  Under the release profile this needs no bound on the argument.
\<close>

lemma round_up_eq:
  assumes "m \<noteq> 0" and "n mod m \<noteq> 0" and "round_up b n m = Some r"
  shows "r = n + (m - n mod m)"
  using assms by (auto simp: round_up_def Let_def Option.bind_eq_Some_conv dest!: wadd_SomeD wsub_SomeD)

lemma round_up_sound:
  assumes ret: "round_up b n m = Some r" and up: "n \<le> r" and m: "m \<noteq> 0"
  shows "unat m dvd unat r" and "unat r < unat n + unat m"
proof -
  have "unat m dvd unat r \<and> unat r < unat n + unat m"
  proof (cases "n mod m = 0")
    case True
    with ret m have "r = n" by (simp add: round_up_def)
    with True m show ?thesis by (simp add: mod_eq_0_iff_dvd_unat unat_gt_0)
  next
    case False
    from round_up_eq [OF m False ret] have r: "r = n + (m - n mod m)" .
    have le: "n mod m \<le> m" using unat_mod_bounds(1) [OF m, of n] by (simp add: word_le_nat_alt)
    from up r have "unat r = unat n + unat (m - n mod m)" by (simp add: unat_plus_simple)
    then have u: "unat r = unat n + (unat m - unat n mod unat m)"
      using le by (simp add: unat_sub unat_mod)
    have pos: "0 < unat n mod unat m" using False by (simp add: mod_eq_0_iff_dvd_unat dvd_eq_mod_eq_0)
    with u dvd_round_up_nat [OF pos] m have "unat m dvd unat r" by (simp add: unat_gt_0)
    moreover have "unat r < unat n + unat m" using u pos m by (simp add: unat_gt_0)
    ultimately show ?thesis by simp
  qed
  then show "unat m dvd unat r" "unat r < unat n + unat m" by auto
qed

lemma round_up_least:
  assumes "round_up b n m = Some r" and "n \<le> r" and "m \<noteq> 0"
    and "unat m dvd k" and "unat n \<le> k"
  shows "unat r \<le> k"
proof (rule ccontr)
  assume "\<not> unat r \<le> k"
  moreover have "unat m dvd unat r - k"
    using round_up_sound(1) [OF assms(1-3)] assms(4) by (rule dvd_diff_nat)
  ultimately have "unat m \<le> unat r - k" by (simp add: dvd_imp_le)
  with round_up_sound(2) [OF assms(1-3)] assms(5) \<open>\<not> unat r \<le> k\<close> show False by simp
qed

text \<open>\<open>round_up\<close> returns, without wrapping, whenever argument and multiple leave room.\<close>

lemma round_up_total:
  assumes "unat n + unat m < 2 ^ 64"
  obtains r where "round_up b n m = Some r" "n \<le> r"
proof (cases "m = 0 \<or> n mod m = 0")
  case True
  then have "round_up b n m = Some n" by (auto simp: round_up_def Let_def)
  then show ?thesis using that by simp
next
  case False
  then have m: "m \<noteq> 0" and rem: "n mod m \<noteq> 0" by auto
  have sum: "unat (n + m) = unat n + unat m" using assms by (intro unat_add_small) simp
  have lt: "unat (n mod m) < unat m" by (rule unat_mod_bounds [OF m])
  have le: "n mod m \<le> n + m" using lt sum by (simp add: word_le_nat_alt)
  have "round_up b n m = Some (n + m - n mod m)"
    using m rem assms le by (simp add: round_up_def Let_def arith_ok)
  moreover have "n \<le> n + m - n mod m"
    using lt sum le by (simp add: word_le_nat_alt unat_sub)
  ultimately show ?thesis using that by blast
qed

lemma round_up_Release: "\<exists>r. round_up Release n m = Some r"
  by (simp add: round_up_def Let_def)

lemma round_down_eq: "m \<noteq> 0 \<Longrightarrow> round_down b n m = Some (n - n mod m)"
  using unat_mod_bounds(2) [of m n]
  by (auto simp: round_down_def Let_def wsub_ok word_le_nat_alt)

lemma round_down_sound:
  assumes "round_down b n m = Some r" and "m \<noteq> 0"
  shows "unat m dvd unat r" "r \<le> n" "unat n < unat r + unat m"
proof -
  have le: "n mod m \<le> n" using unat_mod_bounds(2) [OF assms(2)] by (simp add: word_le_nat_alt)
  have r: "unat r = unat n - unat n mod unat m"
    using assms le by (auto simp: round_down_eq unat_sub unat_mod)
  then show "unat m dvd unat r" by (simp add: dvd_minus_mod)
  from r show "r \<le> n" by (simp add: word_le_nat_alt)
  have "unat n mod unat m < unat m" using assms(2) by (simp add: unat_gt_0)
  with r show "unat n < unat r + unat m" by linarith
qed

section \<open>Saturation\<close>

lemma unat_add_with_overflow_cap:
  "unat (add_with_overflow_cap x y) = min (unat x + unat y) (2 ^ 64 - 1)"
proof (cases "unat x + unat y < 2 ^ 64")
  case True
  then have "unat (x + y) = unat x + unat y" by (intro unat_add_small) simp
  with True show ?thesis by (simp add: add_with_overflow_cap_def)
next
  case False
  then show ?thesis by (simp add: add_with_overflow_cap_def unsigned_minus_1_eq_mask mask_eq_exp_minus_1)
qed

lemma unat_subtract_with_underflow_cap:
  "unat (subtract_with_underflow_cap x y) = unat x - unat y"
  by (auto simp: subtract_with_underflow_cap_def unat_sub word_le_nat_alt)

section \<open>Properties\<close>

text \<open>
  Rounding: \<open>round_up\<close> returns the least multiple that is not below its argument whenever argument
  and multiple leave room in the word, and \<open>round_down\<close> always returns and gives the greatest multiple
  that is not above it, under both build profiles; a multiple of 0 leaves the argument as it is.
\<close>

lemma rounding_correct:
  "(m \<noteq> 0 \<and> unat n + unat m < 2 ^ 64 \<longrightarrow>
     (\<exists>r. round_up b n m = Some r \<and> unat m dvd unat r \<and> n \<le> r \<and> (\<forall>k. unat m dvd k \<and> unat n \<le> k \<longrightarrow> unat r \<le> k))) \<and>
   (\<exists>r. round_down b n m = Some r \<and> r \<le> n \<and>
     (if m = 0 then r = n else unat m dvd unat r \<and> unat n < unat r + unat m))"
proof (intro conjI impI)
  assume a: "m \<noteq> 0 \<and> unat n + unat m < 2 ^ 64"
  from conjunct2 [OF a] obtain r where r: "round_up b n m = Some r" "n \<le> r" by (rule round_up_total)
  with round_up_sound [OF r conjunct1 [OF a]] round_up_least [OF r conjunct1 [OF a]]
  show "\<exists>r. round_up b n m = Some r \<and> unat m dvd unat r \<and> n \<le> r \<and>
      (\<forall>k. unat m dvd k \<and> unat n \<le> k \<longrightarrow> unat r \<le> k)" by blast
next
  show "\<exists>r. round_down b n m = Some r \<and> r \<le> n \<and> (if m = 0 then r = n else unat m dvd unat r \<and> unat n < unat r + unat m)"
  proof (cases "m = 0")
    case False
    from round_down_eq [OF False] obtain r where r: "round_down b n m = Some r" by blast
    with round_down_sound [OF r False] False show ?thesis by auto
  qed (simp add: round_down_def)
qed

end
