(* ===== verification/Platform.thy ===== *)
theory Platform
  imports Prelude
begin

text \<open>
  What the build and the process fix for a run of the library: the compilation target (the
  \<open>cfg\<close> switches of the source) and the system information of
  \<open>src-rust/src/utilities/cached.rs\<close>.  The pointer width is 64 bits throughout.
\<close>

section \<open>The target\<close>

datatype target_os = Windows | Linux | Macos | Android | Other_Unix

datatype target_arch = X86_64 | Aarch64 | Other_Arch

record target =
  tgt_os :: target_os
  tgt_arch :: target_arch

abbreviation cfg_windows :: "target \<Rightarrow> bool" where
  "cfg_windows t \<equiv> tgt_os t = Windows"

abbreviation cfg_macos_aarch64 :: "target \<Rightarrow> bool" where
  "cfg_macos_aarch64 t \<equiv> tgt_os t = Macos \<and> tgt_arch t = Aarch64"

section \<open>System information\<close>

text \<open>What the operating system and the crate \<open>mmap-rs\<close> answer: parameters of the model.\<close>

record system_info =
  lpMaximumApplicationAddress :: usize
  dwAllocationGranularity :: u32
  dwPageSize :: u32

record sys_queries =
  GetSystemInfo :: system_info
  GetCurrentProcessId :: u32
  getpid :: i32
  mmap_rs_page_size :: usize
  mmap_rs_allocation_granularity :: usize

record cached =
  ci_max_address :: usize
  ci_allocation_granularity :: i32
  ci_page_size :: u32
  ci_this_process_id :: u32

text \<open>The out-parameters \<open>(allocation_granularity, max_address, page_size)\<close> of the two queries.\<close>

definition get_address_and_allocation_granularity_windows ::
  "sys_queries \<Rightarrow> i32 \<times> usize \<times> i32" where
  "get_address_and_allocation_granularity_windows q =
     (let info = GetSystemInfo q in
      (dwAllocationGranularity info, lpMaximumApplicationAddress info, dwPageSize info))"

definition get_address_and_allocation_granularity_mmap_rs ::
  "sys_queries \<Rightarrow> i32 \<times> usize \<times> i32" where
  "get_address_and_allocation_granularity_mmap_rs q =
     (let max_address = 0x7FFFFFFFFFFF;
          page_size = ucast (mmap_rs_page_size q) :: i32;
          granularity = ucast (mmap_rs_allocation_granularity q) :: i32
      in ((if granularity \<le>s page_size then page_size else granularity), max_address, page_size))"

definition get_process_id :: "target \<Rightarrow> sys_queries \<Rightarrow> u32" where
  "get_process_id t q = (if cfg_windows t then GetCurrentProcessId q else getpid q)"

definition cached_new :: "target \<Rightarrow> sys_queries \<Rightarrow> cached" where
  "cached_new t q =
     (let (allocation_granularity, max_address, page_size) =
        (if cfg_windows t then get_address_and_allocation_granularity_windows q
         else get_address_and_allocation_granularity_mmap_rs q)
      in \<lparr>ci_max_address = max_address,
          ci_allocation_granularity = allocation_granularity,
          ci_page_size = 4096,
          ci_this_process_id = get_process_id t q\<rparr>)"

text \<open>
  The static \<open>CACHED\<close> is an \<open>Option<Cached>\<close>: the first call fills it, later calls read it.  The
  operating system may answer differently at every call (\<open>q\<close>).
\<close>

definition make_sys_info :: "target \<Rightarrow> sys_queries \<Rightarrow> cached option \<Rightarrow> cached option" where
  "make_sys_info t q CACHED = Some (cached_new t q)"

definition get_sys_info :: "target \<Rightarrow> sys_queries \<Rightarrow> cached option \<Rightarrow> cached \<times> cached option" where
  "get_sys_info t q CACHED =
     (case CACHED of
        Some c \<Rightarrow> (c, CACHED)
      | None \<Rightarrow> (let CACHED' = make_sys_info t q CACHED in (the CACHED', CACHED')))"

text \<open>
  Calls in sequence, each with its own answers from the system.  Every call returns what the
  first one computed, so the rest of the model takes the information as one fixed value.
\<close>

fun sys_info_calls :: "target \<Rightarrow> sys_queries list \<Rightarrow> cached option \<Rightarrow> cached list" where
  "sys_info_calls t [] st = []"
| "sys_info_calls t (q # qs) st =
     (let (c, st') = get_sys_info t q st in c # sys_info_calls t qs st')"

lemma sys_info_calls_cached: "sys_info_calls t qs (Some c) = replicate (length qs) c"
  by (induction qs) (simp_all add: get_sys_info_def)

lemma sys_info_calls_first:
  "sys_info_calls t (q # qs) None = replicate (Suc (length qs)) (cached_new t q)"
  by (simp add: get_sys_info_def make_sys_info_def sys_info_calls_cached)

text \<open>The granularity as the \<open>usize\<close> the allocators use (\<open>i32 as usize\<close> extends the sign).\<close>

definition granularity :: "cached \<Rightarrow> usize" where
  "granularity sys = scast (ci_allocation_granularity sys)"

text \<open>
  What the rest of the library relies on: a positive granularity of whole 4 KiB pages and a
  maximum address below the last byte of the address space.  Windows answers 64 KiB, the Unix
  systems their page size; the largest user address of a 64-bit process is far below the top.
\<close>

definition sane_sys :: "cached \<Rightarrow> bool" where
  "sane_sys sys \<longleftrightarrow>
     0 < unat (ci_allocation_granularity sys) \<and> unat (ci_allocation_granularity sys) < 2 ^ 31 \<and>
     4096 dvd unat (ci_allocation_granularity sys) \<and>
     below_top (ci_max_address sys)"

lemma sint_nonneg_i32: "unat (x :: i32) < 2 ^ 31 \<Longrightarrow> sint x = uint x"
proof -
  assume "unat x < 2 ^ 31"
  then have "int (unat x) < int (2 ^ 31)" by (simp only: of_nat_less_iff)
  then have lt: "uint x < 2 ^ 31" by simp
  have "- (2 ^ 31) \<le> uint x" by (rule order.trans [of _ 0]) simp_all
  then have "signed_take_bit 31 (uint x) = uint x"
    using lt by (intro signed_take_bit_int_eq_self)
  then show ?thesis by (simp add: sint_uint)
qed

lemma unat_granularity:
  "sane_sys sys \<Longrightarrow> unat (granularity sys) = unat (ci_allocation_granularity sys)"
proof -
  assume "sane_sys sys"
  then have "scast (ci_allocation_granularity sys) = (ucast (ci_allocation_granularity sys) :: usize)"
    by (simp add: sane_sys_def scast_eq sint_nonneg_i32)
  then show ?thesis by (simp add: granularity_def)
qed

lemma sane_granularity:
  assumes "sane_sys sys"
  shows "granularity sys \<noteq> 0" "unat (granularity sys) < 2 ^ 31" "4096 \<le> unat (granularity sys)"
    "4096 dvd unat (granularity sys)"
proof -
  show b: "unat (granularity sys) < 2 ^ 31" "4096 dvd unat (granularity sys)"
    using assms by (simp_all add: sane_sys_def unat_granularity [OF assms])
  have pos: "0 < unat (granularity sys)"
    using assms by (simp add: sane_sys_def unat_granularity [OF assms])
  then show "granularity sys \<noteq> 0" by (simp add: unat_gt_0)
  show "4096 \<le> unat (granularity sys)" using b(2) pos by (rule dvd_imp_le)
qed

end
