(* ===== verification/Settings.thy ===== *)
theory Settings
  imports Mathematics Platform
begin

text \<open>
  The parameter structs of \<open>src-rust/src/structs/params/\<close> and the error types of
  \<open>src-rust/src/structs/errors/\<close>.
\<close>

section \<open>\<open>BufferAllocatorSettings\<close>\<close>

record buffer_allocator_settings =
  bas_min_address :: usize
  bas_max_address :: usize
  bas_size :: u32
  bas_target_process_id :: u32
  bas_retry_count :: i32
  bas_brute_force :: bool

definition allocator_settings_new :: "cached \<Rightarrow> buffer_allocator_settings" where
  "allocator_settings_new sys =
     \<lparr>bas_min_address = 0,
      bas_max_address = ci_max_address sys,
      bas_size = 4096,
      bas_target_process_id = ci_this_process_id sys,
      bas_retry_count = 8,
      bas_brute_force = True\<rparr>"

definition allocator_settings_from_proximity ::
  "cached \<Rightarrow> usize \<Rightarrow> usize \<Rightarrow> usize \<Rightarrow> buffer_allocator_settings" where
  "allocator_settings_from_proximity sys proximity target sz =
     (allocator_settings_new sys)
       \<lparr>bas_max_address := add_with_overflow_cap target proximity,
        bas_min_address := subtract_with_underflow_cap target proximity,
        bas_size := ucast sz\<rparr>"

definition sanitize ::
  "build \<Rightarrow> target \<Rightarrow> cached \<Rightarrow> buffer_allocator_settings \<Rightarrow> buffer_allocator_settings option" where
  "sanitize b t sys s =
     (let s1 = (if cfg_windows t \<and> bas_min_address s < granularity sys
                then s\<lparr>bas_min_address := granularity sys\<rparr> else s);
          s2 = s1\<lparr>bas_size := max (bas_size s1) 1\<rparr>
      in do {
        rounded \<leftarrow> round_up b (ucast (bas_size s2)) (granularity sys);
        Some (s2\<lparr>bas_size := ucast rounded\<rparr>)
      })"

section \<open>\<open>BufferSearchSettings\<close>\<close>

record buffer_search_settings =
  bss_min_address :: usize
  bss_max_address :: usize
  bss_size :: u32

definition search_settings_new :: "cached \<Rightarrow> buffer_search_settings" where
  "search_settings_new sys =
     \<lparr>bss_min_address = 0, bss_max_address = ci_max_address sys, bss_size = 4096\<rparr>"

definition search_settings_from_proximity ::
  "usize \<Rightarrow> usize \<Rightarrow> usize \<Rightarrow> buffer_search_settings" where
  "search_settings_from_proximity proximity target sz =
     \<lparr>bss_min_address = subtract_with_underflow_cap target proximity,
      bss_max_address = add_with_overflow_cap target proximity,
      bss_size = ucast sz\<rparr>"

section \<open>Errors\<close>

record buffer_allocation_error =
  bae_settings :: buffer_allocator_settings
  bae_text :: string

definition allocation_error_new :: "buffer_allocator_settings \<Rightarrow> string \<Rightarrow> buffer_allocation_error" where
  "allocation_error_new s txt = \<lparr>bae_settings = s, bae_text = txt\<rparr>"

record buffer_search_error =
  bse_settings :: buffer_search_settings
  bse_text :: string

definition search_error_new :: "buffer_search_settings \<Rightarrow> string \<Rightarrow> buffer_search_error" where
  "search_error_new s txt = \<lparr>bse_settings = s, bse_text = txt\<rparr>"

datatype item_allocation_error = NoSpaceInHeader | CannotAllocateMemory

fun item_allocation_error_as_string :: "item_allocation_error \<Rightarrow> string" where
  "item_allocation_error_as_string NoSpaceInHeader = ''No more space in locator header''"
| "item_allocation_error_as_string CannotAllocateMemory = ''Could not allocate memory''"

section \<open>Facts\<close>

text \<open>
  The rounded size before it is cut back to 32 bits: with a sane granularity it is the least
  multiple of the granularity that holds the request.
\<close>

lemma sanitize_round_up:
  fixes sz :: u32
  assumes sys: "sane_sys sys"
  obtains r where "round_up b (ucast (max sz 1)) (granularity sys) = Some r"
    and "unat (granularity sys) dvd unat r"
    and "max (unat sz) 1 \<le> unat r" and "unat r < max (unat sz) 1 + unat (granularity sys)"
proof -
  note g = sane_granularity [OF sys]
  have m: "unat (max sz 1 :: u32) = max (unat sz) 1" by (simp add: max_def word_le_nat_alt)
  have "unat (ucast (max sz 1) :: usize) + unat (granularity sys) < 2 ^ 64"
    using g(2) unat_u32_lt [of "max sz 1"] by (simp del: unat_of_nat)
  then obtain r where r: "round_up b (ucast (max sz 1)) (granularity sys) = Some r"
    and up: "ucast (max sz 1) \<le> r" by (rule round_up_total)
  have le: "max (unat sz) 1 \<le> unat r" using up m by (simp add: word_le_nat_alt)
  from round_up_sound [OF r up g(1)] m
  have "unat (granularity sys) dvd unat r" "unat r < max (unat sz) 1 + unat (granularity sys)"
    by simp_all
  with r le show ?thesis using that by blast
qed

lemma sanitize_sound:
  assumes sys: "sane_sys sys"
    and fits: "unat (bas_size s) + unat (granularity sys) < 2 ^ 32"
  obtains s' where "sanitize b t sys s = Some s'"
    and "unat (granularity sys) dvd unat (bas_size s')"
    and "bas_size s \<le> bas_size s'" and "0 < unat (bas_size s')"
    and "unat (bas_size s') < max (unat (bas_size s)) 1 + unat (granularity sys)"
    and "bas_min_address s \<le> bas_min_address s'"
    and "bas_max_address s' = bas_max_address s"
    and "bas_retry_count s' = bas_retry_count s"
    and "bas_target_process_id s' = bas_target_process_id s"
    and "bas_brute_force s' = bas_brute_force s"
proof -
  obtain r where r: "round_up b (ucast (max (bas_size s) 1)) (granularity sys) = Some r"
    "unat (granularity sys) dvd unat r"
    "max (unat (bas_size s)) 1 \<le> unat r"
    "unat r < max (unat (bas_size s)) 1 + unat (granularity sys)"
    using sanitize_round_up [OF sys] by blast
  have "unat r < 4294967296" using r(4) fits sane_granularity(2) [OF sys] by auto
  then have u: "unat (ucast r :: u32) = unat r" by (simp add: unat_usize_to_u32)
  show ?thesis
  proof (rule that)
    show "sanitize b t sys s = Some
      (s\<lparr>bas_min_address := (if cfg_windows t \<and> bas_min_address s < granularity sys
            then granularity sys else bas_min_address s), bas_size := ucast r\<rparr>)"
      using r(1) by (simp add: sanitize_def Let_def)
  qed (use r u in \<open>auto simp: word_le_nat_alt word_less_nat_alt\<close>)
qed

section \<open>Properties\<close>

text \<open>
  \<open>sanitize\<close> turns a request into one the allocators can serve: the size becomes the request
  rounded up to the granularity (never 0, less than one granule more), the range only shrinks, and
  nothing else changes.
\<close>

lemma sanitize_serves:
  assumes "sane_sys sys" and "unat (bas_size s) + unat (granularity sys) < 2 ^ 32"
  shows "\<exists>s'. sanitize b t sys s = Some s' \<and>
    unat (granularity sys) dvd unat (bas_size s') \<and> bas_size s \<le> bas_size s' \<and> 0 < unat (bas_size s') \<and>
    unat (bas_size s') < max (unat (bas_size s)) 1 + unat (granularity sys) \<and>
    bas_min_address s \<le> bas_min_address s' \<and> bas_max_address s' = bas_max_address s \<and>
    bas_retry_count s' = bas_retry_count s \<and> bas_target_process_id s' = bas_target_process_id s \<and>
    bas_brute_force s' = bas_brute_force s"
  using assms by (rule sanitize_sound) blast

text \<open>
  A size close to \<open>2 ^ 32\<close> does not survive \<open>sanitize\<close>: rounding it up leaves the 32 bits of the
  field, and the cast makes the size 0, so that the request is for nothing.
\<close>

lemma sanitize_wraps_to_zero:
  assumes "sane_sys sys" and "2 ^ 32 - unat (granularity sys) < unat (bas_size s)"
    and "unat (granularity sys) dvd 2 ^ 32"
  shows "\<exists>s'. sanitize b t sys s = Some s' \<and> bas_size s' = 0"
proof -
  let ?g = "unat (granularity sys)"
  note g = sane_granularity [OF assms(1)]
  have ge: "1 \<le> unat (bas_size s)" using assms(2) g(2) by simp
  obtain r where r: "round_up b (ucast (max (bas_size s) 1)) (granularity sys) = Some r"
    "?g dvd unat r" "max (unat (bas_size s)) 1 \<le> unat r"
    "unat r < max (unat (bas_size s)) 1 + ?g"
    using sanitize_round_up [OF assms(1)] by blast
  have bounds: "unat r \<le> 2 ^ 32 \<or> ?g \<le> unat r - 2 ^ 32"
    using r(2) assms(3) by (metis dvd_diff_nat dvd_imp_le linorder_not_less nat_le_linear
        zero_less_diff diff_is_0_eq')
  have "unat r = 2 ^ 32"
  proof (rule ccontr)
    assume ne: "unat r \<noteq> 2 ^ 32"
    have "unat r < 2 ^ 32 + ?g" using r(4) ge unat_u32_lt [of "bas_size s"] by simp
    with bounds ne have lt: "unat r < 2 ^ 32" using g(2) by auto
    then have "?g dvd 2 ^ 32 - unat r" using assms(3) r(2) by (simp add: dvd_diff_nat)
    with lt have "?g \<le> 2 ^ 32 - unat r" by (auto dest: dvd_imp_le)
    with r(3) assms(2) ge g(2) lt show False by simp
  qed
  then have "(ucast r :: u32) = 0" by (simp add: word_unat_eq_iff unat_usize_to_u32)
  with r(1) show ?thesis by (simp add: sanitize_def Let_def)
qed

end
