(* ===== verification/Address_Range.thy ===== *)
theory Address_Range
  imports Prelude
begin

text \<open>
  \<open>AddressRange\<close> of \<open>src-rust/src/utilities/address_range.rs\<close>: a pair of addresses with closed
  containment and overlap tests.
\<close>

record address_range =
  start_pointer :: usize
  end_pointer :: usize

definition address_range_new :: "usize \<Rightarrow> usize \<Rightarrow> address_range" where
  "address_range_new s e = \<lparr>start_pointer = s, end_pointer = e\<rparr>"

definition address_range_size :: "build \<Rightarrow> address_range \<Rightarrow> usize option" where
  "address_range_size b r = wsub b (end_pointer r) (start_pointer r)"

definition address_range_contains :: "address_range \<Rightarrow> address_range \<Rightarrow> bool" where
  "address_range_contains r other \<longleftrightarrow>
     start_pointer other \<ge> start_pointer r \<and> end_pointer other \<le> end_pointer r"

definition point_in_range :: "address_range \<Rightarrow> usize \<Rightarrow> bool" where
  "point_in_range r point \<longleftrightarrow> point \<ge> start_pointer r \<and> point \<le> end_pointer r"

definition address_range_overlaps :: "address_range \<Rightarrow> address_range \<Rightarrow> bool" where
  "address_range_overlaps r other \<longleftrightarrow>
     point_in_range r (start_pointer other) \<or> point_in_range r (end_pointer other) \<or>
     point_in_range other (start_pointer r) \<or> point_in_range other (end_pointer r)"

text \<open>The addresses a range covers, both ends included.\<close>

definition range_points :: "address_range \<Rightarrow> usize set" where
  "range_points r = {start_pointer r .. end_pointer r}"

lemma address_range_new_sel [simp]:
  "start_pointer (address_range_new s e) = s" "end_pointer (address_range_new s e) = e"
  by (simp_all add: address_range_new_def)

lemma contains_range_points:
  "start_pointer s \<le> end_pointer s \<Longrightarrow>
   address_range_contains r s \<longleftrightarrow> range_points s \<subseteq> range_points r"
  by (auto simp: address_range_contains_def range_points_def)

lemma point_in_range_points: "point_in_range r p \<longleftrightarrow> p \<in> range_points r"
  by (auto simp: point_in_range_def range_points_def)

lemma contains_trans:
  "address_range_contains r s \<Longrightarrow> address_range_contains s t \<Longrightarrow> address_range_contains r t"
  by (auto simp: address_range_contains_def)

lemma overlaps_commute: "address_range_overlaps r s \<longleftrightarrow> address_range_overlaps s r"
  by (auto simp: address_range_overlaps_def)

text \<open>
  The four endpoint tests of \<open>overlaps\<close> decide whether two non-empty closed ranges share an
  address.
\<close>

lemma overlaps_range_points:
  assumes "start_pointer r \<le> end_pointer r" and "start_pointer s \<le> end_pointer s"
  shows "address_range_overlaps r s \<longleftrightarrow> range_points r \<inter> range_points s \<noteq> {}"
proof
  assume "address_range_overlaps r s"
  then show "range_points r \<inter> range_points s \<noteq> {}"
    using assms by (auto simp: address_range_overlaps_def point_in_range_def range_points_def)
next
  assume "range_points r \<inter> range_points s \<noteq> {}"
  then obtain p where "p \<in> range_points r" "p \<in> range_points s" by blast
  then have "start_pointer r \<le> end_pointer s" "start_pointer s \<le> end_pointer r"
    unfolding range_points_def by (auto intro: order.trans)
  then show "address_range_overlaps r s"
    unfolding address_range_overlaps_def point_in_range_def using assms by (meson linear)
qed

end
