(* ===== verification/Candidates.thy ===== *)
theory Candidates
  imports Mathematics Address_Range
begin

text \<open>
  \<open>get_possible_buffer_addresses\<close> of \<open>src-rust/src/internal/buffer_allocator.rs\<close>: the at most four
  addresses at which a buffer is tried inside a free page range.  The caller's array
  \<open>results: &mut [usize; 4]\<close> and the returned slice \<open>&results[0..num_items]\<close> are one list here.
\<close>

text \<open>One of the four tests: the range is kept when it lies in the page and in the min-max range.\<close>

definition candidate :: "address_range \<Rightarrow> address_range \<Rightarrow> address_range \<Rightarrow> usize list" where
  "candidate page min_max r =
     (if address_range_contains page r \<and> address_range_contains min_max r
      then [start_pointer r] else [])"

definition get_possible_buffer_addresses ::
  "build \<Rightarrow> usize \<Rightarrow> usize \<Rightarrow> usize \<Rightarrow> usize \<Rightarrow> usize \<Rightarrow> usize \<Rightarrow> usize list option" where
  "get_possible_buffer_addresses b minimum_ptr maximum_ptr page_start page_end buf_size gran =
     (let min_max_range = address_range_new minimum_ptr maximum_ptr;
          page_range = address_range_new page_start page_end
      in if \<not> address_range_overlaps page_range min_max_range then Some []
      else do {
        page_size \<leftarrow> address_range_size b page_range;
        if buf_size > page_size then Some []
        else do {
          page_min_aligned \<leftarrow> round_up b (start_pointer page_range) gran;
          let c1 = candidate page_range min_max_range
            (address_range_new page_min_aligned (add_with_overflow_cap page_min_aligned buf_size));
          page_max_aligned \<leftarrow>
            round_down b (subtract_with_underflow_cap (end_pointer page_range) buf_size) gran;
          page_max_end \<leftarrow> wadd b page_max_aligned buf_size;
          let c2 = candidate page_range min_max_range
            (address_range_new page_max_aligned page_max_end);
          ptr_min_aligned \<leftarrow> round_up b minimum_ptr gran;
          let c3 = candidate page_range min_max_range
            (address_range_new ptr_min_aligned (add_with_overflow_cap ptr_min_aligned buf_size));
          ptr_max_aligned \<leftarrow>
            round_down b (subtract_with_underflow_cap maximum_ptr buf_size) gran;
          ptr_max_end \<leftarrow> wadd b ptr_max_aligned buf_size;
          let c4 = candidate page_range min_max_range
            (address_range_new ptr_max_aligned ptr_max_end);
          Some (c1 @ c2 @ c3 @ c4)
        }
      })"

text \<open>
  What makes an address usable: it is aligned, and \<open>buf_size\<close> bytes from it stay inside the page
  range and inside the range the caller asked for.
\<close>

definition buffer_fits ::
  "usize \<Rightarrow> usize \<Rightarrow> usize \<Rightarrow> usize \<Rightarrow> usize \<Rightarrow> usize \<Rightarrow> usize \<Rightarrow> bool" where
  "buffer_fits minimum_ptr maximum_ptr page_start page_end buf_size gran a \<longleftrightarrow>
     unat gran dvd unat a \<and> minimum_ptr \<le> a \<and> page_start \<le> a \<and>
     unat a + unat buf_size \<le> unat maximum_ptr \<and> unat a + unat buf_size \<le> unat page_end"

section \<open>One candidate\<close>

lemma candidate_iff [simp]:
  "a \<in> set (candidate page mm r) \<longleftrightarrow>
     a = start_pointer r \<and> address_range_contains page r \<and> address_range_contains mm r"
  by (simp add: candidate_def)

lemma length_candidate: "length (candidate page mm r) \<le> 1"
  by (simp add: candidate_def)

text \<open>A range that starts at a rounded-up address and ends at the capped sum.\<close>

lemma round_up_candidate:
  assumes r: "round_up b n g = Some a" and g: "g \<noteq> 0"
    and n: "n = page_start \<or> n = minimum_ptr"
    and page: "address_range_contains (address_range_new page_start page_end)
      (address_range_new a (add_with_overflow_cap a sz))"
    and mm: "address_range_contains (address_range_new minimum_ptr maximum_ptr)
      (address_range_new a (add_with_overflow_cap a sz))"
    and top: "below_top page_end \<or> below_top maximum_ptr"
  shows "buffer_fits minimum_ptr maximum_ptr page_start page_end sz g a"
proof -
  have "n \<le> a" using n page mm by (auto simp: address_range_contains_def)
  with r g have "unat g dvd unat a" by (intro round_up_sound(1))
  moreover have "unat (add_with_overflow_cap a sz) \<le> unat page_end"
    "unat (add_with_overflow_cap a sz) \<le> unat maximum_ptr"
    using page mm by (simp_all add: address_range_contains_def word_le_nat_alt)
  with top have "unat a + unat sz \<le> unat page_end \<and> unat a + unat sz \<le> unat maximum_ptr"
    by (auto simp: unat_add_with_overflow_cap below_top_def)
  ultimately show ?thesis
    using page mm by (simp add: buffer_fits_def address_range_contains_def)
qed

text \<open>Rounding down from an end: adding the size again never overflows.\<close>

lemma round_down_end:
  assumes "round_down b (subtract_with_underflow_cap e sz) g = Some a" and "g \<noteq> 0"
  shows "unat a + unat sz < 2 ^ 64" and "unat (a + sz) = unat a + unat sz"
proof -
  have "unat a \<le> unat e - unat sz"
    using round_down_sound(2) [OF assms] by (simp add: word_le_nat_alt unat_subtract_with_underflow_cap)
  then have "unat a + unat sz \<le> max (unat e) (unat sz)" by linarith
  also have "\<dots> < 2 ^ 64" using unat_usize_lt [of e] unat_usize_lt [of sz] by simp
  finally show *: "unat a + unat sz < 2 ^ 64" .
  then show "unat (a + sz) = unat a + unat sz" by (intro unat_add_small) simp
qed

lemma round_down_candidate:
  assumes r: "round_down b (subtract_with_underflow_cap e sz) g = Some a" and g: "g \<noteq> 0"
    and page: "address_range_contains (address_range_new page_start page_end)
      (address_range_new a (a + sz))"
    and mm: "address_range_contains (address_range_new minimum_ptr maximum_ptr)
      (address_range_new a (a + sz))"
  shows "buffer_fits minimum_ptr maximum_ptr page_start page_end sz g a"
  using page mm round_down_end(2) [OF r g] round_down_sound(1) [OF r g]
  by (simp add: buffer_fits_def address_range_contains_def word_le_nat_alt)

section \<open>Soundness\<close>

lemma get_possible_sound:
  assumes ret: "get_possible_buffer_addresses b mn mx ps pe sz g = Some rs" and a: "a \<in> set rs"
    and g: "g \<noteq> 0" and top: "below_top pe \<or> below_top mx"
  shows "buffer_fits mn mx ps pe sz g a"
proof -
  let ?page = "address_range_new ps pe" and ?mm = "address_range_new mn mx"
  from ret a obtain a1 a2 e2 a3 a4 e4 where
    r: "round_up b ps g = Some a1"
      "round_down b (subtract_with_underflow_cap pe sz) g = Some a2" "wadd b a2 sz = Some e2"
      "round_up b mn g = Some a3"
      "round_down b (subtract_with_underflow_cap mx sz) g = Some a4" "wadd b a4 sz = Some e4"
    and mem: "a \<in> set (candidate ?page ?mm (address_range_new a1 (add_with_overflow_cap a1 sz))
      @ candidate ?page ?mm (address_range_new a2 e2)
      @ candidate ?page ?mm (address_range_new a3 (add_with_overflow_cap a3 sz))
      @ candidate ?page ?mm (address_range_new a4 e4))"
    by (auto simp: get_possible_buffer_addresses_def Let_def Option.bind_eq_Some_conv split: if_splits)
  from r(3,6) have e: "e2 = a2 + sz" "e4 = a4 + sz" by (auto dest: wadd_SomeD)
  from mem show ?thesis
    by (auto simp: e intro: round_up_candidate [OF r(1) g _ _ _ top] round_up_candidate [OF r(4) g _ _ _ top]
        round_down_candidate [OF r(2) g] round_down_candidate [OF r(5) g])
qed

text \<open>The result fits the caller's four-slot array, so no write into it is out of range.\<close>

lemma get_possible_length:
  assumes "get_possible_buffer_addresses b mn mx ps pe sz g = Some rs"
  shows "length rs \<le> 4"
proof -
  have "length (candidate p m r1 @ candidate p m r2 @ candidate p m r3 @ candidate p m r4) \<le> 4"
    for p m r1 r2 r3 r4
    using length_candidate [of p m r1] length_candidate [of p m r2] length_candidate [of p m r3]
      length_candidate [of p m r4] by simp
  with assms show ?thesis
    by (auto simp: get_possible_buffer_addresses_def Let_def Option.bind_eq_Some_conv split: if_splits)
qed

section \<open>Completeness\<close>

lemma fits_overlaps:
  assumes "buffer_fits mn mx ps pe sz g a"
  shows "address_range_overlaps (address_range_new ps pe) (address_range_new mn mx)"
    and "ps \<le> pe" and "sz \<le> pe - ps"
proof -
  from assms have a: "ps \<le> a" "mn \<le> a" "a \<le> pe" "a \<le> mx"
    by (auto simp: buffer_fits_def word_le_nat_alt)
  show pe: "ps \<le> pe" using a by auto
  show "address_range_overlaps (address_range_new ps pe) (address_range_new mn mx)"
    using a by (auto simp: address_range_overlaps_def point_in_range_def not_le)
  have "unat sz \<le> unat pe - unat ps"
    using assms by (auto simp: buffer_fits_def word_le_nat_alt)
  then show "sz \<le> pe - ps" using pe by (simp add: word_le_nat_alt unat_sub)
qed

text \<open>If any aligned address works, the one rounded up from the larger lower bound works.\<close>

lemma round_up_complete:
  assumes fits: "buffer_fits mn mx ps pe sz g c"
    and r: "round_up b n g = Some a" and up: "n \<le> a" and g: "g \<noteq> 0"
    and n: "n = max ps mn"
  shows "address_range_contains (address_range_new ps pe) (address_range_new a (add_with_overflow_cap a sz))"
    and "address_range_contains (address_range_new mn mx) (address_range_new a (add_with_overflow_cap a sz))"
proof -
  from fits n have c: "unat g dvd unat c" "n \<le> c" by (auto simp: buffer_fits_def)
  from round_up_least [OF r up g c(1)] c(2) have "unat a \<le> unat c" by (simp add: word_le_nat_alt)
  with fits have "unat (add_with_overflow_cap a sz) \<le> unat pe" "unat (add_with_overflow_cap a sz) \<le> unat mx"
    by (auto simp: buffer_fits_def unat_add_with_overflow_cap)
  moreover have "ps \<le> a" "mn \<le> a" using up n by auto
  ultimately show "address_range_contains (address_range_new ps pe) (address_range_new a (add_with_overflow_cap a sz))"
    "address_range_contains (address_range_new mn mx) (address_range_new a (add_with_overflow_cap a sz))"
    by (auto simp: address_range_contains_def word_le_nat_alt)
qed

lemma round_up_le_fit:
  assumes fits: "buffer_fits mn mx ps pe sz g c" and r: "round_up b n g = Some a"
    and n: "n = ps \<or> n = mn" and g: "g \<noteq> 0"
  shows "n \<le> a"
proof (cases "n mod g = 0")
  case True
  with r g show ?thesis by (simp add: round_up_def)
next
  case False
  let ?d = "g - n mod g"
  from round_up_eq [OF g False r] have a: "a = n + ?d" .
  have le: "n mod g \<le> g" using unat_mod_bounds(1) [OF g, of n] by (simp add: word_le_nat_alt)
  have d: "unat ?d = unat g - unat n mod unat g" using le by (simp add: unat_sub unat_mod)
  have nc: "unat n \<le> unat c" and dvd: "unat g dvd unat c"
    using fits n by (auto simp: buffer_fits_def word_le_nat_alt)
  have pos: "0 < unat n mod unat g" using False by (simp add: mod_eq_0_iff_dvd_unat dvd_eq_mod_eq_0)
  have "unat n + (unat g - unat n mod unat g) \<le> unat c"
  proof (rule ccontr)
    let ?k = "unat n + (unat g - unat n mod unat g)"
    assume "\<not> ?k \<le> unat c"
    moreover have "unat g dvd ?k - unat c"
      using dvd_round_up_nat [OF pos] g dvd by (intro dvd_diff_nat) (auto simp: unat_gt_0)
    ultimately have "unat g \<le> ?k - unat c" by (simp add: dvd_imp_le)
    with nc pos \<open>\<not> ?k \<le> unat c\<close> show False by simp
  qed
  then have "unat n + unat ?d < 2 ^ LENGTH(64)" using d unat_usize_lt [of c] by simp
  then have "unat a = unat n + unat ?d" unfolding a by (rule unat_add_small)
  then show ?thesis by (simp add: word_le_nat_alt)
qed

lemma get_possible_complete:
  assumes ret: "get_possible_buffer_addresses b mn mx ps pe sz g = Some rs" and g: "g \<noteq> 0"
    and fits: "buffer_fits mn mx ps pe sz g c"
  shows "rs \<noteq> []"
proof -
  let ?page = "address_range_new ps pe" and ?mm = "address_range_new mn mx"
  note ov = fits_overlaps [OF fits]
  have sz: "address_range_size b ?page = Some (pe - ps)"
    using ov(2) by (simp add: address_range_size_def wsub_ok)
  from ret ov sz obtain a1 a2 e2 a3 a4 e4 where
    r: "round_up b ps g = Some a1" "round_up b mn g = Some a3"
    and rs: "rs = candidate ?page ?mm (address_range_new a1 (add_with_overflow_cap a1 sz))
      @ candidate ?page ?mm (address_range_new a2 e2)
      @ candidate ?page ?mm (address_range_new a3 (add_with_overflow_cap a3 sz))
      @ candidate ?page ?mm (address_range_new a4 e4)"
    by (auto simp: get_possible_buffer_addresses_def Let_def Option.bind_eq_Some_conv not_less
        split: if_splits)
  have up: "ps \<le> a1" "mn \<le> a3"
    using round_up_le_fit [OF fits r(1) _ g] round_up_le_fit [OF fits r(2) _ g] by auto
  show ?thesis
  proof (cases "mn \<le> ps")
    case True
    then have "ps = max ps mn" by simp
    from round_up_complete [OF fits r(1) up(1) g this] show ?thesis by (simp add: rs candidate_def)
  next
    case False
    then have "mn = max ps mn" by simp
    from round_up_complete [OF fits r(2) up(2) g this] show ?thesis by (simp add: rs candidate_def)
  qed
qed

section \<open>Termination without a panic\<close>

lemma get_possible_returns:
  assumes page: "ps \<le> pe" and g: "g \<noteq> 0"
    and room: "unat ps + unat g < 2 ^ 64" "unat mn + unat g < 2 ^ 64"
  obtains rs where "get_possible_buffer_addresses b mn mx ps pe sz g = Some rs"
proof -
  obtain a1 where a1: "round_up b ps g = Some a1" using room(1) by (rule round_up_total)
  obtain a3 where a3: "round_up b mn g = Some a3" using room(2) by (rule round_up_total)
  obtain a2 where a2: "round_down b (subtract_with_underflow_cap pe sz) g = Some a2"
    using round_down_eq [OF g] by blast
  obtain a4 where a4: "round_down b (subtract_with_underflow_cap mx sz) g = Some a4"
    using round_down_eq [OF g] by blast
  have "wadd b a2 sz = Some (a2 + sz)" "wadd b a4 sz = Some (a4 + sz)"
    using round_down_end(1) [OF a2 g] round_down_end(1) [OF a4 g] by (simp_all add: arith_ok)
  moreover have "address_range_size b (address_range_new ps pe) = Some (pe - ps)"
    using page by (simp add: address_range_size_def wsub_ok)
  ultimately have "\<exists>rs. get_possible_buffer_addresses b mn mx ps pe sz g = Some rs"
    using a1 a2 a3 a4 by (simp add: get_possible_buffer_addresses_def Let_def)
  then show ?thesis using that by blast
qed

lemma get_possible_Release:
  assumes g: "g \<noteq> 0"
  obtains rs where "get_possible_buffer_addresses Release mn mx ps pe sz g = Some rs"
proof -
  obtain a1 a3 where "round_up Release ps g = Some a1" "round_up Release mn g = Some a3"
    using round_up_Release by blast
  then have "\<exists>rs. get_possible_buffer_addresses Release mn mx ps pe sz g = Some rs"
    by (simp add: get_possible_buffer_addresses_def Let_def address_range_size_def round_down_eq [OF g])
  then show ?thesis using that by blast
qed

section \<open>Properties\<close>

text \<open>
  C12 Every address \<open>get_possible_buffer_addresses\<close> proposes is a multiple of the granularity at
  which the whole buffer lies inside the free pages and inside the range asked for; it proposes at
  most four.
\<close>

theorem candidates_sound:
  assumes "get_possible_buffer_addresses b mn mx ps pe sz g = Some rs" and "g \<noteq> 0"
    and "below_top pe \<or> below_top mx"
  shows "length rs \<le> 4 \<and> (\<forall>a \<in> set rs. buffer_fits mn mx ps pe sz g a)"
  using get_possible_length [OF assms(1)] get_possible_sound [OF assms(1) _ assms(2,3)] by blast

theorem candidates_sound_witness:
  "get_possible_buffer_addresses Debug 100000 200000 50000 250000 30000 65536 = Some [131072, 131072] \<and>
   buffer_fits 100000 200000 50000 250000 30000 65536 131072"
proof -
  have ret: "get_possible_buffer_addresses Debug 100000 200000 50000 250000 30000 65536
      = Some [131072, 131072]"
    by (simp add: get_possible_buffer_addresses_def candidate_def address_range_overlaps_def
        point_in_range_def address_range_size_def address_range_contains_def round_up_def round_down_def
        add_with_overflow_cap_def subtract_with_underflow_cap_def wadd_def wsub_def Let_def)
  from candidates_sound [OF ret] ret show ?thesis by (simp add: below_top_def)
qed

text \<open>
  C13 The candidates are complete: when some aligned place for the buffer exists in the free pages
  and the range, the function returns, under both profiles, and proposes at least one.
\<close>

theorem candidates_complete:
  assumes "buffer_fits mn mx ps pe sz g c" and "g \<noteq> 0"
    and "unat ps + unat g < 2 ^ 64" "unat mn + unat g < 2 ^ 64"
  shows "\<exists>rs. get_possible_buffer_addresses b mn mx ps pe sz g = Some rs \<and> rs \<noteq> []"
proof -
  have "ps \<le> pe" using assms(1) by (auto simp: buffer_fits_def word_le_nat_alt)
  then obtain rs where "get_possible_buffer_addresses b mn mx ps pe sz g = Some rs"
    using assms(2-4) by (rule get_possible_returns)
  with get_possible_complete [OF _ assms(2,1)] show ?thesis by blast
qed

theorem candidates_complete_witness:
  "\<exists>rs. get_possible_buffer_addresses Debug 100000 200000 50000 250000 30000 65536 = Some rs \<and> rs \<noteq> []"
proof (rule candidates_complete)
  show "buffer_fits 100000 200000 50000 250000 30000 65536 131072" by (simp add: buffer_fits_def)
qed simp_all

end
