(* ===== verification/Spin_Lock.thy ===== *)
theory Spin_Lock
  imports Main
begin

text \<open>
  The locking discipline shared by \<open>LocatorItem\<close> and \<open>LocatorHeader\<close>: an atomic \<open>try_lock\<close>, a
  blocking \<open>lock\<close> that spins on it and yields the processor between attempts, and \<open>unlock\<close>.
  What other threads do while this one yields (\<open>sched_yield\<close>, \<open>SwitchToThread\<close>) is the argument
  \<open>yield\<close>: a function on the shared state.
\<close>

text \<open>
  \<^verbatim>\<open>while !self.try_lock() { sched_yield(); }\<close>: the value \<open>None\<close> is a loop that never ends.
\<close>

partial_function (option) spin_lock ::
  "('s \<Rightarrow> bool \<times> 's) \<Rightarrow> ('s \<Rightarrow> 's) \<Rightarrow> 's \<Rightarrow> 's option" where
  "spin_lock attempt yield s =
     (if fst (attempt s) then Some (snd (attempt s))
      else spin_lock attempt yield (yield (snd (attempt s))))"

declare spin_lock.simps [code]

text \<open>One turn of the loop that did not get the lock.\<close>

definition failed_turn :: "('s \<Rightarrow> bool \<times> 's) \<Rightarrow> ('s \<Rightarrow> 's) \<Rightarrow> 's \<Rightarrow> 's" where
  "failed_turn attempt yield s = yield (snd (attempt s))"

text \<open>What the attempts and the other threads keep, the spin keeps.\<close>

lemma spin_lock_invariant:
  assumes ret: "spin_lock attempt yield s = Some s'" and "I s"
    and "\<And>s. I s \<Longrightarrow> I (snd (attempt s))" and "\<And>s. I s \<Longrightarrow> I (yield s)"
  shows "I s'"
proof -
  have "(\<forall>s. I s \<longrightarrow> I (snd (attempt s))) \<longrightarrow> (\<forall>s. I s \<longrightarrow> I (yield s)) \<longrightarrow> I s \<longrightarrow> I s'"
    by (rule spin_lock.raw_induct [OF _ ret]) (auto split: if_splits)
  with assms(2-) show ?thesis by blast
qed

section \<open>The contract of a lock\<close>

locale try_lock_contract =
  fixes try_lock :: "'s \<Rightarrow> bool \<times> 's"
    and unlock :: "'s \<Rightarrow> 's option"
    and held :: "'s \<Rightarrow> bool"
  assumes try_free: "\<not> held s \<Longrightarrow> fst (try_lock s)"
    and try_held: "held s \<Longrightarrow> \<not> fst (try_lock s)"
    and held_after_try: "held (snd (try_lock s))"
    and unlock_held: "held s \<Longrightarrow> \<exists>s'. unlock s = Some s' \<and> \<not> held s'"
begin

text \<open>At most one of two attempts in a row succeeds: the lock cannot be taken twice.\<close>

lemma second_try_fails: "\<not> fst (try_lock (snd (try_lock s)))"
  by (rule try_held [OF held_after_try])

lemma try_iff_free: "fst (try_lock s) \<longleftrightarrow> \<not> held s"
  using try_free try_held by blast

lemma spin_free: "\<not> held s \<Longrightarrow> spin_lock try_lock yield s = Some (snd (try_lock s))"
  by (subst spin_lock.simps) (simp add: try_iff_free)

lemma spin_held:
  "held s \<Longrightarrow> spin_lock try_lock yield s = spin_lock try_lock yield (failed_turn try_lock yield s)"
  by (subst spin_lock.simps) (simp add: try_iff_free failed_turn_def)

lemma spin_result_held:
  assumes "spin_lock try_lock yield s = Some s'"
  shows "held s'"
proof (rule spin_lock.raw_induct [where P = "\<lambda>attempt yield s s'. attempt = try_lock \<longrightarrow> held s'",
      OF _ assms, THEN mp, OF _ refl])
  fix f attempt yield s s'
  assume IH: "\<And>attempt yield s s'. f attempt yield s = Some s' \<Longrightarrow> attempt = try_lock \<longrightarrow> held s'"
    and eq: "(if fst (attempt s) then Some (snd (attempt s)) else f attempt yield (yield (snd (attempt s))))
      = Some s'"
  show "attempt = try_lock \<longrightarrow> held s'"
    using eq IH by (auto simp: held_after_try split: if_splits)
qed

text \<open>If the lock is free after some number of turns, the spin ends with the lock held.\<close>

lemma spin_ends:
  "\<not> held ((failed_turn try_lock yield ^^ k) s) \<Longrightarrow> \<exists>s'. spin_lock try_lock yield s = Some s'"
proof (induction k arbitrary: s)
  case 0
  then show ?case by (simp add: spin_free)
next
  case (Suc k)
  show ?case
  proof (cases "held s")
    case True
    from Suc.prems have "\<not> held ((failed_turn try_lock yield ^^ k) (failed_turn try_lock yield s))"
      by (simp add: funpow_swap1)
    from Suc.IH [OF this] True show ?thesis by (simp add: spin_held)
  qed (simp add: spin_free)
qed

text \<open>A spin that ends found the lock free after some number of turns.\<close>

lemma spin_end_free:
  assumes "spin_lock try_lock yield s = Some s'"
  shows "\<exists>k. \<not> held ((failed_turn try_lock yield ^^ k) s)"
proof (rule spin_lock.raw_induct [where P = "\<lambda>attempt yield s s'. attempt = try_lock \<longrightarrow>
      (\<exists>k. \<not> held ((failed_turn try_lock yield ^^ k) s))", OF _ assms, THEN mp, OF _ refl])
  fix f attempt yield s s'
  assume IH: "\<And>attempt yield s s'. f attempt yield s = Some s' \<Longrightarrow> attempt = try_lock \<longrightarrow>
      (\<exists>k. \<not> held ((failed_turn try_lock yield ^^ k) s))"
    and eq: "(if fst (attempt s) then Some (snd (attempt s)) else f attempt yield (yield (snd (attempt s))))
      = Some s'"
  show "attempt = try_lock \<longrightarrow> (\<exists>k. \<not> held ((failed_turn try_lock yield ^^ k) s))"
  proof
    assume a: "attempt = try_lock"
    show "\<exists>k. \<not> held ((failed_turn try_lock yield ^^ k) s)"
    proof (cases "held s")
      case True
      with eq a have "f attempt yield (failed_turn try_lock yield s) = Some s'"
        by (simp add: try_iff_free failed_turn_def)
      from IH [OF this] a obtain k where
        "\<not> held ((failed_turn try_lock yield ^^ k) (failed_turn try_lock yield s))" by blast
      then have "\<not> held ((failed_turn try_lock yield ^^ Suc k) s)" by (simp add: funpow_swap1)
      then show ?thesis by blast
    next
      case False
      then have "\<not> held ((failed_turn try_lock yield ^^ 0) s)" by simp
      then show ?thesis by blast
    qed
  qed
qed

lemma spin_ends_iff:
  "(\<exists>s'. spin_lock try_lock yield s = Some s') \<longleftrightarrow>
   (\<exists>k. \<not> held ((failed_turn try_lock yield ^^ k) s))"
  using spin_ends spin_end_free by blast

text \<open>Taking the lock and giving it back leaves it free.\<close>

lemma spin_then_unlock:
  assumes "spin_lock try_lock yield s = Some s'"
  shows "\<exists>s''. unlock s' = Some s'' \<and> \<not> held s''"
  using assms by (intro unlock_held spin_result_held)

end

end
