(* ===== verification/Code_Memory.thy ===== *)
theory Code_Memory
  imports Platform
begin

text \<open>
  Writing into executable memory: the write-xor-execute switches of
  \<open>src-rust/src/utilities/disable_write_xor_execute.rs\<close> and the instruction cache flush of
  \<open>src-rust/src/utilities/icache_clear.rs\<close>.  The operating system calls they make are parameters,
  functions on the system's state \<open>'o\<close>.
\<close>

datatype vm_prot = VM_PROT_READ | VM_PROT_WRITE | VM_PROT_EXECUTE

text \<open>
  \<open>mach_vm_protect\<close> takes address, size and the new protection; \<open>clf::cache_line_flush_with_ptr\<close>
  takes start and end; \<open>FlushInstructionCache\<close> takes start and length.  Their results are ignored by the source.
\<close>

record 'o code_api =
  mach_vm_protect_code :: "usize \<Rightarrow> usize \<Rightarrow> vm_prot list \<Rightarrow> 'o \<Rightarrow> 'o"
  cache_line_flush_with_ptr :: "usize \<Rightarrow> usize \<Rightarrow> 'o \<Rightarrow> 'o"
  FlushInstructionCache :: "usize \<Rightarrow> usize \<Rightarrow> 'o \<Rightarrow> 'o"

text \<open>The bytes of the process and the state of the operating system.\<close>

record 'o machine =
  mem :: memory
  os :: 'o

definition disable_write_xor_execute ::
  "target \<Rightarrow> 'o code_api \<Rightarrow> usize \<Rightarrow> usize \<Rightarrow> 'o \<Rightarrow> 'o" where
  "disable_write_xor_execute t api address sz =
     (if cfg_macos_aarch64 t
      then mach_vm_protect_code api address sz [VM_PROT_READ, VM_PROT_WRITE] else id)"

definition restore_write_xor_execute ::
  "target \<Rightarrow> 'o code_api \<Rightarrow> usize \<Rightarrow> usize \<Rightarrow> 'o \<Rightarrow> 'o" where
  "restore_write_xor_execute t api address sz =
     (if cfg_macos_aarch64 t
      then mach_vm_protect_code api address sz [VM_PROT_READ, VM_PROT_EXECUTE] else id)"

definition clear_instruction_cache ::
  "build \<Rightarrow> target \<Rightarrow> 'o code_api \<Rightarrow> usize \<Rightarrow> usize \<Rightarrow> 'o \<Rightarrow> 'o option" where
  "clear_instruction_cache b t api start fin s =
     (if tgt_arch t = X86_64 then Some s
      else if cfg_windows t
      then do { len \<leftarrow> wsub b fin start; Some (FlushInstructionCache api start len s) }
      else Some (cache_line_flush_with_ptr api start fin s))"

lemma wx_off_target [simp]:
  assumes "\<not> cfg_macos_aarch64 t"
  shows "disable_write_xor_execute t api a n s = s" "restore_write_xor_execute t api a n s = s"
  using assms by (auto simp: disable_write_xor_execute_def restore_write_xor_execute_def)

lemma clear_instruction_cache_returns:
  "start \<le> fin \<Longrightarrow> \<exists>s'. clear_instruction_cache b t api start fin s = Some s'"
  by (simp add: clear_instruction_cache_def arith_ok)

end
