(* ===== verification/Layout.thy ===== *)
theory Layout
  imports Prelude
begin

text \<open>
  How the structures shared between processes lie in memory: the layout algorithm of \<open>repr(C)\<close>, the
  wrapper \<open>Unaligned\<close> of \<open>src-rust/src/utilities/wrappers.rs\<close>, the layouts of \<open>LocatorHeader\<close> and
  \<open>LocatorItem\<close>, and little-endian numbers.
\<close>

unbundle bit_operations_syntax

section \<open>Layouts\<close>

record layout =
  ly_size :: nat
  ly_align :: nat

abbreviation scalar :: "nat \<Rightarrow> layout" where
  "scalar n \<equiv> \<lparr>ly_size = n, ly_align = n\<rparr>"

definition pad_to :: "nat \<Rightarrow> nat \<Rightarrow> nat" where
  "pad_to a n = (n + a - 1) div a * a"

text \<open>The offsets of the fields of a \<open>repr(C)\<close> structure from \<open>n\<close> on, and the end of the last field.\<close>

fun field_offsets :: "nat \<Rightarrow> layout list \<Rightarrow> nat list" where
  "field_offsets n [] = []"
| "field_offsets n (f # fs) = (let k = pad_to (ly_align f) n in k # field_offsets (k + ly_size f) fs)"

fun fields_end :: "nat \<Rightarrow> layout list \<Rightarrow> nat" where
  "fields_end n [] = n"
| "fields_end n (f # fs) = fields_end (pad_to (ly_align f) n + ly_size f) fs"

definition repr_c :: "layout list \<Rightarrow> layout" where
  "repr_c fs = (let al = fold (max \<circ> ly_align) fs 1 in \<lparr>ly_size = pad_to al (fields_end 0 fs), ly_align = al\<rparr>)"

text \<open>\<open>repr(C, packed)\<close> with one field.\<close>

definition Unaligned :: "layout \<Rightarrow> layout" where
  "Unaligned t = t\<lparr>ly_align := 1\<rparr>"

text \<open>The fields, in the order of the source; \<open>w\<close> is the width of an address in bytes.\<close>

definition LocatorItem_fields :: "nat \<Rightarrow> layout list" where
  "LocatorItem_fields w = [Unaligned (scalar w), scalar 4, scalar 4, scalar 4]"

definition LocatorHeader_fields :: "nat \<Rightarrow> layout list" where
  "LocatorHeader_fields w =
     [Unaligned (scalar w), Unaligned (scalar w), scalar 4, scalar 1, scalar 1, \<lparr>ly_size = 2, ly_align = 1\<rparr>]"

lemmas layout_simps = repr_c_def LocatorItem_fields_def LocatorHeader_fields_def Unaligned_def pad_to_def Let_def

lemma item_layout:
  "field_offsets 0 (LocatorItem_fields 8) = [0, 8, 12, 16]" "repr_c (LocatorItem_fields 8) = \<lparr>ly_size = 20, ly_align = 4\<rparr>"
  "field_offsets 0 (LocatorItem_fields 4) = [0, 4, 8, 12]" "repr_c (LocatorItem_fields 4) = \<lparr>ly_size = 16, ly_align = 4\<rparr>"
  by (simp_all add: layout_simps)

lemma header_layout:
  "field_offsets 0 (LocatorHeader_fields 8) = [0, 8, 16, 20, 21, 22]"
  "repr_c (LocatorHeader_fields 8) = \<lparr>ly_size = 24, ly_align = 4\<rparr>"
  "field_offsets 0 (LocatorHeader_fields 4) = [0, 4, 8, 12, 13, 14]"
  "repr_c (LocatorHeader_fields 4) = \<lparr>ly_size = 16, ly_align = 4\<rparr>"
  by (simp_all add: layout_simps)

section \<open>Little-endian numbers\<close>

definition le_bytes :: "nat \<Rightarrow> 'a::len word \<Rightarrow> u8 list" where
  "le_bytes n x = map (\<lambda>i. ucast (drop_bit (8 * i) x)) [0..<n]"

fun le_word :: "u8 list \<Rightarrow> 'a::len word" where
  "le_word [] = 0"
| "le_word (b # bs) = ucast b OR push_bit 8 (le_word bs)"

lemma length_le_bytes [simp]: "length (le_bytes n x) = n"
  by (simp add: le_bytes_def)

lemma bit_le_word:
  "bit (le_word bs :: 'a::len word) k \<longleftrightarrow> k < LENGTH('a) \<and> k div 8 < length bs \<and> bit (bs ! (k div 8)) (k mod 8)"
proof (induction bs arbitrary: k)
  case (Cons b bs)
  show ?case
  proof (cases "k < 8")
    case True
    then show ?thesis by (auto simp: bit_or_iff bit_push_bit_iff bit_ucast_iff)
  next
    case False
    have "\<not> bit b k" using False bit_imp_le_length [of b k] by auto
    moreover have "k div 8 = Suc ((k - 8) div 8)" "k mod 8 = (k - 8) mod 8"
      using False by (simp_all add: le_div_geq le_mod_geq)
    ultimately show ?thesis using False by (auto simp: bit_or_iff bit_push_bit_iff bit_ucast_iff Cons)
  qed
qed simp

lemma le_word_bytes [simp]:
  assumes "LENGTH('a) \<le> 8 * n"
  shows "le_word (le_bytes n x) = (x :: 'a::len word)"
proof (rule bit_word_eqI)
  fix k assume "k < LENGTH('a)"
  moreover from this assms have "k div 8 < n" by (simp add: less_mult_imp_div_less mult.commute)
  ultimately show "bit (le_word (le_bytes n x) :: 'a word) k \<longleftrightarrow> bit x k"
    by (simp add: bit_le_word le_bytes_def bit_ucast_iff bit_drop_bit_eq)
qed

end
