(* ===== verification/Locator_Item.thy ===== *)
theory Locator_Item
  imports Mathematics Spin_Lock Code_Memory Layout
begin

text \<open>
  \<open>LocatorItem\<close> of \<open>src-rust/src/structs/internal/locator_item.rs\<close>, the record of one buffer: where
  it is, how large it is, how much of it is used and who holds it; and the wrapper
  \<open>SafeLocatorItem\<close> of \<open>src-rust/src/structs/safe_locator_item.rs\<close>.
\<close>

record locator_item =
  li_base_address :: usize
  li_size :: u32
  li_position :: u32
  li_is_taken :: i32

definition locator_item_new :: "usize \<Rightarrow> u32 \<Rightarrow> locator_item" where
  "locator_item_new base_address sz =
     \<lparr>li_base_address = base_address, li_size = sz, li_position = 0, li_is_taken = 0\<rparr>"

section \<open>Accessors\<close>

definition bytes_left :: "build \<Rightarrow> locator_item \<Rightarrow> u32 option" where
  "bytes_left b it = wsub b (li_size it) (li_position it)"

definition item_min_address :: "locator_item \<Rightarrow> usize" where
  "item_min_address it = li_base_address it"

definition item_max_address :: "build \<Rightarrow> locator_item \<Rightarrow> usize option" where
  "item_max_address b it = wadd b (li_base_address it) (ucast (li_size it))"

definition is_allocated :: "locator_item \<Rightarrow> bool" where
  "is_allocated it \<longleftrightarrow> li_base_address it \<noteq> 0"

definition item_is_taken :: "locator_item \<Rightarrow> bool" where
  "item_is_taken it \<longleftrightarrow> li_is_taken it = 1"

section \<open>The lock of an item\<close>

text \<open>\<open>swap(1)\<close> returns the old value; the lock was free when that is 0.\<close>

definition item_try_lock :: "locator_item \<Rightarrow> bool \<times> locator_item" where
  "item_try_lock it = (let was_taken = li_is_taken it in (was_taken = 0, it\<lparr>li_is_taken := 1\<rparr>))"

definition item_lock :: "(locator_item \<Rightarrow> locator_item) \<Rightarrow> locator_item \<Rightarrow> locator_item option" where
  "item_lock yield it = spin_lock item_try_lock yield it"

definition item_unlock :: "locator_item \<Rightarrow> locator_item" where
  "item_unlock it = it\<lparr>li_is_taken := 0\<rparr>"

interpretation item_lock: try_lock_contract item_try_lock "\<lambda>it. Some (item_unlock it)"
  "\<lambda>it. li_is_taken it \<noteq> 0"
  by unfold_locales (auto simp: item_try_lock_def item_unlock_def Let_def)

section \<open>Suitability\<close>

definition can_use :: "build \<Rightarrow> locator_item \<Rightarrow> u32 \<Rightarrow> usize \<Rightarrow> usize \<Rightarrow> bool option" where
  "can_use b it sz min_address max_address =
     (if \<not> is_allocated it then Some False
      else do {
        left \<leftarrow> bytes_left b it;
        if left < sz then Some False
        else do {
          start_available_address \<leftarrow> wadd b (li_base_address it) (ucast (li_position it));
          let end_available_address =
            add_with_overflow_cap (li_base_address it) (ucast (li_size it));
          Some (start_available_address \<ge> min_address \<and> end_available_address \<le> max_address)
        }
      })"

section \<open>Appending\<close>

definition append_bytes ::
  "build \<Rightarrow> target \<Rightarrow> 'o code_api \<Rightarrow> u8 list \<Rightarrow> locator_item \<Rightarrow> 'o machine \<Rightarrow>
   (usize \<times> locator_item \<times> 'o machine) option" where
  "append_bytes b t api data it m =
     (let len = of_nat (length data) :: usize;
          m1 = m\<lparr>os := disable_write_xor_execute t api (li_base_address it) len (os m)\<rparr>
      in do {
        address \<leftarrow> wadd b (li_base_address it) (ucast (li_position it));
        let m2 = m1\<lparr>mem := write_bytes address data (mem m1)\<rparr>;
        position \<leftarrow> wadd b (li_position it) (ucast len);
        let it' = it\<lparr>li_position := position\<rparr>;
        let m3 = m2\<lparr>os := restore_write_xor_execute t api (li_base_address it) len (os m2)\<rparr>;
        Some (address, it', m3)
      })"

definition append_code ::
  "build \<Rightarrow> target \<Rightarrow> 'o code_api \<Rightarrow> u8 list \<Rightarrow> locator_item \<Rightarrow> 'o machine \<Rightarrow>
   (usize \<times> locator_item \<times> 'o machine) option" where
  "append_code b t api data it m =
     (let len = of_nat (length data) :: usize;
          m1 = m\<lparr>os := disable_write_xor_execute t api (li_base_address it) len (os m)\<rparr>
      in do {
        address \<leftarrow> wadd b (li_base_address it) (ucast (li_position it));
        let m2 = m1\<lparr>mem := write_bytes address data (mem m1)\<rparr>;
        position \<leftarrow> wadd b (li_position it) (ucast len);
        let it' = it\<lparr>li_position := position\<rparr>;
        let m3 = m2\<lparr>os := restore_write_xor_execute t api (li_base_address it) len (os m2)\<rparr>;
        fin \<leftarrow> wadd b address len;
        s \<leftarrow> clear_instruction_cache b t api address fin (os m3);
        Some (address, it', m3\<lparr>os := s\<rparr>)
      })"

text \<open>
  \<open>append_copy<T>\<close>: a \<open>Copy\<close> value is its in-memory representation, a list of \<open>size_of::<T>()\<close> bytes.
  (A store through a misaligned \<open>*mut T\<close> is undefined behaviour in Rust; the source does not
  align the position, and the model writes the bytes.)
\<close>

definition append_copy ::
  "build \<Rightarrow> target \<Rightarrow> 'o code_api \<Rightarrow> u8 list \<Rightarrow> locator_item \<Rightarrow> 'o machine \<Rightarrow>
   (usize \<times> locator_item \<times> 'o machine) option" where
  "append_copy b t api repr it m =
     (let len = of_nat (length repr) :: usize;
          m1 = m\<lparr>os := disable_write_xor_execute t api (li_base_address it) len (os m)\<rparr>
      in do {
        address \<leftarrow> wadd b (li_base_address it) (ucast (li_position it));
        let m2 = m1\<lparr>mem := write_bytes address repr (mem m1)\<rparr>;
        position \<leftarrow> wadd b (li_position it) (ucast len);
        let it' = it\<lparr>li_position := position\<rparr>;
        let m3 = m2\<lparr>os := restore_write_xor_execute t api (li_base_address it) len (os m2)\<rparr>;
        Some (address, it', m3)
      })"

section \<open>\<open>SafeLocatorItem\<close>\<close>

text \<open>
  The wrapper forwards to the item it points at; the pointer is resolved by the caller here.  Its
  \<open>append_copy<T>(&self, data: &T)\<close> passes the reference on, so the item's generic parameter is
  \<open>&T\<close>, itself \<open>Copy\<close>: the value that reaches the buffer is the address of \<open>data\<close>, eight bytes in
  little-endian order.
\<close>

definition ptr_repr :: "usize \<Rightarrow> u8 list" where
  "ptr_repr p = le_bytes 8 p"

definition safe_append_code ::
  "build \<Rightarrow> target \<Rightarrow> 'o code_api \<Rightarrow> u8 list \<Rightarrow> locator_item \<Rightarrow> 'o machine \<Rightarrow>
   (usize \<times> locator_item \<times> 'o machine) option" where
  "safe_append_code b t api data it m = append_code b t api data it m"

definition safe_append_bytes ::
  "build \<Rightarrow> target \<Rightarrow> 'o code_api \<Rightarrow> u8 list \<Rightarrow> locator_item \<Rightarrow> 'o machine \<Rightarrow>
   (usize \<times> locator_item \<times> 'o machine) option" where
  "safe_append_bytes b t api data it m = append_bytes b t api data it m"

definition safe_append_copy ::
  "build \<Rightarrow> target \<Rightarrow> 'o code_api \<Rightarrow> usize \<Rightarrow> locator_item \<Rightarrow> 'o machine \<Rightarrow>
   (usize \<times> locator_item \<times> 'o machine) option" where
  "safe_append_copy b t api data_ref it m = append_copy b t api (ptr_repr data_ref) it m"

definition safe_drop :: "locator_item \<Rightarrow> locator_item" where
  "safe_drop it = item_unlock it"

section \<open>The invariant of an item\<close>

text \<open>
  The used part lies inside the buffer and the buffer inside the address space, below its last
  byte.  Items the library makes satisfy it; appending keeps it while the data fits.
\<close>

definition wf_item :: "locator_item \<Rightarrow> bool" where
  "wf_item it \<longleftrightarrow> li_position it \<le> li_size it \<and>
     unat (li_base_address it) + unat (li_size it) < 2 ^ 64"

text \<open>The room left, and the address the next append writes to.\<close>

definition free_bytes :: "locator_item \<Rightarrow> nat" where
  "free_bytes it = unat (li_size it) - unat (li_position it)"

definition next_address :: "locator_item \<Rightarrow> usize" where
  "next_address it = li_base_address it + ucast (li_position it)"

lemma item_new_sel [simp]:
  "li_base_address (locator_item_new a n) = a" "li_size (locator_item_new a n) = n"
  "li_position (locator_item_new a n) = 0" "li_is_taken (locator_item_new a n) = 0"
  by (simp_all add: locator_item_new_def)

lemma wf_item_new: "unat a + unat n < 2 ^ 64 \<Longrightarrow> wf_item (locator_item_new a n)"
  by (simp add: wf_item_def)

lemma item_lock_fresh: "li_is_taken it = 0 \<Longrightarrow> item_lock yield it = Some (it\<lparr>li_is_taken := 1\<rparr>)"
  using item_lock.spin_free [of it] by (simp add: item_lock_def item_try_lock_def Let_def)

lemma wf_item_lock [simp]: "wf_item (it\<lparr>li_is_taken := x\<rparr>) = wf_item it"
  by (simp add: wf_item_def)

lemma wf_bytes_left: "wf_item it \<Longrightarrow> bytes_left b it = Some (li_size it - li_position it)"
  by (simp add: wf_item_def bytes_left_def arith_ok)

lemma unat_bytes_left: "wf_item it \<Longrightarrow> unat (li_size it - li_position it) = free_bytes it"
  by (simp add: wf_item_def free_bytes_def unat_sub)

lemma unat_next_address:
  assumes "wf_item it"
  shows "unat (li_base_address it) + unat (li_position it) < 2 ^ 64"
    and "unat (next_address it) = unat (li_base_address it) + unat (li_position it)"
proof -
  show *: "unat (li_base_address it) + unat (li_position it) < 2 ^ 64"
    using assms by (auto simp: wf_item_def word_le_nat_alt)
  show "unat (next_address it) = unat (li_base_address it) + unat (li_position it)"
    unfolding next_address_def by (subst unat_add_small) (use * in simp_all)
qed

lemma wf_next_address:
  "wf_item it \<Longrightarrow> wadd b (li_base_address it) (ucast (li_position it)) = Some (next_address it)"
  using unat_next_address(1) by (simp add: next_address_def arith_ok)

subsection \<open>\<open>can_use\<close>\<close>

text \<open>For a well-formed item the test returns and decides exactly the documented condition.\<close>

lemma can_use_wf:
  assumes wf: "wf_item it"
  shows "can_use b it sz mn mx = Some (is_allocated it \<and> unat sz \<le> free_bytes it \<and>
    mn \<le> next_address it \<and> unat (li_base_address it) + unat (li_size it) \<le> unat mx)"
proof -
  have lt: "li_size it - li_position it < sz \<longleftrightarrow> \<not> unat sz \<le> free_bytes it"
    using unat_bytes_left [OF wf] by (auto simp: word_less_nat_alt)
  have fin: "add_with_overflow_cap (li_base_address it) (ucast (li_size it)) \<le> mx \<longleftrightarrow>
      unat (li_base_address it) + unat (li_size it) \<le> unat mx"
    using wf by (simp add: word_le_nat_alt unat_add_with_overflow_cap wf_item_def min_def)
  show ?thesis
    by (simp add: can_use_def wf_bytes_left [OF wf] wf_next_address [OF wf] lt fin)
qed

lemma can_use_fits:
  assumes "wf_item it" and "can_use b it sz mn mx = Some True"
  shows "unat sz \<le> free_bytes it" "mn \<le> next_address it"
    "unat (next_address it) + unat sz \<le> unat mx"
proof -
  from assms show "unat sz \<le> free_bytes it" "mn \<le> next_address it" by (simp_all add: can_use_wf)
  from assms show "unat (next_address it) + unat sz \<le> unat mx"
    using unat_next_address(2) [OF assms(1)]
    by (auto simp: can_use_wf free_bytes_def wf_item_def word_le_nat_alt)
qed

section \<open>The contract of the append operations\<close>

text \<open>
  What one append leaves in the item: only the position moves, by the length of the data.
\<close>

definition advance :: "nat \<Rightarrow> locator_item \<Rightarrow> locator_item" where
  "advance n it = it\<lparr>li_position := li_position it + of_nat n\<rparr>"

lemma advance_sel [simp]:
  "li_base_address (advance n it) = li_base_address it" "li_size (advance n it) = li_size it"
  "li_is_taken (advance n it) = li_is_taken it"
  by (simp_all add: advance_def)

lemma ucast_len: "(ucast (of_nat n :: usize) :: u32) = of_nat n"
  by (rule word_unat_eq_iff [THEN iffD2])
    (simp add: unat_usize_to_u32 unat_of_nat mod_mod_cancel)

lemma advance_facts:
  assumes wf: "wf_item it" and room: "n \<le> free_bytes it"
  shows "unat (li_position it) + n < 2 ^ 32"
    and "unat (li_position (advance n it)) = unat (li_position it) + n"
    and "wf_item (advance n it)"
    and "free_bytes (advance n it) = free_bytes it - n"
    and "unat (next_address (advance n it)) = unat (next_address it) + n"
proof -
  from wf have pos: "unat (li_position it) \<le> unat (li_size it)"
    by (simp add: wf_item_def word_le_nat_alt)
  then have le: "unat (li_position it) + n \<le> unat (li_size it)" using room by (simp add: free_bytes_def)
  then show lt: "unat (li_position it) + n < 2 ^ 32" using unat_u32_lt [of "li_size it"] by simp
  then show p: "unat (li_position (advance n it)) = unat (li_position it) + n"
    unfolding advance_def by (simp, subst unat_add_small) (simp_all add: unat_of_nat_u32)
  show wf': "wf_item (advance n it)" using wf le p by (simp add: wf_item_def word_le_nat_alt)
  show "free_bytes (advance n it) = free_bytes it - n" using p by (simp add: free_bytes_def)
  show "unat (next_address (advance n it)) = unat (next_address it) + n"
    using unat_next_address(2) [OF wf] unat_next_address(2) [OF wf'] p by simp
qed

lemma advance_wadd:
  assumes "wf_item it" and "n \<le> free_bytes it"
  shows "wadd b (li_position it) (ucast (of_nat n :: usize)) = Some (li_position (advance n it))"
  using advance_facts(1) [OF assms]
  by (simp add: ucast_len advance_def wadd_ok unat_of_nat_u32)

text \<open>The bytes an append may change.\<close>

lemma room_in_memory:
  assumes "wf_item it" and "n \<le> free_bytes it"
  shows "unat (next_address it) + n < 2 ^ 64"
  using unat_next_address(2) [OF assms(1)] assms
  by (auto simp: wf_item_def free_bytes_def word_le_nat_alt)

text \<open>A client that appends one piece of data after another.\<close>

fun append_all ::
  "(u8 list \<Rightarrow> locator_item \<Rightarrow> 'o machine \<Rightarrow> (usize \<times> locator_item \<times> 'o machine) option) \<Rightarrow>
   u8 list list \<Rightarrow> locator_item \<Rightarrow> 'o machine \<Rightarrow> (usize list \<times> locator_item \<times> 'o machine) option" where
  "append_all app [] it m = Some ([], it, m)"
| "append_all app (d # ds) it m = do {
     (a, it1, m1) \<leftarrow> app d it m;
     (as, it2, m2) \<leftarrow> append_all app ds it1 m1;
     Some (a # as, it2, m2)
   }"

abbreviation total_length :: "u8 list list \<Rightarrow> nat" where
  "total_length ds \<equiv> sum_list (map length ds)"

text \<open>Memory outside the \<open>n\<close> bytes from \<open>a\<close> is the same.\<close>

definition same_outside :: "usize \<Rightarrow> nat \<Rightarrow> memory \<Rightarrow> memory \<Rightarrow> bool" where
  "same_outside a n m m' \<longleftrightarrow> (\<forall>x. unat x < unat a \<or> unat a + n \<le> unat x \<longrightarrow> m' x = m x)"

lemma same_outside_write:
  "unat a + length d \<le> 2 ^ 64 \<Longrightarrow> same_outside a (length d) m (write_bytes a d m)"
  by (simp add: same_outside_def write_bytes_outside)

lemma same_outside_seq:
  assumes "same_outside a n m m1" and "same_outside a' n' m1 m2" and "unat a' = unat a + n"
  shows "same_outside a (n + n') m m2"
  using assms by (auto simp: same_outside_def)

lemma same_outside_read:
  assumes "same_outside a' n' m1 m2" and "unat a + n \<le> unat a'"
  shows "read_bytes a n m2 = read_bytes a n m1"
proof -
  have "m2 (a + of_nat i) = m1 (a + of_nat i)" if i: "i < n" for i
  proof -
    have lt: "unat a + i < 18446744073709551616" using i assms(2) unat_usize_lt [of a'] by linarith
    then have "unat (a + of_nat i) = unat a + i"
      by (subst unat_add_small) (simp_all add: unat_of_nat_usize)
    with i assms show ?thesis by (simp add: same_outside_def)
  qed
  then show ?thesis by (simp add: read_bytes_def)
qed

locale append_contract =
  fixes append :: "u8 list \<Rightarrow> locator_item \<Rightarrow> 'o machine \<Rightarrow> (usize \<times> locator_item \<times> 'o machine) option"
  assumes append_writes: "wf_item it \<Longrightarrow> length d \<le> free_bytes it \<Longrightarrow>
    \<exists>s. append d it m = Some (next_address it, advance (length d) it,
      m\<lparr>mem := write_bytes (next_address it) d (mem m), os := s\<rparr>)"
begin

text \<open>
  Data that was appended is never overwritten: after any sequence of appends that fits the
  buffer, every piece is found at the address its append returned, the room shrank by the total
  and nothing outside the newly used part of the buffer changed.
\<close>

lemma append_all_static:
  assumes "wf_item it" and "total_length ds \<le> free_bytes it"
  shows "\<exists>as m'. append_all append ds it m = Some (as, advance (total_length ds) it, m') \<and>
    list_all2 (\<lambda>a d. read_bytes a (length d) (mem m') = d) as ds \<and>
    same_outside (next_address it) (total_length ds) (mem m) (mem m')"
  using assms
proof (induction ds arbitrary: it m)
  case Nil
  then show ?case by (simp add: same_outside_def advance_def)
next
  case (Cons d ds)
  let ?it1 = "advance (length d) it" and ?a = "next_address it"
  have room: "length d \<le> free_bytes it" using Cons.prems(2) by simp
  note adv = advance_facts [OF Cons.prems(1) room]
  obtain s where app: "append d it m = Some (?a, ?it1, m\<lparr>mem := write_bytes ?a d (mem m), os := s\<rparr>)"
    using append_writes [OF Cons.prems(1) room] by blast
  have rest: "total_length ds \<le> free_bytes ?it1" using Cons.prems(2) adv(4) by simp
  obtain as m' where IH: "append_all append ds ?it1 (m\<lparr>mem := write_bytes ?a d (mem m), os := s\<rparr>)
      = Some (as, advance (total_length ds) ?it1, m')"
    "list_all2 (\<lambda>a d. read_bytes a (length d) (mem m') = d) as ds"
    "same_outside (next_address ?it1) (total_length ds) (write_bytes ?a d (mem m)) (mem m')"
    using Cons.IH [OF adv(3) rest, of "m\<lparr>mem := write_bytes ?a d (mem m), os := s\<rparr>"] by auto
  have in_mem: "unat ?a + length d < 2 ^ 64" by (rule room_in_memory [OF Cons.prems(1) room])
  have "read_bytes ?a (length d) (mem m') = read_bytes ?a (length d) (write_bytes ?a d (mem m))"
    by (rule same_outside_read [OF IH(3)]) (simp add: adv(5))
  also have "\<dots> = d" using in_mem by (intro read_write_same) simp
  finally have "read_bytes ?a (length d) (mem m') = d" .
  moreover have "same_outside ?a (length d + total_length ds) (mem m) (mem m')"
    using in_mem by (intro same_outside_seq [OF same_outside_write IH(3)]) (simp_all add: adv(5))
  moreover have "advance (total_length ds) ?it1 = advance (length d + total_length ds) it"
    by (simp add: advance_def add.assoc)
  ultimately show ?case using app IH(1,2) by simp
qed

end

lemma append_bytes_writes:
  assumes "wf_item it" and "length d \<le> free_bytes it"
  shows "\<exists>s. append_bytes b t api d it m = Some (next_address it, advance (length d) it,
    m\<lparr>mem := write_bytes (next_address it) d (mem m), os := s\<rparr>)"
  using wf_next_address [OF assms(1)] advance_wadd [OF assms]
  by (simp add: append_bytes_def Let_def advance_def) (metis machine.surjective machine.update_convs)

interpretation append_bytes: append_contract "append_bytes b t api"
  by unfold_locales (rule append_bytes_writes)

lemma append_copy_writes:
  assumes "wf_item it" and "length d \<le> free_bytes it"
  shows "\<exists>s. append_copy b t api d it m = Some (next_address it, advance (length d) it,
    m\<lparr>mem := write_bytes (next_address it) d (mem m), os := s\<rparr>)"
  using append_bytes_writes [OF assms, of b t api m]
  by (simp add: append_bytes_def append_copy_def)

interpretation append_copy: append_contract "append_copy b t api"
  by unfold_locales (rule append_copy_writes)

text \<open>The cache flush covers exactly the bytes written, so it cannot overflow either.\<close>

lemma append_end:
  assumes "wf_item it" and "n \<le> free_bytes it"
  shows "wadd b (next_address it) (of_nat n) = Some (next_address it + of_nat n)"
    and "next_address it \<le> next_address it + of_nat n"
proof -
  note lt = room_in_memory [OF assms]
  then have n: "unat (of_nat n :: usize) = n" by (intro unat_of_nat_usize) simp
  show "wadd b (next_address it) (of_nat n) = Some (next_address it + of_nat n)"
    using lt n by (simp add: arith_ok)
  have "unat (next_address it + of_nat n) = unat (next_address it) + n"
    using lt n by (subst unat_add_small) simp_all
  then show "next_address it \<le> next_address it + of_nat n" by (simp add: word_le_nat_alt)
qed

lemma append_code_writes:
  assumes "wf_item it" and "length d \<le> free_bytes it"
  shows "\<exists>s. append_code b t api d it m = Some (next_address it, advance (length d) it,
    m\<lparr>mem := write_bytes (next_address it) d (mem m), os := s\<rparr>)"
proof -
  note fin = append_end [OF assms]
  define s1 where "s1 = restore_write_xor_execute t api (li_base_address it) (of_nat (length d))
    (disable_write_xor_execute t api (li_base_address it) (of_nat (length d)) (os m))"
  obtain s where "clear_instruction_cache b t api (next_address it)
      (next_address it + of_nat (length d)) s1 = Some s"
    using clear_instruction_cache_returns [OF fin(2), of b t api s1] by blast
  then have "append_code b t api d it m = Some (next_address it, advance (length d) it,
    m\<lparr>mem := write_bytes (next_address it) d (mem m), os := s\<rparr>)"
    using wf_next_address [OF assms(1)] advance_wadd [OF assms] fin(1)
    by (simp add: append_code_def Let_def advance_def s1_def)
  then show ?thesis by blast
qed

interpretation append_code: append_contract "append_code b t api"
  by unfold_locales (rule append_code_writes)

section \<open>Properties\<close>

text \<open>
  C8 Data that was appended is never overwritten: a sequence of \<open>append_code\<close> calls that fits the
  item returns, leaves every piece readable at the address its call returned, moves the position by
  the total length, and changes no byte outside the part of the buffer that was free.
\<close>

theorem append_code_static:
  assumes "wf_item it" and "total_length ds \<le> free_bytes it"
  shows "\<exists>as m'. append_all (append_code b t api) ds it m = Some (as, advance (total_length ds) it, m') \<and>
    list_all2 (\<lambda>a d. read_bytes a (length d) (mem m') = d) as ds \<and>
    same_outside (next_address it) (total_length ds) (mem m) (mem m')"
  using assms by (rule append_code.append_all_static)

theorem append_code_static_witness:
  "\<exists>as m'. append_all (append_code Debug \<lparr>tgt_os = Linux, tgt_arch = Aarch64\<rparr>
      \<lparr>mach_vm_protect_code = (\<lambda>_ _ _ s. s), cache_line_flush_with_ptr = (\<lambda>_ _ s. s),
       FlushInstructionCache = (\<lambda>_ _ s. s)\<rparr>)
      [[1, 2], [3]] (locator_item_new 0x10000 4096) \<lparr>mem = (\<lambda>_. 0), os = ()\<rparr>
    = Some (as, advance (total_length [[1, 2 :: u8], [3]]) (locator_item_new 0x10000 4096), m') \<and>
    list_all2 (\<lambda>a d. read_bytes a (length d) (mem m') = d) as [[1, 2], [3]] \<and>
    same_outside (next_address (locator_item_new 0x10000 4096)) (total_length [[1, 2 :: u8], [3]])
      (\<lambda>_. 0) (mem m')"
proof -
  have "wf_item (locator_item_new 0x10000 4096)"
    "total_length [[1, 2 :: u8], [3]] \<le> free_bytes (locator_item_new 0x10000 4096)"
    by (simp_all add: wf_item_def free_bytes_def)
  from append_code_static [OF this, of Debug _ _ "\<lparr>mem = (\<lambda>_. 0), os = ()\<rparr>"]
  show ?thesis by (simp only: machine.simps)
qed

text \<open>
  The blocking \<open>lock\<close> of an item returns exactly when other threads leave the lock free after
  some number of turns; when it returns the item is taken, and a \<open>try_lock\<close> that follows fails.
\<close>

lemma item_lock_returns_iff:
  "((\<exists>it'. item_lock yield it = Some it') \<longleftrightarrow>
      (\<exists>k. li_is_taken ((failed_turn item_try_lock yield ^^ k) it) = 0)) \<and>
   (\<forall>it'. item_lock yield it = Some it' \<longrightarrow> li_is_taken it' \<noteq> 0 \<and> \<not> fst (item_try_lock it'))"
  using item_lock.spin_ends_iff [of yield it] item_lock.spin_result_held item_lock.try_held
  unfolding item_lock_def by blast

text \<open>
  C36 \<open>SafeLocatorItem::append_copy\<close> takes its value by reference and passes the reference on: what
  it appends is the eight bytes of the value's address, whatever the size or content of the value.
\<close>

theorem safe_append_copy_writes_address:
  assumes "wf_item it" and "8 \<le> free_bytes it"
  shows "\<exists>s. safe_append_copy b t api data_ref it m = Some (next_address it, advance 8 it,
    m\<lparr>mem := write_bytes (next_address it) (ptr_repr data_ref) (mem m), os := s\<rparr>)"
proof -
  have "length (ptr_repr data_ref) = 8" by (simp add: ptr_repr_def)
  with append_copy_writes [OF assms(1), of "ptr_repr data_ref"] assms(2) show ?thesis
    by (simp add: safe_append_copy_def)
qed

theorem safe_append_copy_writes_address_witness:
  "\<exists>s. safe_append_copy Debug \<lparr>tgt_os = Linux, tgt_arch = X86_64\<rparr>
      \<lparr>mach_vm_protect_code = (\<lambda>_ _ _ s. s), cache_line_flush_with_ptr = (\<lambda>_ _ s. s),
       FlushInstructionCache = (\<lambda>_ _ s. s)\<rparr> 0x1234 (locator_item_new 0x10000 4096) \<lparr>mem = (\<lambda>_. 0), os = ()\<rparr>
    = Some (0x10000, advance 8 (locator_item_new 0x10000 4096),
        \<lparr>mem = write_bytes 0x10000 (ptr_repr 0x1234) (\<lambda>_. 0), os = s\<rparr>)"
  using safe_append_copy_writes_address [of "locator_item_new 0x10000 4096" Debug
      "\<lparr>tgt_os = Linux, tgt_arch = X86_64\<rparr>"
      "\<lparr>mach_vm_protect_code = (\<lambda>_ _ _ s. s), cache_line_flush_with_ptr = (\<lambda>_ _ s. s),
        FlushInstructionCache = (\<lambda>_ _ s. s)\<rparr>" "0x1234" "\<lparr>mem = (\<lambda>_. 0), os = ()\<rparr>"]
  by (simp add: wf_item_def free_bytes_def next_address_def)

end
