(* ===== verification/Alloc_Contract.thy ===== *)
theory Alloc_Contract
  imports Settings Candidates Locator_Item
begin

text \<open>
  What every platform's allocator promises to \<open>allocate\<close> and, through it, to the rest of the
  library: an item it returns lies in the requested range, is aligned to the granularity, has the
  requested size and is fresh; an error carries the settings it failed for.
\<close>

type_synonym alloc_result = "buffer_allocation_error + locator_item"

text \<open>The placement of a new item for sanitized settings \<open>s\<close>.\<close>

definition placed :: "usize \<Rightarrow> buffer_allocator_settings \<Rightarrow> locator_item \<Rightarrow> bool" where
  "placed gran s it \<longleftrightarrow>
     li_base_address it \<noteq> 0 \<and> unat gran dvd unat (li_base_address it) \<and>
     bas_min_address s \<le> li_base_address it \<and>
     unat (li_base_address it) + unat (bas_size s) \<le> unat (bas_max_address s) \<and>
     li_size it = bas_size s \<and> li_position it = 0 \<and> li_is_taken it = 0"

text \<open>The error of a failed allocation: it carries the settings, and a text that a C string can hold.\<close>

definition error_for :: "buffer_allocator_settings \<Rightarrow> buffer_allocation_error \<Rightarrow> bool" where
  "error_for s e \<longleftrightarrow> bae_settings e = s \<and> CHR 0x00 \<notin> set (bae_text e)"

lemma error_for_new [simp]: "error_for s (allocation_error_new s txt) \<longleftrightarrow> CHR 0x00 \<notin> set txt"
  by (simp add: error_for_def allocation_error_new_def)

text \<open>
  \<open>honest\<close> is what the allocator relies on from the operating system; \<open>True\<close> where the code checks
  the system's answers itself.
\<close>

locale allocator_contract =
  fixes alloc :: "buffer_allocator_settings \<Rightarrow> 'o \<Rightarrow> (alloc_result \<times> 'o) option"
    and gran :: usize
    and honest :: bool
  assumes alloc_placed: "honest \<Longrightarrow> alloc s st = Some (Inr it, st') \<Longrightarrow> gran \<noteq> 0 \<Longrightarrow>
      below_top (bas_max_address s) \<Longrightarrow> placed gran s it"
    and alloc_error: "alloc s st = Some (Inl e, st') \<Longrightarrow> error_for s e"
begin

text \<open>A fresh item is well formed, empty and usable for the request it was made for.\<close>

lemma fresh_item:
  assumes "honest" and "alloc s st = Some (Inr it, st')" and "gran \<noteq> 0"
    and "below_top (bas_max_address s)"
  shows "wf_item it" and "free_bytes it = unat (bas_size s)"
    and "can_use b it (bas_size s) (bas_min_address s) (bas_max_address s) = Some True"
proof -
  from alloc_placed [OF assms] have p: "placed gran s it" .
  then show wf: "wf_item it" using assms(4) by (simp add: placed_def wf_item_def below_top_def)
  from p show free: "free_bytes it = unat (bas_size s)" by (simp add: placed_def free_bytes_def)
  from p free show "can_use b it (bas_size s) (bas_min_address s) (bas_max_address s) = Some True"
    by (simp add: can_use_wf [OF wf] placed_def is_allocated_def next_address_def)
qed

end

lemma placedI:
  assumes "buffer_fits (bas_min_address s) (bas_max_address s) ps pe (ucast (bas_size s)) gran a"
    and "a \<noteq> 0"
  shows "placed gran s (locator_item_new a (bas_size s))"
  using assms by (simp add: buffer_fits_def placed_def)

end
