(* ===== verification/Decimal_Text.thy ===== *)
theory Decimal_Text
  imports Prelude
begin

text \<open>
  Numbers and strings as Rust's standard library prints and parses them: \<open>Display\<close> of the integer
  types and of \<open>bool\<close>, \<open>str::parse::<i32>\<close>, and \<open>CString::new\<close>.
\<close>

section \<open>Printing\<close>

definition digit_char :: "nat \<Rightarrow> char" where
  "digit_char d = char_of (48 + d)"

fun show_nat :: "nat \<Rightarrow> string" where
  "show_nat n = (if n < 10 then [digit_char n] else show_nat (n div 10) @ [digit_char (n mod 10)])"

declare show_nat.simps [simp del]

definition show_word :: "'a::len word \<Rightarrow> string" where
  "show_word x = show_nat (unat x)"

definition show_i32 :: "i32 \<Rightarrow> string" where
  "show_i32 x = (if sint x < 0 then ''-'' @ show_nat (nat (- sint x)) else show_nat (nat (sint x)))"

definition show_bool :: "bool \<Rightarrow> string" where
  "show_bool v = (if v then ''true'' else ''false'')"

section \<open>Parsing\<close>

text \<open>\<open>str::parse::<i32>\<close>: an optional sign and decimal digits, an error on overflow.\<close>

fun decimal :: "nat \<Rightarrow> string \<Rightarrow> nat option" where
  "decimal acc [] = Some acc"
| "decimal acc (c # cs) =
     (if 48 \<le> (of_char c :: nat) \<and> (of_char c :: nat) \<le> 57 then decimal (10 * acc + (of_char c - 48)) cs
      else None)"

definition digits :: "string \<Rightarrow> nat option" where
  "digits s = (if s = [] then None else decimal 0 s)"

definition parse_i32 :: "string \<Rightarrow> i32 option" where
  "parse_i32 s = (case s of
       [] \<Rightarrow> None
     | c # cs \<Rightarrow>
         if c = CHR ''-''
         then do { n \<leftarrow> digits cs; if n \<le> 2 ^ 31 then Some (- of_nat n) else None }
         else do { n \<leftarrow> digits (if c = CHR ''+'' then cs else s);
                   if n < 2 ^ 31 then Some (of_nat n) else None })"

section \<open>C strings\<close>

text \<open>\<open>CString::new\<close> is an error, and the \<open>expect\<close> or \<open>unwrap\<close> panics, for a string with a NUL.\<close>

definition c_string :: "string \<Rightarrow> string option" where
  "c_string s = (if CHR 0x00 \<in> set s then None else Some s)"

lemma c_string_eq [simp]: "c_string s = Some s' \<longleftrightarrow> s' = s \<and> CHR 0x00 \<notin> set s"
  by (auto simp: c_string_def)

section \<open>Facts\<close>

lemma of_digit_char [simp]: "d < 10 \<Longrightarrow> (of_char (digit_char d) :: nat) = 48 + d"
  by (simp add: digit_char_def)

lemma digit_char_nonzero: "d < 10 \<Longrightarrow> digit_char d \<noteq> CHR 0x00"
proof
  assume d: "d < 10" and "digit_char d = CHR 0x00"
  then have "(of_char (digit_char d) :: nat) = of_char CHR 0x00" by simp
  with of_digit_char [OF d] show False by simp
qed

lemma show_nat_digits: "c \<in> set (show_nat n) \<Longrightarrow> \<exists>d < 10. c = digit_char d"
proof (induction n rule: show_nat.induct)
  case (1 n)
  show ?case
  proof (cases "n < 10")
    case True
    with 1 show ?thesis by (subst (asm) (2) show_nat.simps) auto
  next
    case False
    with 1(2) have "c \<in> set (show_nat (n div 10)) \<or> c = digit_char (n mod 10)"
      by (subst (asm) show_nat.simps) auto
    moreover have "n mod 10 < 10" by simp
    ultimately show ?thesis using 1(1) False by blast
  qed
qed

lemma show_nat_nonempty: "show_nat n \<noteq> []"
  by (subst show_nat.simps) simp

lemma decimal_append: "decimal acc (xs @ ys) = (case decimal acc xs of None \<Rightarrow> None | Some a \<Rightarrow> decimal a ys)"
  by (induction xs arbitrary: acc) auto

lemma decimal_show_nat: "decimal 0 (show_nat n) = Some n"
proof (induction n rule: show_nat.induct)
  case (1 n)
  show ?case
  proof (cases "n < 10")
    case True
    then show ?thesis by (subst show_nat.simps) simp
  next
    case False
    with 1 have "decimal 0 (show_nat (n div 10)) = Some (n div 10)" by simp
    with False show ?thesis by (subst show_nat.simps) (simp add: decimal_append)
  qed
qed

lemma digits_show_nat: "digits (show_nat n) = Some n"
  by (simp add: digits_def show_nat_nonempty decimal_show_nat)

text \<open>A number that was printed is parsed back, if it fits.\<close>

lemma parse_show_nat: "parse_i32 (show_nat n) = (if n < 2 ^ 31 then Some (of_nat n) else None)"
proof -
  obtain c cs where c: "show_nat n = c # cs" using show_nat_nonempty by (cases "show_nat n") auto
  then obtain d where d: "d < 10" "c = digit_char d" using show_nat_digits [of c n] by auto
  have "(of_char c :: nat) = 48 + d" using d by simp
  moreover have "(of_char CHR ''-'' :: nat) = 45" "(of_char CHR ''+'' :: nat) = 43" by simp_all
  ultimately have "c \<noteq> CHR ''-''" "c \<noteq> CHR ''+''" by (auto simp del: of_char_Char)
  with c digits_show_nat [of n] show ?thesis by (simp add: parse_i32_def)
qed

lemma show_nat_plain: "c \<in> set (show_nat n) \<Longrightarrow> 48 \<le> (of_char c :: nat)"
  using show_nat_digits [of c n] by auto

text \<open>No printed number contains a NUL.\<close>

named_theorems no_nul \<open>strings without a NUL\<close>

lemma show_nat_no_nul [no_nul]: "CHR 0x00 \<notin> set (show_nat n)"
proof
  assume "CHR 0x00 \<in> set (show_nat n)"
  then obtain d where "d < 10" "CHR 0x00 = digit_char d" using show_nat_digits by blast
  then show False using digit_char_nonzero by metis
qed

lemma show_no_nul [no_nul]:
  "CHR 0x00 \<notin> set (show_word x)" "CHR 0x00 \<notin> set (show_i32 i)" "CHR 0x00 \<notin> set (show_bool v)"
  by (simp_all add: show_word_def show_i32_def show_bool_def show_nat_no_nul)

end
