(* ===== verification/Error_Text.thy ===== *)
theory Error_Text
  imports Alloc_Contract Decimal_Text
begin

text \<open>
  The texts of the errors: \<open>to_string\<close> and \<open>Display\<close> of \<open>BufferAllocationError\<close> and
  \<open>BufferSearchError\<close> (\<open>src-rust/src/structs/errors/\<close>), with and without the crate feature
  \<open>no_format\<close>, and the derived \<open>Debug\<close> of the settings that they print.
\<close>

section \<open>Derived \<open>Debug\<close>\<close>

text \<open>The form \<open>Name { field: value, field: value }\<close> of \<open>{:?}\<close> for a struct with named fields.\<close>

fun debug_fields :: "(string \<times> string) list \<Rightarrow> string" where
  "debug_fields [] = ''''"
| "debug_fields [(f, v)] = f @ '': '' @ v"
| "debug_fields ((f, v) # fs) = f @ '': '' @ v @ '', '' @ debug_fields fs"

definition debug_struct :: "string \<Rightarrow> (string \<times> string) list \<Rightarrow> string" where
  "debug_struct name fs = name @ '' { '' @ debug_fields fs @ '' }''"

definition debug_allocator_settings :: "buffer_allocator_settings \<Rightarrow> string" where
  "debug_allocator_settings s = debug_struct ''BufferAllocatorSettings''
     [(''min_address'', show_word (bas_min_address s)),
      (''max_address'', show_word (bas_max_address s)),
      (''size'', show_word (bas_size s)),
      (''target_process_id'', show_word (bas_target_process_id s)),
      (''retry_count'', show_i32 (bas_retry_count s)),
      (''brute_force'', show_bool (bas_brute_force s))]"

definition debug_search_settings :: "buffer_search_settings \<Rightarrow> string" where
  "debug_search_settings s = debug_struct ''BufferSearchSettings''
     [(''min_address'', show_word (bss_min_address s)),
      (''max_address'', show_word (bss_max_address s)),
      (''size'', show_word (bss_size s))]"

section \<open>The texts\<close>

text \<open>
  The feature \<open>no_format\<close> and the function \<open>concat_2\<close> of the crate \<open>nanokit\<close>, which is used under it.
\<close>

record text_config =
  no_format :: bool
  concat_2 :: "string \<Rightarrow> string \<Rightarrow> string"

text \<open>What the crate documents: the concatenation of its arguments.\<close>

definition concatenates :: "text_config \<Rightarrow> bool" where
  "concatenates c \<longleftrightarrow> (\<forall>a b. concat_2 c a b = a @ b)"

definition allocation_error_to_string :: "text_config \<Rightarrow> buffer_allocation_error \<Rightarrow> string" where
  "allocation_error_to_string c e =
     (if no_format c then concat_2 c ''Buffer Allocation Error: '' (bae_text e)
      else ''Buffer Allocation Error: '' @ bae_text e @ ''. Settings: ''
        @ debug_allocator_settings (bae_settings e))"

definition search_error_to_string :: "text_config \<Rightarrow> buffer_search_error \<Rightarrow> string" where
  "search_error_to_string c e =
     (if no_format c then concat_2 c ''Buffer Search Error: '' (bse_text e)
      else ''Buffer Search Error: '' @ bse_text e @ ''. Settings: ''
        @ debug_search_settings (bse_settings e))"

text \<open>
  \<open>Display::fmt\<close> writes the pieces one after another and stops at the first that the formatter
  refuses (\<open>None\<close>).
\<close>

fun write_strs :: "('f \<Rightarrow> string \<Rightarrow> 'f option) \<Rightarrow> string list \<Rightarrow> 'f \<Rightarrow> 'f option" where
  "write_strs write_str [] f = Some f"
| "write_strs write_str (p # ps) f = do { f' \<leftarrow> write_str f p; write_strs write_str ps f' }"

definition allocation_error_fmt ::
  "text_config \<Rightarrow> ('f \<Rightarrow> string \<Rightarrow> 'f option) \<Rightarrow> buffer_allocation_error \<Rightarrow> 'f \<Rightarrow> 'f option" where
  "allocation_error_fmt c write_str e =
     (if no_format c then write_strs write_str [''Buffer Allocation Error: '', bae_text e]
      else write_strs write_str [''Buffer Allocation Error: '', bae_text e, ''. Settings: '',
        debug_allocator_settings (bae_settings e)])"

definition search_error_fmt ::
  "text_config \<Rightarrow> ('f \<Rightarrow> string \<Rightarrow> 'f option) \<Rightarrow> buffer_search_error \<Rightarrow> 'f \<Rightarrow> 'f option" where
  "search_error_fmt c write_str e =
     (if no_format c then write_strs write_str [''Buffer Search Error: '', bse_text e]
      else write_strs write_str [''Buffer Search Error: '', bse_text e, ''. Settings: '',
        debug_search_settings (bse_settings e)])"

section \<open>Facts\<close>

lemma debug_no_nul [no_nul]:
  "CHR 0x00 \<notin> set (debug_allocator_settings s)" "CHR 0x00 \<notin> set (debug_search_settings s')"
  by (simp_all add: debug_allocator_settings_def debug_search_settings_def debug_struct_def no_nul)

text \<open>The text of an error can be a C string whenever its message can.\<close>

lemma allocation_error_text_no_nul:
  "concatenates c \<Longrightarrow> CHR 0x00 \<notin> set (bae_text e) \<Longrightarrow> CHR 0x00 \<notin> set (allocation_error_to_string c e)"
  by (simp add: allocation_error_to_string_def concatenates_def no_nul)

lemma search_error_text_no_nul:
  "concatenates c \<Longrightarrow> CHR 0x00 \<notin> set (bse_text e) \<Longrightarrow> CHR 0x00 \<notin> set (search_error_to_string c e)"
  by (simp add: search_error_to_string_def concatenates_def no_nul)

section \<open>Properties\<close>

text \<open>
  The two ways to print an error agree: under either setting of \<open>no_format\<close>, \<open>Display\<close> written into
  a string appends exactly what \<open>to_string\<close> returns, for both error types.
\<close>

lemma display_agrees_to_string:
  assumes "concatenates c"
  shows "allocation_error_fmt c (\<lambda>out p. Some (out @ p)) ae out = Some (out @ allocation_error_to_string c ae) \<and>
   search_error_fmt c (\<lambda>out p. Some (out @ p)) se out = Some (out @ search_error_to_string c se)"
  using assms by (simp add: allocation_error_fmt_def search_error_fmt_def allocation_error_to_string_def
      search_error_to_string_def concatenates_def)

end
