(* ===== verification/Memory_Map.thy ===== *)
theory Memory_Map
  imports Platform Candidates
begin

text \<open>
  The list of mapped regions and the free regions between them
  (\<open>src-rust/src/utilities/map_parser_utilities.rs\<close>), and the parser of \<open>/proc/<pid>/maps\<close>
  (\<open>src-rust/src/utilities/linux_map_parser.rs\<close>).  Text is a list of bytes (\<open>string\<close>).
\<close>

record memory_map_entry =
  start_address :: usize
  end_address :: usize

definition memory_map_entry_new :: "usize \<Rightarrow> usize \<Rightarrow> memory_map_entry" where
  "memory_map_entry_new s e = \<lparr>start_address = s, end_address = e\<rparr>"

lemma entry_new_sel [simp]:
  "start_address (memory_map_entry_new s e) = s" "end_address (memory_map_entry_new s e) = e"
  by (simp_all add: memory_map_entry_new_def)

section \<open>Free regions\<close>

text \<open>
  The loop over the regions: \<open>last_end_address\<close> and the vector \<open>free_regions\<close> are its state.  The
  subtraction of 1 is guarded by \<open>start > last_end_address \<ge> 0\<close>, so it cannot underflow.
\<close>

fun free_regions_loop ::
  "usize \<Rightarrow> memory_map_entry list \<Rightarrow> memory_map_entry list \<Rightarrow> usize \<times> memory_map_entry list" where
  "free_regions_loop last_end_address free_regions [] = (last_end_address, free_regions)"
| "free_regions_loop last_end_address free_regions (entry # regions) =
     (let free_regions' =
        (if start_address entry > last_end_address
         then free_regions @ [memory_map_entry_new last_end_address (start_address entry - 1)]
         else free_regions)
      in free_regions_loop (end_address entry) free_regions' regions)"

definition get_free_regions :: "cached \<Rightarrow> memory_map_entry list \<Rightarrow> memory_map_entry list" where
  "get_free_regions sys regions =
     (let (last_end_address, free_regions) = free_regions_loop 0 [] regions
      in if last_end_address < ci_max_address sys
         then free_regions @ [memory_map_entry_new last_end_address (ci_max_address sys)]
         else free_regions)"

section \<open>Parsing \<open>/proc/<pid>/maps\<close>\<close>

text \<open>\<open>str::split(c)\<close>: the pieces between the separators, empty ones included, at least one.\<close>

fun split_on :: "char \<Rightarrow> string \<Rightarrow> string list" where
  "split_on c [] = [[]]"
| "split_on c (x # xs) =
     (if x = c then [] # split_on c xs
      else (case split_on c xs of p # ps \<Rightarrow> (x # p) # ps | [] \<Rightarrow> [[x]]))"

definition ascii_whitespace :: "char \<Rightarrow> bool" where
  "ascii_whitespace c \<longleftrightarrow> of_char c \<in> {9 :: nat, 10, 12, 13, 32}"

text \<open>\<open>str::split_ascii_whitespace\<close>: the non-empty pieces between runs of ASCII whitespace.\<close>

function split_ascii_whitespace :: "string \<Rightarrow> string list" where
  "split_ascii_whitespace s =
     (let s' = dropWhile ascii_whitespace s in
      if s' = [] then []
      else takeWhile (\<lambda>c. \<not> ascii_whitespace c) s'
        # split_ascii_whitespace (dropWhile (\<lambda>c. \<not> ascii_whitespace c) s'))"
  by pat_completeness auto

text \<open>The rest after a piece is shorter than the text.\<close>

lemma split_ws_shorter:
  assumes "dropWhile ascii_whitespace s \<noteq> []"
  shows "length (dropWhile (\<lambda>c. \<not> ascii_whitespace c) (dropWhile ascii_whitespace s)) < length s"
proof -
  obtain c cs where s': "dropWhile ascii_whitespace s = c # cs"
    using assms by (cases "dropWhile ascii_whitespace s") auto
  then have "\<not> ascii_whitespace c" by (simp add: dropWhile_eq_Cons_conv)
  with s' have "length (dropWhile (\<lambda>c. \<not> ascii_whitespace c) (dropWhile ascii_whitespace s)) \<le> length cs"
    by (simp add: length_dropWhile_le)
  also have "\<dots> < length s"
    using length_dropWhile_le [of ascii_whitespace s] by (simp add: s')
  finally show ?thesis .
qed

termination split_ascii_whitespace
  by (relation "measure length") (auto simp: split_ws_shorter)

declare split_ascii_whitespace.simps [simp del]

definition hex_digit :: "char \<Rightarrow> nat option" where
  "hex_digit ch =
     (let c = of_char ch :: nat in
      if 48 \<le> c \<and> c \<le> 57 then Some (c - 48)
      else if 97 \<le> c \<and> c \<le> 102 then Some (c - 87)
      else if 65 \<le> c \<and> c \<le> 70 then Some (c - 55)
      else None)"

text \<open>
  \<open>usize::from_str_radix(src, 16)\<close>: an empty string and a lone sign are errors, one leading \<open>+\<close> is
  skipped, every other character must be a digit and the value must stay below \<open>2^64\<close>.
\<close>

fun from_hex_digits :: "nat \<Rightarrow> string \<Rightarrow> nat option" where
  "from_hex_digits acc [] = Some acc"
| "from_hex_digits acc (c # cs) =
     (case hex_digit c of
        None \<Rightarrow> None
      | Some d \<Rightarrow> if 16 * acc + d < 2 ^ 64 then from_hex_digits (16 * acc + d) cs else None)"

definition from_str_radix_16 :: "string \<Rightarrow> usize option" where
  "from_str_radix_16 src =
     (case src of
        [] \<Rightarrow> None
      | c # cs \<Rightarrow>
          if c = CHR ''+'' then (if cs = [] then None else map_option of_nat (from_hex_digits 0 cs))
          else map_option of_nat (from_hex_digits 0 src))"

definition parse_memory_map_entry :: "string \<Rightarrow> memory_map_entry option" where
  "parse_memory_map_entry line =
     (case split_ascii_whitespace line of
        [] \<Rightarrow> None
      | address_range # _ \<Rightarrow>
          (let addresses = split_on (CHR ''-'') address_range in
           if length addresses = 2
           then (case (from_str_radix_16 (addresses ! 0), from_str_radix_16 (addresses ! 1)) of
                   (Some s, Some e) \<Rightarrow> Some (memory_map_entry_new s e)
                 | _ \<Rightarrow> None)
           else None))"

fun parse_memory_map_from_lines :: "string list \<Rightarrow> memory_map_entry list" where
  "parse_memory_map_from_lines [] = []"
| "parse_memory_map_from_lines (line # lines) =
     (case parse_memory_map_entry line of
        Some entry \<Rightarrow> entry # parse_memory_map_from_lines lines
      | None \<Rightarrow> parse_memory_map_from_lines lines)"

section \<open>The free regions are the complement of the mapped ones\<close>

text \<open>
  The regions as the kernel lists them: in order, not overlapping, each \<open>[start, end)\<close>.
\<close>

fun regions_from :: "usize \<Rightarrow> memory_map_entry list \<Rightarrow> bool" where
  "regions_from l [] = True"
| "regions_from l (e # es) =
     (l \<le> start_address e \<and> start_address e \<le> end_address e \<and> regions_from (end_address e) es)"

definition mapped :: "memory_map_entry list \<Rightarrow> usize \<Rightarrow> bool" where
  "mapped regions a \<longleftrightarrow> (\<exists>r \<in> set regions. start_address r \<le> a \<and> a < end_address r)"

text \<open>A free region is a closed range: its last address belongs to it.\<close>

definition in_free :: "memory_map_entry list \<Rightarrow> usize \<Rightarrow> bool" where
  "in_free free a \<longleftrightarrow> (\<exists>f \<in> set free. start_address f \<le> a \<and> a \<le> end_address f)"

lemma in_free_simps [simp]:
  "in_free [] a = False"
  "in_free (f # fs) a \<longleftrightarrow> (start_address f \<le> a \<and> a \<le> end_address f) \<or> in_free fs a"
  "in_free (fs @ gs) a \<longleftrightarrow> in_free fs a \<or> in_free gs a"
  by (auto simp: in_free_def)

lemma mapped_simps [simp]:
  "mapped [] a = False"
  "mapped (r # rs) a \<longleftrightarrow> (start_address r \<le> a \<and> a < end_address r) \<or> mapped rs a"
  by (auto simp: mapped_def)

lemma le_minus_one_iff: "(x :: usize) < y \<Longrightarrow> a \<le> y - 1 \<longleftrightarrow> a < y"
proof -
  assume "x < y"
  then have "unat (y - 1) = unat y - 1" "0 < unat y"
    by (auto simp: unat_sub_if' word_less_nat_alt)
  then show ?thesis by (auto simp: word_le_nat_alt word_less_nat_alt)
qed

lemma free_regions_loop_last:
  "fst (free_regions_loop l fr rs) = (if rs = [] then l else end_address (last rs))"
  by (induction rs arbitrary: l fr) (simp_all add: Let_def)

lemma regions_from_last:
  assumes "regions_from l rs"
  shows "l \<le> fst (free_regions_loop l fr rs)"
    and "mapped rs a \<Longrightarrow> l \<le> a \<and> a < fst (free_regions_loop l fr rs)"
proof -
  have "l \<le> fst (free_regions_loop l fr rs) \<and>
    (mapped rs a \<longrightarrow> l \<le> a \<and> a < fst (free_regions_loop l fr rs))"
    using assms
  proof (induction rs arbitrary: l)
    case (Cons r rs)
    then have r: "l \<le> start_address r" "start_address r \<le> end_address r"
      and IH: "end_address r \<le> fst (free_regions_loop (end_address r) fr rs)"
        "mapped rs a \<Longrightarrow> end_address r \<le> a \<and> a < fst (free_regions_loop (end_address r) fr rs)"
      by auto
    have l: "fst (free_regions_loop l fr (r # rs)) = fst (free_regions_loop (end_address r) fr rs)"
      by (simp add: free_regions_loop_last)
    show ?case unfolding l using r IH by (auto intro: order.trans less_le_trans)
  qed simp
  then show "l \<le> fst (free_regions_loop l fr rs)"
    "mapped rs a \<Longrightarrow> l \<le> a \<and> a < fst (free_regions_loop l fr rs)" by auto
qed

lemma free_regions_loop_spec:
  assumes "regions_from l rs"
  shows "in_free (snd (free_regions_loop l fr rs)) a \<longleftrightarrow>
    in_free fr a \<or> (l \<le> a \<and> a < fst (free_regions_loop l fr rs) \<and> \<not> mapped rs a)"
  using assms
proof (induction rs arbitrary: l fr)
  case (Cons r rs)
  let ?fr = "if start_address r > l then fr @ [memory_map_entry_new l (start_address r - 1)] else fr"
  let ?last = "fst (free_regions_loop (end_address r) ?fr rs)"
  from Cons.prems have r: "l \<le> start_address r" "start_address r \<le> end_address r"
    and rs: "regions_from (end_address r) rs" by auto
  have last: "end_address r \<le> ?last" by (rule regions_from_last(1) [OF rs])
  have after: "end_address r \<le> a" if "mapped rs a" using regions_from_last(2) [OF rs that] by blast
  have "in_free ?fr a \<longleftrightarrow> in_free fr a \<or> (l \<le> a \<and> a < start_address r)"
    using r(1) by (auto simp: le_minus_one_iff)
  with Cons.IH [OF rs, of ?fr] r last after show ?case by (auto simp: Let_def)
qed auto

lemma get_free_regions_complement:
  assumes "regions_from 0 rs" and "a < ci_max_address sys"
  shows "in_free (get_free_regions sys rs) a \<longleftrightarrow> \<not> mapped rs a"
proof -
  obtain l fr where loop: "free_regions_loop 0 [] rs = (l, fr)" by fastforce
  have spec: "in_free fr a \<longleftrightarrow> a < l \<and> \<not> mapped rs a"
    using free_regions_loop_spec [OF assms(1), of "[]" a] loop by simp
  have "a < l" if "mapped rs a" using regions_from_last(2) [OF assms(1) that, of "[]"] loop by simp
  with spec loop assms(2) show ?thesis
    by (auto simp: get_free_regions_def Let_def not_less)
qed

text \<open>The free regions come in order, and none is empty.\<close>

definition ordered_regions :: "memory_map_entry list \<Rightarrow> bool" where
  "ordered_regions fs \<longleftrightarrow>
     sorted_wrt (\<lambda>f g. end_address f \<le> start_address g) fs \<and>
     (\<forall>f \<in> set fs. start_address f \<le> end_address f)"

lemma ordered_regions_snoc:
  "ordered_regions (fs @ [f]) \<longleftrightarrow> ordered_regions fs \<and> start_address f \<le> end_address f \<and>
     (\<forall>e \<in> set fs. end_address e \<le> start_address f)"
  by (auto simp: ordered_regions_def sorted_wrt_append)

lemma free_regions_loop_ordered:
  assumes "regions_from l rs" and "ordered_regions fr" and "\<forall>f \<in> set fr. end_address f \<le> l"
  shows "ordered_regions (snd (free_regions_loop l fr rs)) \<and>
    (\<forall>f \<in> set (snd (free_regions_loop l fr rs)). end_address f \<le> fst (free_regions_loop l fr rs))"
  using assms
proof (induction rs arbitrary: l fr)
  case (Cons r rs)
  from Cons.prems(1) have r: "l \<le> start_address r" "start_address r \<le> end_address r" by auto
  have gap: "start_address r - 1 \<le> end_address r \<and> l \<le> start_address r - 1" if "l < start_address r"
    using that r le_minus_one_iff [OF that, of l] le_minus_one_iff [OF that, of "start_address r - 1"]
    by auto
  let ?fr = "if start_address r > l then fr @ [memory_map_entry_new l (start_address r - 1)] else fr"
  have "ordered_regions ?fr" "\<forall>f \<in> set ?fr. end_address f \<le> end_address r"
    using Cons.prems(2,3) r gap by (auto simp: ordered_regions_snoc intro: order.trans)
  with Cons.IH [of "end_address r" ?fr] Cons.prems(1) show ?case by (simp add: Let_def)
qed simp

lemma get_free_regions_ordered:
  assumes "regions_from 0 rs"
  shows "ordered_regions (get_free_regions sys rs)"
proof -
  obtain l fr where loop: "free_regions_loop 0 [] rs = (l, fr)" by fastforce
  have "ordered_regions fr \<and> (\<forall>f \<in> set fr. end_address f \<le> l)"
    using free_regions_loop_ordered [OF assms, of "[]"] loop by (simp add: ordered_regions_def)
  with loop show ?thesis by (auto simp: get_free_regions_def ordered_regions_snoc)
qed

section \<open>The parser reads back what the kernel prints\<close>

text \<open>
  A line of the maps file: two addresses in lower-case hexadecimal, padded with zeros, a dash
  between them, a space and the rest of the line.
\<close>

definition hex_char :: "nat \<Rightarrow> char" where
  "hex_char d = (if d < 10 then char_of (48 + d) else char_of (87 + d))"

fun print_hex :: "nat \<Rightarrow> string" where
  "print_hex n = (if n < 16 then [hex_char n] else print_hex (n div 16) @ [hex_char (n mod 16)])"

declare print_hex.simps [simp del]

definition print_address :: "nat \<Rightarrow> usize \<Rightarrow> string" where
  "print_address pad a = replicate pad (CHR ''0'') @ print_hex (unat a)"

record maps_line =
  ml_entry :: memory_map_entry
  ml_pads :: "nat \<times> nat"
  ml_rest :: string

definition print_line :: "maps_line \<Rightarrow> string" where
  "print_line l =
     print_address (fst (ml_pads l)) (start_address (ml_entry l)) @ CHR ''-'' #
     print_address (snd (ml_pads l)) (end_address (ml_entry l)) @ CHR '' '' # ml_rest l"

definition print_maps :: "maps_line list \<Rightarrow> string" where
  "print_maps ls = concat (map (\<lambda>l. print_line l @ [CHR 0x0A]) ls)"

lemma hex_digit_hex_char: "d < 16 \<Longrightarrow> hex_digit (hex_char d) = Some d"
  by (auto simp: hex_digit_def hex_char_def Let_def)

text \<open>The characters of an address: never a dash, a sign or whitespace.\<close>

definition plain_char :: "char \<Rightarrow> bool" where
  "plain_char c \<longleftrightarrow> c \<noteq> CHR ''-'' \<and> c \<noteq> CHR ''+'' \<and> \<not> ascii_whitespace c"

lemma plain_hex_char: "d < 16 \<Longrightarrow> plain_char (hex_char d)"
proof -
  assume d: "d < 16"
  then have "of_char (hex_char d) \<in> {48..57} \<union> {97..102 :: nat}"
    by (auto simp: hex_char_def)
  then show ?thesis by (auto simp: plain_char_def ascii_whitespace_def)
qed

lemma plain_print_hex: "c \<in> set (print_hex n) \<Longrightarrow> plain_char c"
  by (induction n rule: print_hex.induct)
    (subst (asm) (2) print_hex.simps, auto simp: plain_hex_char split: if_splits)

lemma plain_print_address: "c \<in> set (print_address pad a) \<Longrightarrow> plain_char c"
  by (auto simp: print_address_def plain_print_hex) (simp add: plain_char_def ascii_whitespace_def)

lemma print_address_nonempty: "print_address pad a \<noteq> []"
  by (simp add: print_address_def) (subst print_hex.simps, simp)

subsection \<open>Digits\<close>

lemma from_hex_digits_append:
  "from_hex_digits acc (xs @ ys) =
     (case from_hex_digits acc xs of None \<Rightarrow> None | Some n \<Rightarrow> from_hex_digits n ys)"
  by (induction acc xs rule: from_hex_digits.induct) (auto split: option.splits)

lemma from_hex_zeros: "from_hex_digits 0 (replicate pad (CHR ''0'') @ xs) = from_hex_digits 0 xs"
  by (induction pad) (simp_all add: hex_digit_def)

lemma from_hex_print_hex: "n < 2 ^ 64 \<Longrightarrow> from_hex_digits 0 (print_hex n) = Some n"
proof (induction n rule: print_hex.induct)
  case (1 n)
  show ?case
  proof (cases "n < 16")
    case True
    with 1 show ?thesis by (simp add: print_hex.simps [of n] hex_digit_hex_char)
  next
    case False
    have "16 * (n div 16) + n mod 16 = n" by simp
    with False 1 show ?thesis
      by (simp add: print_hex.simps [of n] from_hex_digits_append hex_digit_hex_char)
  qed
qed

lemma from_str_print_address: "from_str_radix_16 (print_address pad a) = Some a"
proof -
  obtain c cs where addr: "print_address pad a = c # cs"
    using print_address_nonempty by (cases "print_address pad a") auto
  then have "plain_char c" using plain_print_address [of c pad a] by simp
  moreover have "from_hex_digits 0 (print_address pad a) = Some (unat a)"
    using unat_usize_lt [of a] by (simp add: print_address_def from_hex_zeros from_hex_print_hex)
  ultimately show ?thesis by (simp add: from_str_radix_16_def addr plain_char_def)
qed

subsection \<open>Splitting\<close>

lemma split_on_nonempty: "split_on c xs \<noteq> []"
  by (induction xs) (auto split: list.splits)

lemma split_on_free: "c \<notin> set xs \<Longrightarrow> split_on c xs = [xs]"
  by (induction xs) auto

lemma split_on_append: "c \<notin> set xs \<Longrightarrow> split_on c (xs @ c # ys) = xs # split_on c ys"
  by (induction xs) auto

lemma split_ws_first:
  assumes "x \<noteq> []" and "\<And>c. c \<in> set x \<Longrightarrow> \<not> ascii_whitespace c" and "ascii_whitespace w"
  shows "\<exists>ps. split_ascii_whitespace (x @ w # rest) = x # ps"
proof -
  obtain c cs where x: "x = c # cs" using assms(1) by (cases x) auto
  have "takeWhile (\<lambda>c. \<not> ascii_whitespace c) (x @ w # rest) = x"
    using assms(2,3) by (simp add: takeWhile_append)
  moreover have "dropWhile ascii_whitespace (x @ w # rest) = x @ w # rest"
    using assms(2) by (simp add: x)
  ultimately show ?thesis using assms(1) by (subst split_ascii_whitespace.simps) simp
qed

lemma parse_print_line: "parse_memory_map_entry (print_line l) = Some (ml_entry l)"
proof -
  let ?s = "print_address (fst (ml_pads l)) (start_address (ml_entry l))"
  let ?e = "print_address (snd (ml_pads l)) (end_address (ml_entry l))"
  have ws: "\<not> ascii_whitespace c" if "c \<in> set (?s @ CHR ''-'' # ?e)" for c
    using that by (auto dest!: plain_print_address simp: plain_char_def) (simp add: ascii_whitespace_def)
  have sp: "ascii_whitespace (CHR '' '')" by (simp add: ascii_whitespace_def)
  obtain ps where "split_ascii_whitespace ((?s @ CHR ''-'' # ?e) @ CHR '' '' # ml_rest l)
      = (?s @ CHR ''-'' # ?e) # ps"
    using split_ws_first [OF _ ws sp, where x = "?s @ CHR ''-'' # ?e"] by blast
  moreover have "split_on (CHR ''-'') (?s @ CHR ''-'' # ?e) = [?s, ?e]"
    using plain_print_address
    by (subst split_on_append; (subst split_on_free)?) (auto simp: plain_char_def)
  ultimately show ?thesis
    by (simp add: parse_memory_map_entry_def print_line_def from_str_print_address)
qed

lemma parse_print_maps:
  assumes "\<And>l. l \<in> set ls \<Longrightarrow> CHR 0x0A \<notin> set (ml_rest l)"
  shows "parse_memory_map_from_lines (split_on (CHR 0x0A) (print_maps ls)) = map ml_entry ls"
  using assms
proof (induction ls)
  case Nil
  show ?case by (simp add: print_maps_def parse_memory_map_entry_def split_ascii_whitespace.simps)
next
  case (Cons l ls)
  let ?nl = "CHR 0x0A"
  have "\<not> plain_char ?nl" by (simp add: plain_char_def ascii_whitespace_def)
  then have "?nl \<notin> set (print_line l)"
    using Cons.prems [of l] by (auto simp: print_line_def dest: plain_print_address)
  then have "split_on ?nl (print_maps (l # ls)) = print_line l # split_on ?nl (print_maps ls)"
    by (simp add: print_maps_def split_on_append)
  with Cons show ?case by (simp add: parse_print_line)
qed

section \<open>Properties\<close>

text \<open>
  C31 \<open>get_free_regions\<close> gives the complement of the mapped regions: below the maximum address, an
  address lies in a free region exactly when no region maps it, and the free regions come in
  increasing order without overlap.
\<close>

theorem free_regions_exact:
  assumes "regions_from 0 rs"
  shows "ordered_regions (get_free_regions sys rs) \<and>
    (\<forall>a. a < ci_max_address sys \<longrightarrow> (in_free (get_free_regions sys rs) a \<longleftrightarrow> \<not> mapped rs a))"
  using get_free_regions_ordered [OF assms] get_free_regions_complement [OF assms] by blast

theorem free_regions_exact_witness:
  "in_free (get_free_regions \<lparr>ci_max_address = 0x7FFFFFFFFFFF, ci_allocation_granularity = 4096,
      ci_page_size = 4096, ci_this_process_id = 1\<rparr>
    [memory_map_entry_new 0x1000 0x3000, memory_map_entry_new 0x5000 0x6000]) 0x4000"
proof -
  have "regions_from 0 [memory_map_entry_new 0x1000 0x3000, memory_map_entry_new 0x5000 0x6000]" by simp
  from free_regions_exact [OF this, of "\<lparr>ci_max_address = 0x7FFFFFFFFFFF,
      ci_allocation_granularity = 4096, ci_page_size = 4096, ci_this_process_id = 1\<rparr>"]
  show ?thesis by simp
qed

text \<open>
  C32 Parsing inverts printing: from the text of a maps file, whatever follows the addresses on its
  lines and however they are padded, the parser recovers exactly the regions, in order.
\<close>

theorem parse_maps_roundtrip:
  assumes "\<forall>l \<in> set ls. CHR 0x0A \<notin> set (ml_rest l)"
  shows "parse_memory_map_from_lines (split_on (CHR 0x0A) (print_maps ls)) = map ml_entry ls"
  using assms by (intro parse_print_maps) blast

theorem parse_maps_roundtrip_witness:
  "parse_memory_map_from_lines (split_on (CHR 0x0A) (print_maps
     [\<lparr>ml_entry = memory_map_entry_new 0x7f1234000 0x7f1235000, ml_pads = (3, 0), ml_rest = ''r-xp 0 /lib''\<rparr>]))
   = [memory_map_entry_new 0x7f1234000 0x7f1235000]"
  by (subst parse_maps_roundtrip) simp_all

text \<open>
  A gap between two mappings that a buffer would fill exactly is not used: the end of a free
  region is the address before the next mapping, but it is taken as the end of the space, one byte
  short, so that no candidate is proposed for a buffer of the size of the gap.
\<close>

lemma exact_gap_rejected:
  assumes "start_address e > lst" and "unat sz = unat (start_address e) - unat lst"
    and "get_possible_buffer_addresses b mn mx lst
      (end_address (hd (snd (free_regions_loop lst [] [e])))) sz g = Some rs"
    and "g \<noteq> 0" and "below_top mx"
  shows "rs = []"
proof (rule ccontr)
  assume "rs \<noteq> []"
  then obtain a where "a \<in> set rs" by (cases rs) auto
  from get_possible_sound [OF assms(3) this assms(4)] assms(5)
  have "buffer_fits mn mx lst (end_address (hd (snd (free_regions_loop lst [] [e])))) sz g a" by blast
  with assms(1) have "lst \<le> a" "unat a + unat sz \<le> unat (start_address e - 1)"
    by (simp_all add: buffer_fits_def Let_def)
  moreover have "unat (start_address e - 1) < unat (start_address e)"
    using le_minus_one_iff [OF assms(1), of "start_address e - 1"] by (simp add: word_less_nat_alt)
  ultimately show False using assms(1,2) by (simp add: word_le_nat_alt word_less_nat_alt)
qed

end
