(* ===== verification/Alloc_Linux.thy ===== *)
theory Alloc_Linux
  imports Alloc_Contract Memory_Map
begin

text \<open>
  The Linux allocator \<open>src-rust/src/internal/buffer_allocator_linux.rs\<close>, with the part of
  \<open>src-rust/src/utilities/linux_map_parser.rs\<close> that reads the maps file.  The system calls of
  \<open>libc\<close> and the number formatter of the crate \<open>itoa\<close> are parameters, functions on the state \<open>'o\<close>
  of the operating system.
\<close>

datatype prot = PROT_READ | PROT_WRITE | PROT_EXEC

datatype map_flag = MAP_PRIVATE | MAP_ANONYMOUS | MAP_FIXED_NOREPLACE | MAP_SHARED

text \<open>
  \<open>mmap address length prot flags fd offset\<close> and \<open>munmap address length\<close>; \<open>open_rdonly path\<close> gives a
  descriptor; \<open>read_fd fd count\<close> gives the bytes read, or \<open>None\<close> for a negative result.
\<close>

record 'o linux_api =
  mmap :: "usize \<Rightarrow> usize \<Rightarrow> prot list \<Rightarrow> map_flag list \<Rightarrow> i32 \<Rightarrow> usize \<Rightarrow> 'o \<Rightarrow> usize \<times> 'o"
  munmap :: "usize \<Rightarrow> usize \<Rightarrow> 'o \<Rightarrow> i32 \<times> 'o"
  open_rdonly :: "string \<Rightarrow> 'o \<Rightarrow> i32 \<times> 'o"
  read_fd :: "i32 \<Rightarrow> usize \<Rightarrow> 'o \<Rightarrow> string option \<times> 'o"
  close_fd :: "i32 \<Rightarrow> 'o \<Rightarrow> 'o"
  itoa :: "i32 \<Rightarrow> string"

section \<open>Reading the maps file\<close>

definition BUFFER_SIZE :: nat where
  "BUFFER_SIZE = 131072"

text \<open>
  \<open>String::reserve\<close>: the capacity stays when there is room for \<open>additional\<close> more bytes, else it
  grows to twice itself or to what is needed, whichever is more.
\<close>

definition string_reserve :: "nat \<Rightarrow> nat \<Rightarrow> nat \<Rightarrow> nat" where
  "string_reserve capacity len additional =
     (if additional \<le> capacity - len then capacity else max (2 * capacity) (len + additional))"

text \<open>
  The loop of \<open>read_to_string\<close>.  The space offered to \<open>read\<close> is computed before the string is
  grown.  A negative result panics (after closing the file).
\<close>

partial_function (option) read_loop ::
  "'o linux_api \<Rightarrow> i32 \<Rightarrow> string \<Rightarrow> nat \<Rightarrow> 'o \<Rightarrow> (string \<times> 'o) option" where
  "read_loop api fd content capacity st =
     (let current_len = length content;
          remaining_capacity = capacity - current_len;
          capacity' = string_reserve capacity current_len BUFFER_SIZE;
          (bytes_read, st1) = read_fd api fd (of_nat remaining_capacity) st
      in case bytes_read of
           None \<Rightarrow> None
         | Some bytes \<Rightarrow>
             if bytes = [] then Some (content, st1)
             else read_loop api fd (content @ bytes) capacity' st1)"

declare read_loop.simps [code]

definition read_to_string :: "'o linux_api \<Rightarrow> string \<Rightarrow> 'o \<Rightarrow> (string \<times> 'o) option" where
  "read_to_string api path st =
     (let (fd, st1) = open_rdonly api path st in
      if fd <s 0 then None
      else do {
        (content, st2) \<leftarrow> read_loop api fd [] BUFFER_SIZE st1;
        Some (content, close_fd api fd st2)
      })"

definition parse_memory_map_from_process_id ::
  "'o linux_api \<Rightarrow> i32 \<Rightarrow> 'o \<Rightarrow> (memory_map_entry list \<times> 'o) option" where
  "parse_memory_map_from_process_id api process_id st =
     (let maps_path = ''/proc/'' @ itoa api process_id @ ''/maps'' in do {
        (all_lines, st1) \<leftarrow> read_to_string api maps_path st;
        Some (parse_memory_map_from_lines (split_on (CHR 0x0A) all_lines), st1)
      })"

definition get_free_regions_from_process_id ::
  "cached \<Rightarrow> 'o linux_api \<Rightarrow> i32 \<Rightarrow> 'o \<Rightarrow> (memory_map_entry list \<times> 'o) option" where
  "get_free_regions_from_process_id sys api process_id st = do {
     (regions, st1) \<leftarrow> parse_memory_map_from_process_id api process_id st;
     Some (get_free_regions sys regions, st1)
   }"

subsection \<open>What the reader returns\<close>

text \<open>
  A file that is read in pieces of at most \<open>c\<close> bytes: each \<open>read\<close> gives the next bytes of what is
  left of the text, as many as were asked for but at most \<open>c\<close>.
\<close>

definition serves :: "'o linux_api \<Rightarrow> i32 \<Rightarrow> nat \<Rightarrow> ('o \<Rightarrow> string) \<Rightarrow> bool" where
  "serves api fd c left \<longleftrightarrow>
     (\<forall>n st. fst (read_fd api fd n st) = Some (take (min (unat n) c) (left st)) \<and>
             left (snd (read_fd api fd n st)) = drop (min (unat n) c) (left st))"

lemma servesD:
  assumes "serves api fd c left"
  obtains st1 where "read_fd api fd n st = (Some (take (min (unat n) c) (left st)), st1)"
    and "left st1 = drop (min (unat n) c) (left st)"
proof (rule that [of "snd (read_fd api fd n st)"])
  have "fst (read_fd api fd n st) = Some (take (min (unat n) c) (left st))"
    using assms by (simp add: serves_def)
  then show "read_fd api fd n st = (Some (take (min (unat n) c) (left st)), snd (read_fd api fd n st))"
    by (metis prod.collapse)
  show "left (snd (read_fd api fd n st)) = drop (min (unat n) c) (left st)"
    using assms by (simp add: serves_def)
qed

lemma string_reserve_bounds:
  "len + additional \<le> string_reserve capacity len additional"
  if "len \<le> capacity" for len additional capacity
  using that by (auto simp: string_reserve_def)

lemma string_reserve_upper:
  "string_reserve capacity len additional \<le> max capacity (2 * (len + additional))"
  by (auto simp: string_reserve_def)

text \<open>Pieces smaller than the buffer: the loop ends with the whole text.\<close>

lemma read_loop_whole:
  assumes sv: "serves api fd c left" and c: "0 < c" "c < BUFFER_SIZE"
    and "length content + (BUFFER_SIZE - c) \<le> capacity"
    and "capacity \<le> 2 * (length content + BUFFER_SIZE)"
    and "length content + length (left st) < 2 ^ 60"
  shows "\<exists>st'. read_loop api fd content capacity st = Some (content @ left st, st')"
  using assms(4-)
proof (induction "length (left st)" arbitrary: content capacity st rule: less_induct)
  case less
  let ?rem = "capacity - length content"
  have rem: "0 < ?rem" "?rem < 18446744073709551616"
    using less.prems c by (auto simp: BUFFER_SIZE_def)
  then have u: "unat (of_nat ?rem :: usize) = ?rem" by (intro unat_of_nat_usize)
  let ?k = "min ?rem c"
  obtain st1 where rd: "read_fd api fd (of_nat ?rem) st = (Some (take ?k (left st)), st1)"
    "left st1 = drop ?k (left st)"
    using servesD [OF sv, of "of_nat ?rem" st] u by metis
  show ?case
  proof (cases "left st = []")
    case True
    with rd show ?thesis by (subst read_loop.simps) (simp add: Let_def)
  next
    case False
    let ?cap = "string_reserve capacity (length content) BUFFER_SIZE"
    have le: "length content \<le> capacity" using rem(1) by simp
    have "length (left st1) < length (left st)" using rd(2) False rem c by simp
    moreover have "length (content @ take ?k (left st)) + (BUFFER_SIZE - c) \<le> ?cap"
      using string_reserve_bounds [OF le, of BUFFER_SIZE] c by simp
    moreover have "?cap \<le> 2 * (length (content @ take ?k (left st)) + BUFFER_SIZE)"
      using string_reserve_upper [of capacity "length content" BUFFER_SIZE] less.prems(2) by simp
    moreover have "length (content @ take ?k (left st)) + length (left st1) < 2 ^ 60"
      using less.prems(3) rd(2) by simp
    ultimately obtain st' where
      "read_loop api fd (content @ take ?k (left st)) ?cap st1
        = Some ((content @ take ?k (left st)) @ left st1, st')"
      using less.hyps by blast
    moreover have "take ?k (left st) \<noteq> []" using False rem c by auto
    ultimately show ?thesis using rd by (subst read_loop.simps) (simp add: Let_def)
  qed
qed

text \<open>
  A \<open>read\<close> that fills the buffer: the space left is 0 on the next turn, the call returns no byte and
  the loop takes that for the end of the file.
\<close>

lemma read_loop_truncates:
  assumes sv: "serves api fd c left" and c: "BUFFER_SIZE \<le> c"
    and long: "BUFFER_SIZE \<le> length (left st)"
  shows "\<exists>st'. read_loop api fd [] BUFFER_SIZE st = Some (take BUFFER_SIZE (left st), st')"
proof -
  have u: "unat (of_nat BUFFER_SIZE :: usize) = BUFFER_SIZE"
    by (rule unat_of_nat_usize) (simp add: BUFFER_SIZE_def)
  obtain st1 where rd: "read_fd api fd (of_nat BUFFER_SIZE) st
      = (Some (take BUFFER_SIZE (left st)), st1)"
    using servesD [OF sv, of "of_nat BUFFER_SIZE" st] u c by (metis min.absorb1)
  obtain st2 where rd2: "read_fd api fd 0 st1 = (Some [], st2)"
    using servesD [OF sv, of 0 st1] by (metis min_0L take0 unsigned_0)
  have full: "length (take BUFFER_SIZE (left st)) = BUFFER_SIZE" using long by simp
  have "read_loop api fd (take BUFFER_SIZE (left st)) BUFFER_SIZE st1
      = Some (take BUFFER_SIZE (left st), st2)"
    using rd2 full by (subst read_loop.simps) (simp add: Let_def)
  moreover have "take BUFFER_SIZE (left st) \<noteq> []" using full by (auto simp: BUFFER_SIZE_def)
  moreover have "string_reserve BUFFER_SIZE 0 BUFFER_SIZE = BUFFER_SIZE" by (simp add: string_reserve_def)
  ultimately show ?thesis using rd by (subst read_loop.simps) (simp add: Let_def)
qed

section \<open>Allocating\<close>

text \<open>The loop of \<open>try_allocate_buffer\<close> over the candidate addresses.\<close>

fun linux_try_addresses ::
  "'o linux_api \<Rightarrow> buffer_allocator_settings \<Rightarrow> usize list \<Rightarrow> 'o \<Rightarrow> (string + locator_item) \<times> 'o" where
  "linux_try_addresses api s [] st = (Inl ''Failed to allocate buffer'', st)"
| "linux_try_addresses api s (addr # addrs) st =
     (let (allocated, st1) = mmap api addr (ucast (bas_size s)) [PROT_READ, PROT_WRITE, PROT_EXEC]
            [MAP_PRIVATE, MAP_ANONYMOUS, MAP_FIXED_NOREPLACE] (- 1) 0 st
      in if allocated = 0 then linux_try_addresses api s addrs st1
         else if allocated \<noteq> addr
         then (let (_, st2) = munmap api allocated (ucast (bas_size s)) st1
               in linux_try_addresses api s addrs st2)
         else (Inr (locator_item_new allocated (bas_size s)), st1))"

definition linux_try_allocate_buffer ::
  "build \<Rightarrow> cached \<Rightarrow> 'o linux_api \<Rightarrow> memory_map_entry \<Rightarrow> buffer_allocator_settings \<Rightarrow> 'o \<Rightarrow>
   ((string + locator_item) \<times> 'o) option" where
  "linux_try_allocate_buffer b sys api entry s st = do {
     addrs \<leftarrow> get_possible_buffer_addresses b (bas_min_address s) (bas_max_address s)
       (start_address entry) (end_address entry) (ucast (bas_size s)) (granularity sys);
     Some (linux_try_addresses api s addrs st)
   }"

text \<open>The loop over the free regions; it stops at the first region past the maximum address.\<close>

fun linux_try_regions ::
  "build \<Rightarrow> cached \<Rightarrow> 'o linux_api \<Rightarrow> buffer_allocator_settings \<Rightarrow> memory_map_entry list \<Rightarrow> 'o \<Rightarrow>
   (locator_item option \<times> 'o) option" where
  "linux_try_regions b sys api s [] st = Some (None, st)"
| "linux_try_regions b sys api s (region # regions) st =
     (if start_address region > bas_max_address s then Some (None, st)
      else do {
        (r, st1) \<leftarrow> linux_try_allocate_buffer b sys api region s st;
        case r of
          Inr item \<Rightarrow> Some (Some item, st1)
        | Inl _ \<Rightarrow> linux_try_regions b sys api s regions st1
      })"

text \<open>The retries: each reads the maps file anew.\<close>

fun linux_retry ::
  "build \<Rightarrow> cached \<Rightarrow> 'o linux_api \<Rightarrow> buffer_allocator_settings \<Rightarrow> nat \<Rightarrow> 'o \<Rightarrow>
   (alloc_result \<times> 'o) option" where
  "linux_retry b sys api s 0 st =
     Some (Inl (allocation_error_new s ''Failed to allocate buffer on Linux''), st)"
| "linux_retry b sys api s (Suc n) st = do {
     (regions, st1) \<leftarrow> get_free_regions_from_process_id sys api (bas_target_process_id s) st;
     (r, st2) \<leftarrow> linux_try_regions b sys api s regions st1;
     case r of
       Some item \<Rightarrow> Some (Inr item, st2)
     | None \<Rightarrow> linux_retry b sys api s n st2
   }"

definition allocate_linux ::
  "build \<Rightarrow> cached \<Rightarrow> 'o linux_api \<Rightarrow> buffer_allocator_settings \<Rightarrow> 'o \<Rightarrow> (alloc_result \<times> 'o) option" where
  "allocate_linux b sys api s st = linux_retry b sys api s (nat (sint (bas_retry_count s))) st"

section \<open>The contract\<close>

lemma linux_try_addresses_item:
  assumes "linux_try_addresses api s addrs st = (Inr it, st')"
  shows "\<exists>a \<in> set addrs. a \<noteq> 0 \<and> it = locator_item_new a (bas_size s)"
  using assms
  by (induction addrs arbitrary: st) (auto simp: Let_def split: if_splits prod.splits)

lemma linux_try_allocate_placed:
  assumes ret: "linux_try_allocate_buffer b sys api entry s st = Some (Inr it, st')"
    and g: "granularity sys \<noteq> 0" and top: "below_top (bas_max_address s)"
  shows "placed (granularity sys) s it"
proof -
  from ret obtain addrs where
    addrs: "get_possible_buffer_addresses b (bas_min_address s) (bas_max_address s)
      (start_address entry) (end_address entry) (ucast (bas_size s)) (granularity sys) = Some addrs"
    and tried: "linux_try_addresses api s addrs st = (Inr it, st')"
    by (auto simp: linux_try_allocate_buffer_def Option.bind_eq_Some_conv)
  from linux_try_addresses_item [OF tried] obtain a where
    a: "a \<in> set addrs" "a \<noteq> 0" "it = locator_item_new a (bas_size s)" by blast
  from get_possible_sound [OF addrs a(1) g] top show ?thesis
    unfolding a(3) by (intro placedI [OF _ a(2)]) blast
qed

lemma linux_try_regions_placed:
  assumes "linux_try_regions b sys api s regions st = Some (Some it, st')"
    and "granularity sys \<noteq> 0" and "below_top (bas_max_address s)"
  shows "placed (granularity sys) s it"
  using assms
  by (induction regions arbitrary: st)
    (auto simp: result_cases split: if_splits intro: linux_try_allocate_placed)

lemma linux_retry_placed:
  assumes "linux_retry b sys api s n st = Some (Inr it, st')"
    and "granularity sys \<noteq> 0" and "below_top (bas_max_address s)"
  shows "placed (granularity sys) s it"
  using assms
  by (induction n arbitrary: st)
    (auto simp: result_cases intro: linux_try_regions_placed)

lemma linux_retry_error:
  "linux_retry b sys api s n st = Some (Inl e, st') \<Longrightarrow> error_for s e"
  by (induction n arbitrary: st)
    (auto simp: result_cases)

interpretation linux_allocator: allocator_contract "allocate_linux b sys api" "granularity sys" True
  by unfold_locales (auto simp: allocate_linux_def intro: linux_retry_placed linux_retry_error)

section \<open>An allocation that is possible is made\<close>

text \<open>
  A system that grants every fixed mapping it is asked for, at an address other than 0.
\<close>

definition grants_mmap :: "'o linux_api \<Rightarrow> bool" where
  "grants_mmap api \<longleftrightarrow> (\<forall>a n p f fd off st. a \<noteq> 0 \<longrightarrow> fst (mmap api a n p f fd off st) = a)"

lemma linux_try_addresses_grants:
  assumes "grants_mmap api" and "a \<noteq> 0"
  shows "\<exists>st'. linux_try_addresses api s (a # as) st = (Inr (locator_item_new a (bas_size s)), st')"
  using assms by (auto simp: grants_mmap_def split: prod.splits) (metis fst_conv)+

lemma linux_try_regions_finds:
  assumes grants: "grants_mmap api" and g: "granularity sys \<noteq> 0"
    and ord: "ordered_regions regions" and r: "r \<in> set regions"
    and fits: "buffer_fits (bas_min_address s) (bas_max_address s) (start_address r) (end_address r)
      (ucast (bas_size s)) (granularity sys) c"
    and pos: "0 < bas_min_address s" and top: "below_top (bas_max_address s)"
    and room: "unat (bas_max_address s) + unat (granularity sys) < 2 ^ 64"
  shows "\<exists>it st'. linux_try_regions b sys api s regions st = Some (Some it, st')"
  using ord r
proof (induction regions arbitrary: st)
  case (Cons q regions)
  let ?poss = "get_possible_buffer_addresses b (bas_min_address s) (bas_max_address s)
    (start_address q) (end_address q) (ucast (bas_size s)) (granularity sys)"
  from fits have c: "bas_min_address s \<le> bas_max_address s" "start_address r \<le> bas_max_address s"
    by (auto simp: buffer_fits_def word_le_nat_alt)
  have q: "start_address q \<le> end_address q" "start_address q \<le> start_address r"
    using Cons.prems by (auto simp: ordered_regions_def intro: order.trans)
  then have le: "start_address q \<le> bas_max_address s" using c(2) by simp
  have "unat (start_address q) + unat (granularity sys) < 2 ^ 64"
    "unat (bas_min_address s) + unat (granularity sys) < 2 ^ 64"
    using le c(1) room by (auto simp: word_le_nat_alt)
  then obtain rs where rs: "?poss = Some rs" using get_possible_returns [OF q(1) g] by blast
  show ?case
  proof (cases rs)
    case Nil
    then have "q \<noteq> r" using get_possible_complete [OF rs g] fits by auto
    with Cons.prems have "ordered_regions regions" "r \<in> set regions" by (auto simp: ordered_regions_def)
    from Cons.IH [OF this] Nil rs le show ?thesis
      by (simp add: linux_try_allocate_buffer_def not_less)
  next
    case (Cons a as)
    then have "buffer_fits (bas_min_address s) (bas_max_address s) (start_address q) (end_address q)
        (ucast (bas_size s)) (granularity sys) a"
      using get_possible_sound [OF rs _ g] top by simp
    then have "a \<noteq> 0" using pos by (auto simp: buffer_fits_def)
    with linux_try_addresses_grants [OF grants, of a s as st] obtain st'
      where "linux_try_addresses api s rs st = (Inr (locator_item_new a (bas_size s)), st')"
      using Cons by blast
    with rs le show ?thesis by (simp add: linux_try_allocate_buffer_def not_less)
  qed
qed simp

lemma allocate_linux_finds:
  assumes regions: "get_free_regions_from_process_id sys api (bas_target_process_id s) st
      = Some (get_free_regions sys rs, st1)" "regions_from 0 rs"
    and retry: "0 < sint (bas_retry_count s)"
    and r: "r \<in> set (get_free_regions sys rs)"
    and fits: "buffer_fits (bas_min_address s) (bas_max_address s) (start_address r) (end_address r)
      (ucast (bas_size s)) (granularity sys) c"
    and "grants_mmap api" "granularity sys \<noteq> 0" "0 < bas_min_address s" "below_top (bas_max_address s)"
      "unat (bas_max_address s) + unat (granularity sys) < 2 ^ 64"
  shows "\<exists>it st'. allocate_linux b sys api s st = Some (Inr it, st')"
proof -
  obtain it st2 where
    "linux_try_regions b sys api s (get_free_regions sys rs) st1 = Some (Some it, st2)"
    using linux_try_regions_finds [OF assms(6,7) get_free_regions_ordered [OF regions(2)] r fits
        assms(8-10)] by blast
  moreover obtain n where "nat (sint (bas_retry_count s)) = Suc n"
    using retry by (metis gr0_implies_Suc zero_less_nat_eq)
  ultimately show ?thesis using regions(1) by (simp add: allocate_linux_def)
qed

section \<open>Properties\<close>

text \<open>
  When the kernel serves the maps file in pieces smaller than the buffer, as it does for
  \<open>/proc\<close>, \<open>read_to_string\<close> returns, and returns the whole text.
\<close>

lemma read_to_string_whole:
  assumes "serves api fd c left" and "0 < c" and "c < BUFFER_SIZE"
    and "open_rdonly api path st = (fd, st1)" and "\<not> fd <s 0" and "length (left st1) < 2 ^ 60"
  shows "\<exists>st'. read_to_string api path st = Some (left st1, st')"
proof -
  have "\<exists>st'. read_loop api fd [] BUFFER_SIZE st1 = Some ([] @ left st1, st')"
    using assms by (intro read_loop_whole [OF assms(1-3)]) simp_all
  then show ?thesis using assms(4,5) by (auto simp: read_to_string_def)
qed

text \<open>A system whose maps files hold the text \<open>txt\<close>, served \<open>c\<close> bytes at a time, and which grants every mapping.\<close>

definition text_api :: "nat \<Rightarrow> string \<Rightarrow> string linux_api" where
  "text_api c txt =
     \<lparr>mmap = (\<lambda>a n p f fd off st. (a, st)), munmap = (\<lambda>a n st. (0, st)),
      open_rdonly = (\<lambda>path st. (3, txt)),
      read_fd = (\<lambda>fd n st. (Some (take (min (unat n) c) st), drop (min (unat n) c) st)),
      close_fd = (\<lambda>fd st. st), itoa = (\<lambda>i. ''1'')\<rparr>"

lemma text_api_serves: "serves (text_api c txt) fd c (\<lambda>st. st)"
  by (simp add: serves_def text_api_def)

lemma three_nonneg: "\<not> (3 :: i32) <s 0"
  by (simp add: word_sless_alt)

text \<open>
  C35 The space offered to \<open>read\<close> is computed before the string grows: when one read fills the
  128 KiB buffer, the next one is offered no space, and the file is cut at that length without an error.
\<close>

theorem read_to_string_truncates:
  assumes "serves api fd c left" and "BUFFER_SIZE \<le> c"
    and "open_rdonly api path st = (fd, st1)" and "\<not> fd <s 0" and "BUFFER_SIZE < length (left st1)"
  shows "\<exists>st'. read_to_string api path st = Some (take BUFFER_SIZE (left st1), st') \<and>
    take BUFFER_SIZE (left st1) \<noteq> left st1"
proof -
  have "\<exists>st'. read_loop api fd [] BUFFER_SIZE st1 = Some (take BUFFER_SIZE (left st1), st')"
    using assms(5) by (intro read_loop_truncates [OF assms(1,2)]) simp
  then obtain st' where "read_to_string api path st = Some (take BUFFER_SIZE (left st1), st')"
    using assms(3,4) by (auto simp: read_to_string_def)
  moreover have "length (take BUFFER_SIZE (left st1)) < length (left st1)" using assms(5) by simp
  then have "take BUFFER_SIZE (left st1) \<noteq> left st1" by fastforce
  ultimately show ?thesis by blast
qed

theorem read_to_string_truncates_witness:
  "\<exists>st'. read_to_string (text_api (Suc BUFFER_SIZE) (replicate (Suc BUFFER_SIZE) (CHR ''a''))) ''/proc/1/maps'' []
    = Some (replicate BUFFER_SIZE (CHR ''a''), st')"
proof -
  let ?txt = "replicate (Suc BUFFER_SIZE) (CHR ''a'')"
  have "open_rdonly (text_api (Suc BUFFER_SIZE) ?txt) ''/proc/1/maps'' [] = (3, ?txt)"
    by (simp add: text_api_def)
  from read_to_string_truncates [OF text_api_serves _ this three_nonneg]
  have "\<exists>st'. read_to_string (text_api (Suc BUFFER_SIZE) ?txt) ''/proc/1/maps'' []
      = Some (take BUFFER_SIZE ?txt, st')"
    by (simp del: replicate_Suc)
  moreover have "take BUFFER_SIZE ?txt = replicate BUFFER_SIZE (CHR ''a'')"
    unfolding take_replicate by simp
  ultimately show ?thesis by (simp only:)
qed



end
