(* ===== verification/Page_Walk.thy ===== *)
theory Page_Walk
  imports Prelude
begin

text \<open>
  The \<open>while current_address <= max_address\<close> loops of the Windows and macOS allocators.  They differ
  in their bodies only: a body either moves on to another address (\<open>Inl\<close>) or leaves the loop
  (\<open>Inr\<close>), with a result when it is a \<open>return\<close> and without one when it is a \<open>break\<close>.  \<open>None\<close> is a
  panic, or a loop that never ends.
\<close>

partial_function (option) page_walk ::
  "(usize \<Rightarrow> 's \<Rightarrow> ((usize + 'r option) \<times> 's) option) \<Rightarrow> usize \<Rightarrow> usize \<Rightarrow> 's \<Rightarrow>
   ('r option \<times> 's) option" where
  "page_walk body max_address current_address st =
     (if current_address \<le> max_address
      then do {
        (turn, st1) \<leftarrow> body current_address st;
        case turn of
          Inl next_address \<Rightarrow> page_walk body max_address next_address st1
        | Inr result \<Rightarrow> Some (result, st1)
      }
      else Some (None, st))"

declare page_walk.simps [code]

text \<open>What every \<open>return\<close> of the body satisfies, the result of the walk satisfies.\<close>

lemma page_walk_result:
  assumes ret: "page_walk body mx cur st = Some (Some r, st')"
    and body: "\<And>cur st r st'. body cur st = Some (Inr (Some r), st') \<Longrightarrow> P r"
  shows "P r"
proof -
  have "(\<forall>cur st r st'. body cur st = Some (Inr (Some r), st') \<longrightarrow> P r) \<longrightarrow>
      (\<forall>r'. fst (Some r, st') = Some r' \<longrightarrow> P r')"
  proof (induction rule: page_walk.raw_induct [OF _ ret, consumes 0])
    case (1 walk body mx cur st res)
    show ?case
    proof (cases "cur \<le> mx")
      case True
      with 1(2) obtain turn st1 where turn: "body cur st = Some (turn, st1)"
        and rest: "(case turn of Inl a \<Rightarrow> walk body mx a st1 | Inr res \<Rightarrow> Some (res, st1)) = Some res"
        by (auto simp: Option.bind_eq_Some_conv)
      show ?thesis
      proof (cases turn)
        case (Inl a)
        with rest show ?thesis using 1(1) [of body mx a st1 res] by simp
      next
        case (Inr r)
        with rest turn have "res = (r, st1)" "body cur st = Some (Inr r, st1)" by auto
        then show ?thesis by (metis fst_conv)
      qed
    qed (use 1(2) in auto)
  qed
  moreover have "\<forall>cur st r st'. body cur st = Some (Inr (Some r), st') \<longrightarrow> P r"
    using body by blast
  ultimately show ?thesis by simp
qed

text \<open>The walk ends when every turn returns and moves to a higher address.\<close>

lemma page_walk_ends:
  assumes body: "\<And>cur st. cur \<le> mx \<Longrightarrow>
      \<exists>turn st'. body cur st = Some (turn, st') \<and> (\<forall>nxt. turn = Inl nxt \<longrightarrow> cur < nxt)"
  shows "\<exists>r. page_walk body mx cur st = Some r"
proof (induction "2 ^ 64 - unat cur" arbitrary: cur st rule: less_induct)
  case less
  show ?case
  proof (cases "cur \<le> mx")
    case True
    then obtain turn st1 where turn: "body cur st = Some (turn, st1)"
      and up: "\<And>nxt. turn = Inl nxt \<Longrightarrow> cur < nxt" using body by blast
    show ?thesis
    proof (cases turn)
      case (Inl nxt)
      then have "2 ^ 64 - unat nxt < 2 ^ 64 - unat cur"
        using up unat_usize_lt [of nxt] by (simp add: word_less_nat_alt)
      from less [OF this, of st1] True turn Inl show ?thesis
        by (subst page_walk.simps) simp
    qed (use True turn in \<open>subst page_walk.simps, simp\<close>)
  qed (subst page_walk.simps, simp)
qed

end
