(* ===== verification/Alloc_Windows.thy ===== *)
theory Alloc_Windows
  imports Alloc_Contract Page_Walk
begin

text \<open>
  The Windows allocator \<open>src-rust/src/internal/buffer_allocator_windows.rs\<close>.  The trait \<open>Kernel32\<close>
  is a record of functions that \<open>LocalKernel32\<close> fills from those of \<open>windows-sys\<close>, which are
  parameters.  The code under the feature \<open>external_process\<close>, which is never compiled (the manifest of the
  crate says \<open>external_processes\<close>), is in \<open>External_Process\<close>.
\<close>

unbundle bit_operations_syntax

record memory_basic_information =
  mbi_BaseAddress :: usize
  mbi_RegionSize :: usize
  mbi_State :: u32

definition MEM_FREE :: u32 where
  "MEM_FREE = 0x10000"

definition MEM_COMMIT :: u32 where
  "MEM_COMMIT = 0x1000"

definition MEM_RESERVE :: u32 where
  "MEM_RESERVE = 0x2000"

definition MEM_RELEASE :: u32 where
  "MEM_RELEASE = 0x8000"

definition PAGE_EXECUTE_READWRITE :: u32 where
  "PAGE_EXECUTE_READWRITE = 0x40"

text \<open>
  The trait \<open>Kernel32\<close>: \<open>virtual_query\<close> gives \<open>None\<close> when the call returns 0, else the information it
  wrote; \<open>virtual_alloc\<close> reserves and commits at an address (0 on failure); \<open>virtual_free\<close> releases.
\<close>

record 'o kernel32 =
  virtual_query :: "usize \<Rightarrow> 'o \<Rightarrow> memory_basic_information option \<times> 'o"
  virtual_alloc :: "usize \<Rightarrow> usize \<Rightarrow> 'o \<Rightarrow> usize \<times> 'o"
  virtual_free :: "usize \<Rightarrow> usize \<Rightarrow> 'o \<Rightarrow> bool \<times> 'o"

text \<open>
  \<open>IsWow64Process\<close> gives its result and the flag it wrote, \<open>VirtualQuery\<close> the number of bytes it wrote
  and the information.  A handle of 0 is no handle.
\<close>

record 'o windows_api =
  OpenProcess :: "u32 \<Rightarrow> 'o \<Rightarrow> usize \<times> 'o"
  CloseHandle :: "usize \<Rightarrow> 'o \<Rightarrow> 'o"
  IsWow64Process :: "usize \<Rightarrow> 'o \<Rightarrow> (i32 \<times> i32) \<times> 'o"
  VirtualQuery :: "usize \<Rightarrow> 'o \<Rightarrow> (usize \<times> memory_basic_information) \<times> 'o"
  VirtualAlloc :: "usize \<Rightarrow> usize \<Rightarrow> u32 \<Rightarrow> u32 \<Rightarrow> 'o \<Rightarrow> usize \<times> 'o"
  VirtualFree :: "usize \<Rightarrow> usize \<Rightarrow> u32 \<Rightarrow> 'o \<Rightarrow> i32 \<times> 'o"

definition LocalKernel32 :: "'o windows_api \<Rightarrow> 'o kernel32" where
  "LocalKernel32 api =
     \<lparr>virtual_query = (\<lambda>lp_address st. let ((has_page, info), st1) = VirtualQuery api lp_address st
        in (if has_page = 0 then None else Some info, st1)),
      virtual_alloc = (\<lambda>lp_address dw_size st.
        VirtualAlloc api lp_address dw_size (MEM_RESERVE OR MEM_COMMIT) PAGE_EXECUTE_READWRITE st),
      virtual_free = (\<lambda>lp_address dw_size st. let (result, st1) = VirtualFree api lp_address dw_size MEM_RELEASE st
        in (result \<noteq> 0, st1))\<rparr>"

section \<open>Process handles\<close>

definition process_handle_is_valid :: "usize \<Rightarrow> bool" where
  "process_handle_is_valid handle \<longleftrightarrow> handle \<noteq> 0"

definition process_handle_drop :: "'o windows_api \<Rightarrow> usize \<Rightarrow> 'o \<Rightarrow> 'o" where
  "process_handle_drop api handle st = (if handle \<noteq> 0 then CloseHandle api handle st else st)"

definition get_max_windows_address ::
  "sys_queries \<Rightarrow> cached \<Rightarrow> 'o windows_api \<Rightarrow> u32 \<Rightarrow> usize \<Rightarrow> 'o \<Rightarrow> usize \<times> 'o" where
  "get_max_windows_address q sys api process_id handle st =
     (if ci_this_process_id sys = process_id then (ci_max_address sys, st)
      else (let ((result, is_wow64), st1) = IsWow64Process api handle st;
                has_is_wow64 = (result \<noteq> 0);
                max_address = (if is_wow64 = 0 \<and> has_is_wow64
                  then lpMaximumApplicationAddress (GetSystemInfo q) else 0x7FFFFFFF)
            in (max_address, st1)))"

section \<open>One page range\<close>

definition get_buffer_pointers_in_page_range ::
  "build \<Rightarrow> cached \<Rightarrow> memory_basic_information \<Rightarrow> usize \<Rightarrow> usize \<Rightarrow> usize \<Rightarrow> usize list option" where
  "get_buffer_pointers_in_page_range b sys page_info buffer_size minimum_ptr maximum_ptr = do {
     let page_start = mbi_BaseAddress page_info;
     page_end \<leftarrow> wadd b (mbi_BaseAddress page_info) (mbi_RegionSize page_info);
     get_possible_buffer_addresses b minimum_ptr maximum_ptr page_start page_end buffer_size
       (granularity sys)
   }"

fun windows_try_addresses ::
  "'o kernel32 \<Rightarrow> buffer_allocator_settings \<Rightarrow> usize list \<Rightarrow> 'o \<Rightarrow> locator_item option \<times> 'o" where
  "windows_try_addresses k32 s [] st = (None, st)"
| "windows_try_addresses k32 s (addr # addrs) st =
     (let (allocated, st1) = virtual_alloc k32 addr (ucast (bas_size s)) st
      in if allocated = 0 then windows_try_addresses k32 s addrs st1
         else if allocated \<noteq> addr
         then (let (_, st2) = virtual_free k32 allocated (ucast (bas_size s)) st1
               in windows_try_addresses k32 s addrs st2)
         else (Some \<lparr>li_base_address = allocated, li_size = bas_size s, li_position = 0,
                     li_is_taken = 0\<rparr>, st1))"

definition windows_try_allocate_buffer ::
  "build \<Rightarrow> cached \<Rightarrow> 'o kernel32 \<Rightarrow> memory_basic_information \<Rightarrow> buffer_allocator_settings \<Rightarrow> 'o \<Rightarrow>
   (locator_item option \<times> 'o) option" where
  "windows_try_allocate_buffer b sys k32 page_info s st =
     (if mbi_State page_info \<noteq> MEM_FREE then Some (None, st)
      else do {
        addrs \<leftarrow> get_buffer_pointers_in_page_range b sys page_info (ucast (bas_size s))
          (bas_min_address s) (bas_max_address s);
        Some (windows_try_addresses k32 s addrs st)
      })"

section \<open>The page walks\<close>

text \<open>
  Both \<open>while\<close> loops of \<open>allocate_fast\<close>: they differ in the step from one query to the next, the
  region's size in the first and the allocation granularity in the brute-force one.
\<close>

definition windows_turn ::
  "build \<Rightarrow> cached \<Rightarrow> 'o kernel32 \<Rightarrow> buffer_allocator_settings \<Rightarrow> (memory_basic_information \<Rightarrow> usize) \<Rightarrow>
   usize \<Rightarrow> 'o \<Rightarrow> ((usize + locator_item option) \<times> 'o) option" where
  "windows_turn b sys k32 s stride current_address st =
     (case virtual_query k32 current_address st of
        (None, st1) \<Rightarrow> Some (Inr None, st1)
      | (Some info, st1) \<Rightarrow> do {
          (r, st2) \<leftarrow> windows_try_allocate_buffer b sys k32 info s st1;
          case r of
            Some item \<Rightarrow> Some (Inr (Some item), st2)
          | None \<Rightarrow> do {
              next_address \<leftarrow> wadd b current_address (stride info);
              Some (Inl next_address, st2)
            }
        })"

definition windows_scan ::
  "build \<Rightarrow> cached \<Rightarrow> 'o kernel32 \<Rightarrow> buffer_allocator_settings \<Rightarrow> usize \<Rightarrow>
   (memory_basic_information \<Rightarrow> usize) \<Rightarrow> usize \<Rightarrow> 'o \<Rightarrow> (locator_item option \<times> 'o) option" where
  "windows_scan b sys k32 s max_address stride =
     page_walk (windows_turn b sys k32 s stride) max_address"

fun windows_retry ::
  "build \<Rightarrow> cached \<Rightarrow> 'o kernel32 \<Rightarrow> usize \<Rightarrow> buffer_allocator_settings \<Rightarrow> nat \<Rightarrow> 'o \<Rightarrow>
   (locator_item option \<times> 'o) option" where
  "windows_retry b sys k32 max_address s 0 st = Some (None, st)"
| "windows_retry b sys k32 max_address s (Suc n) st = do {
     (r, st1) \<leftarrow> windows_scan b sys k32 s max_address mbi_RegionSize (bas_min_address s) st;
     case r of
       Some item \<Rightarrow> Some (Some item, st1)
     | None \<Rightarrow> windows_retry b sys k32 max_address s n st1
   }"

definition allocate_fast ::
  "build \<Rightarrow> cached \<Rightarrow> 'o kernel32 \<Rightarrow> usize \<Rightarrow> buffer_allocator_settings \<Rightarrow> 'o \<Rightarrow>
   (alloc_result \<times> 'o) option" where
  "allocate_fast b sys k32 max_address0 s st =
     (let max_address = min_usize max_address0 (bas_max_address s) in do {
        (r, st1) \<leftarrow> windows_retry b sys k32 max_address s (nat (sint (bas_retry_count s))) st;
        case r of
          Some item \<Rightarrow> Some (Inr item, st1)
        | None \<Rightarrow> do {
            (r', st2) \<leftarrow>
              (if bas_brute_force s
               then windows_scan b sys k32 s max_address (\<lambda>_. granularity sys) (bas_min_address s) st1
               else Some (None, st1));
            case r' of
              Some item \<Rightarrow> Some (Inr item, st2)
            | None \<Rightarrow> Some (Inl (allocation_error_new s ''Failed to allocate buffer on Windows''), st2)
          }
      })"

text \<open>The handle is closed when \<open>process_handle\<close> goes out of scope, on every path.\<close>

definition allocate_windows ::
  "build \<Rightarrow> sys_queries \<Rightarrow> cached \<Rightarrow> 'o windows_api \<Rightarrow> buffer_allocator_settings \<Rightarrow> 'o \<Rightarrow>
   (alloc_result \<times> 'o) option" where
  "allocate_windows b q sys api s st =
     (let (handle, st1) = OpenProcess api (bas_target_process_id s) st in
      if \<not> process_handle_is_valid handle
      then Some (Inl (allocation_error_new s ''Failed to open process''), process_handle_drop api handle st1)
      else
        (let (max_address, st2) = get_max_windows_address q sys api (bas_target_process_id s) handle st1
         in do {
           (r, st3) \<leftarrow> allocate_fast b sys (LocalKernel32 api) max_address s st2;
           Some (r, process_handle_drop api handle st3)
         }))"

section \<open>The contract\<close>

lemma windows_try_addresses_item:
  assumes "windows_try_addresses k32 s addrs st = (Some it, st')"
  shows "\<exists>a \<in> set addrs. a \<noteq> 0 \<and> it = locator_item_new a (bas_size s)"
  using assms
  by (induction addrs arbitrary: st)
    (auto simp: Let_def locator_item_new_def split: if_splits prod.splits)

lemma windows_try_allocate_placed:
  assumes ret: "windows_try_allocate_buffer b sys k32 info s st = Some (Some it, st')"
    and g: "granularity sys \<noteq> 0" and top: "below_top (bas_max_address s)"
  shows "placed (granularity sys) s it"
proof -
  from ret obtain addrs pe where
    addrs: "get_possible_buffer_addresses b (bas_min_address s) (bas_max_address s)
      (mbi_BaseAddress info) pe (ucast (bas_size s)) (granularity sys) = Some addrs"
    and tried: "windows_try_addresses k32 s addrs st = (Some it, st')"
    by (auto simp: windows_try_allocate_buffer_def get_buffer_pointers_in_page_range_def result_cases
        split: if_splits)
  from windows_try_addresses_item [OF tried] obtain a where
    a: "a \<in> set addrs" "a \<noteq> 0" "it = locator_item_new a (bas_size s)" by blast
  from get_possible_sound [OF addrs a(1) g] top show ?thesis
    unfolding a(3) by (intro placedI [OF _ a(2)]) blast
qed

lemma windows_turn_placed:
  assumes "windows_turn b sys k32 s stride cur st = Some (Inr (Some it), st')"
    and "granularity sys \<noteq> 0" and "below_top (bas_max_address s)"
  shows "placed (granularity sys) s it"
  using assms
  by (auto simp: windows_turn_def result_cases split: prod.splits intro: windows_try_allocate_placed)

lemma windows_scan_placed:
  assumes ret: "windows_scan b sys k32 s mx stride cur st = Some (Some it, st')"
    and "granularity sys \<noteq> 0" and "below_top (bas_max_address s)"
  shows "placed (granularity sys) s it"
  using ret unfolding windows_scan_def
  by (rule page_walk_result) (rule windows_turn_placed [OF _ assms(2,3)])

lemma windows_retry_placed:
  assumes "windows_retry b sys k32 mx s n st = Some (Some it, st')"
    and "granularity sys \<noteq> 0" and "below_top (bas_max_address s)"
  shows "placed (granularity sys) s it"
  using assms
  by (induction n arbitrary: st) (auto simp: result_cases intro: windows_scan_placed)

lemma allocate_fast_placed:
  assumes "allocate_fast b sys k32 mx s st = Some (Inr it, st')"
    and "granularity sys \<noteq> 0" and "below_top (bas_max_address s)"
  shows "placed (granularity sys) s it"
  using assms
  by (auto simp: allocate_fast_def Let_def result_cases split: if_splits
      intro: windows_retry_placed windows_scan_placed)

lemma allocate_fast_error:
  "allocate_fast b sys k32 mx s st = Some (Inl e, st') \<Longrightarrow> error_for s e"
  by (auto simp: allocate_fast_def Let_def result_cases split: if_splits)

interpretation windows_allocator: allocator_contract "allocate_windows b q sys api" "granularity sys" True
  by unfold_locales
    (auto simp: allocate_windows_def Let_def result_cases
      split: if_splits prod.splits intro: allocate_fast_placed allocate_fast_error)

section \<open>The page walks end\<close>

text \<open>
  What \<open>VirtualQuery\<close> is documented to answer: a non-empty region inside the address space, at or
  around the address asked for, with room for one granule above its base.
\<close>

definition sane_regions :: "cached \<Rightarrow> 'o kernel32 \<Rightarrow> bool" where
  "sane_regions sys k32 \<longleftrightarrow>
     (\<forall>cur st info st'. virtual_query k32 cur st = (Some info, st') \<longrightarrow>
        mbi_RegionSize info \<noteq> 0 \<and>
        unat cur + unat (mbi_RegionSize info) < 2 ^ 64 \<and>
        unat (mbi_BaseAddress info) + unat (mbi_RegionSize info) < 2 ^ 64 \<and>
        unat (mbi_BaseAddress info) + unat (granularity sys) < 2 ^ 64)"

lemma windows_try_allocate_returns:
  assumes "unat (mbi_BaseAddress info) + unat (mbi_RegionSize info) < 2 ^ 64"
    and "unat (mbi_BaseAddress info) + unat (granularity sys) < 2 ^ 64"
    and "unat (bas_min_address s) + unat (granularity sys) < 2 ^ 64" and "granularity sys \<noteq> 0"
  obtains r st' where "windows_try_allocate_buffer b sys k32 info s st = Some (r, st')"
proof -
  let ?pe = "mbi_BaseAddress info + mbi_RegionSize info"
  have pe: "wadd b (mbi_BaseAddress info) (mbi_RegionSize info) = Some ?pe"
    "mbi_BaseAddress info \<le> ?pe"
    using assms(1) by (simp_all add: arith_ok word_le_nat_alt unat_add_small)
  obtain rs where "get_possible_buffer_addresses b (bas_min_address s) (bas_max_address s)
      (mbi_BaseAddress info) ?pe (ucast (bas_size s)) (granularity sys) = Some rs"
    using get_possible_returns [OF pe(2) assms(4,2,3)] by blast
  with pe(1) have "\<exists>r. windows_try_allocate_buffer b sys k32 info s st = Some r"
    by (simp add: windows_try_allocate_buffer_def get_buffer_pointers_in_page_range_def)
  then show ?thesis using that by auto
qed

lemma windows_scan_ends:
  assumes sane: "sane_regions sys k32" and g: "granularity sys \<noteq> 0"
    and min: "unat (bas_min_address s) + unat (granularity sys) < 2 ^ 64"
    and stride: "\<And>cur st info st'. virtual_query k32 cur st = (Some info, st') \<Longrightarrow> cur \<le> mx \<Longrightarrow>
      stride info \<noteq> 0 \<and> unat cur + unat (stride info) < 2 ^ 64"
  shows "\<exists>r. windows_scan b sys k32 s mx stride cur st = Some r"
  unfolding windows_scan_def
proof (rule page_walk_ends)
  fix cur st assume le: "cur \<le> mx"
  obtain q st1 where vq: "virtual_query k32 cur st = (q, st1)" by fastforce
  show "\<exists>turn st'. windows_turn b sys k32 s stride cur st = Some (turn, st') \<and>
      (\<forall>nxt. turn = Inl nxt \<longrightarrow> cur < nxt)"
  proof (cases q)
    case (Some info)
    with vq have q: "virtual_query k32 cur st = (Some info, st1)" by simp
    from sane q have "unat (mbi_BaseAddress info) + unat (mbi_RegionSize info) < 2 ^ 64"
      "unat (mbi_BaseAddress info) + unat (granularity sys) < 2 ^ 64"
      by (auto simp: sane_regions_def)
    then obtain r1 st2 where tried: "windows_try_allocate_buffer b sys k32 info s st1 = Some (r1, st2)"
      using min g by (rule windows_try_allocate_returns)
    have "wadd b cur (stride info) = Some (cur + stride info)" "cur < cur + stride info"
      using stride [OF q le] by (simp_all add: arith_ok word_less_nat_alt unat_add_small unat_gt_0)
    with q tried show ?thesis by (simp add: windows_turn_def split: option.split)
  qed (use vq in \<open>simp add: windows_turn_def\<close>)
qed

lemma windows_retry_ends:
  assumes "sane_regions sys k32" and "granularity sys \<noteq> 0"
    and "unat (bas_min_address s) + unat (granularity sys) < 2 ^ 64"
  shows "\<exists>r. windows_retry b sys k32 mx s n st = Some r"
proof (induction n arbitrary: st)
  case (Suc n)
  have "\<exists>r. windows_scan b sys k32 s mx mbi_RegionSize (bas_min_address s) st = Some r"
    by (rule windows_scan_ends [OF assms]) (use assms(1) in \<open>auto simp: sane_regions_def\<close>)
  then obtain r st1 where "windows_scan b sys k32 s mx mbi_RegionSize (bas_min_address s) st = Some (r, st1)"
    by auto
  with Suc.IH [of st1] show ?case by (auto split: option.split)
qed simp

lemma allocate_fast_ends:
  assumes sane: "sane_regions sys k32" and g: "granularity sys \<noteq> 0"
    and room: "unat (bas_max_address s) + unat (granularity sys) < 2 ^ 64"
    and min: "bas_min_address s \<le> bas_max_address s"
  shows "\<exists>r. allocate_fast b sys k32 mx s st = Some r"
proof -
  let ?mx = "min_usize mx (bas_max_address s)"
  have mn: "unat (bas_min_address s) + unat (granularity sys) < 2 ^ 64"
    using room min by (simp add: word_le_nat_alt)
  obtain r st1 where retry:
    "windows_retry b sys k32 ?mx s (nat (sint (bas_retry_count s))) st = Some (r, st1)"
    using windows_retry_ends [OF sane g mn] by fastforce
  have le: "unat cur \<le> unat (bas_max_address s)" if "cur \<le> ?mx" for cur
  proof -
    from that have "cur \<le> bas_max_address s" by (simp add: min_usize_def split: if_splits)
    then show ?thesis by (simp add: word_le_nat_alt)
  qed
  have "\<exists>r. windows_scan b sys k32 s ?mx (\<lambda>_. granularity sys) (bas_min_address s) st1 = Some r"
  proof (rule windows_scan_ends [OF sane g mn])
    fix cur st info st' assume "cur \<le> ?mx"
    then show "granularity sys \<noteq> 0 \<and> unat cur + unat (granularity sys) < 2 ^ 64"
      using le [of cur] room g by simp
  qed
  then obtain r' st2 where
    "windows_scan b sys k32 s ?mx (\<lambda>_. granularity sys) (bas_min_address s) st1 = Some (r', st2)"
    by auto
  with retry show ?thesis by (simp add: allocate_fast_def Let_def split: option.split)
qed

end
