(* ===== verification/Alloc_Osx.thy ===== *)
theory Alloc_Osx
  imports Alloc_Contract Page_Walk Code_Memory
begin

text \<open>
  The macOS allocator \<open>src-rust/src/internal/buffer_allocator_osx.rs\<close>.  The functions of the crates
  \<open>mach\<close> and \<open>libc\<close> are parameters.
\<close>

text \<open>
  \<open>mach_vm_region task address count\<close> gives the kernel's return code, the region's address and size
  and the count it wrote back; \<open>mach_vm_allocate task address size flags\<close> gives the code and the
  address it wrote; \<open>region_info_size\<close> is the size of \<open>vm_region_basic_info_data_64_t\<close>.
\<close>

record mach_region =
  mr_kr :: i32
  mr_address :: usize
  mr_size :: usize
  mr_count :: u32

record 'o mach_api =
  mach_task_self :: "'o \<Rightarrow> u32 \<times> 'o"
  mach_vm_region :: "u32 \<Rightarrow> usize \<Rightarrow> u32 \<Rightarrow> 'o \<Rightarrow> mach_region \<times> 'o"
  mach_vm_allocate :: "u32 \<Rightarrow> usize \<Rightarrow> usize \<Rightarrow> i32 \<Rightarrow> 'o \<Rightarrow> (i32 \<times> usize) \<times> 'o"
  mach_vm_protect :: "u32 \<Rightarrow> usize \<Rightarrow> usize \<Rightarrow> i32 \<Rightarrow> vm_prot list \<Rightarrow> 'o \<Rightarrow> i32 \<times> 'o"
  mach_vm_deallocate :: "u32 \<Rightarrow> usize \<Rightarrow> usize \<Rightarrow> 'o \<Rightarrow> i32 \<times> 'o"
  region_info_size :: u32

definition osx_prot :: "target \<Rightarrow> vm_prot list" where
  "osx_prot t = (if \<not> cfg_macos_aarch64 t then [VM_PROT_READ, VM_PROT_WRITE, VM_PROT_EXECUTE]
     else [VM_PROT_READ, VM_PROT_WRITE])"

definition osx_buffer_pointers_in_page_range ::
  "build \<Rightarrow> cached \<Rightarrow> usize \<Rightarrow> usize \<Rightarrow> usize \<Rightarrow> usize \<Rightarrow> usize \<Rightarrow> usize list option" where
  "osx_buffer_pointers_in_page_range b sys page_address page_size buffer_size minimum_ptr maximum_ptr = do {
     let page_start = page_address;
     page_end \<leftarrow> wadd b page_address page_size;
     get_possible_buffer_addresses b minimum_ptr maximum_ptr page_start page_end buffer_size
       (granularity sys)
   }"

text \<open>
  The loop of \<open>try_allocate_buffer\<close>.  Its result is the address stored in \<open>result_addr\<close> when the
  source returns true.
\<close>

fun osx_try_addresses ::
  "target \<Rightarrow> 'o mach_api \<Rightarrow> buffer_allocator_settings \<Rightarrow> u32 \<Rightarrow> usize list \<Rightarrow> 'o \<Rightarrow> usize option \<times> 'o" where
  "osx_try_addresses t api s self_task [] st = (None, st)"
| "osx_try_addresses t api s self_task (addr # addrs) st =
     (let ((kr, allocated), st1) = mach_vm_allocate api self_task addr (ucast (bas_size s)) 0 st
      in if kr \<noteq> 0 then osx_try_addresses t api s self_task addrs st1
         else (let (kr', st2) = mach_vm_protect api self_task allocated (ucast (bas_size s)) 0
                 (osx_prot t) st1
               in if kr' \<noteq> 0
                  then (let (_, st3) = mach_vm_deallocate api self_task allocated (ucast (bas_size s)) st2
                        in osx_try_addresses t api s self_task addrs st3)
                  else (Some allocated, st2)))"

definition osx_try_allocate_buffer ::
  "build \<Rightarrow> target \<Rightarrow> cached \<Rightarrow> 'o mach_api \<Rightarrow> usize \<Rightarrow> usize \<Rightarrow> buffer_allocator_settings \<Rightarrow> u32 \<Rightarrow> 'o \<Rightarrow>
   (usize option \<times> 'o) option" where
  "osx_try_allocate_buffer b t sys api page_address page_size s self_task st = do {
     addrs \<leftarrow> osx_buffer_pointers_in_page_range b sys page_address page_size (ucast (bas_size s))
       (bas_min_address s) (bas_max_address s);
     Some (osx_try_addresses t api s self_task addrs st)
   }"

definition osx_item :: "buffer_allocator_settings \<Rightarrow> usize \<Rightarrow> locator_item" where
  "osx_item s result_addr = \<lparr>li_base_address = result_addr, li_size = bas_size s, li_position = 0,
     li_is_taken = 0\<rparr>"

text \<open>The body of the \<open>while\<close> loop; its state carries \<open>count\<close>, which the kernel rewrites.\<close>

definition osx_turn ::
  "build \<Rightarrow> target \<Rightarrow> cached \<Rightarrow> 'o mach_api \<Rightarrow> buffer_allocator_settings \<Rightarrow> u32 \<Rightarrow> usize \<Rightarrow>
   usize \<Rightarrow> 'o \<times> u32 \<Rightarrow> ((usize + locator_item option) \<times> ('o \<times> u32)) option" where
  "osx_turn b t sys api s self_task max_address current_address = (\<lambda>(st, count).
     (let (region, st1) = mach_vm_region api self_task current_address count st;
          kr = mr_kr region; actual_address = mr_address region;
          available_size = mr_size region; count1 = mr_count region
      in if kr = 1
         then do {
           padding \<leftarrow> wsub b max_address current_address;
           if padding > 0
           then do {
             (r, st2) \<leftarrow> osx_try_allocate_buffer b t sys api current_address padding s self_task st1;
             Some (Inr (map_option (osx_item s) r), (st2, count1))
           }
           else Some (Inr None, (st1, count1))
         }
         else if kr \<noteq> 0 then Some (Inr None, (st1, count1))
         else do {
           (r, st2) \<leftarrow>
             (if actual_address > current_address
              then do {
                free_bytes \<leftarrow> wsub b actual_address current_address;
                osx_try_allocate_buffer b t sys api current_address free_bytes s self_task st1
              }
              else Some (None, st1));
           case r of
             Some result_addr \<Rightarrow> Some (Inr (Some (osx_item s result_addr)), (st2, count1))
           | None \<Rightarrow> do {
               next_address \<leftarrow> wadd b actual_address available_size;
               Some (Inl next_address, (st2, count1))
             }
         }))"

fun osx_retry ::
  "build \<Rightarrow> target \<Rightarrow> cached \<Rightarrow> 'o mach_api \<Rightarrow> buffer_allocator_settings \<Rightarrow> u32 \<Rightarrow> usize \<Rightarrow> nat \<Rightarrow> 'o \<Rightarrow>
   (alloc_result \<times> 'o) option" where
  "osx_retry b t sys api s self_task max_address 0 st =
     Some (Inl (allocation_error_new s ''Failed to allocate buffer on OSX''), st)"
| "osx_retry b t sys api s self_task max_address (Suc n) st = do {
     (r, (st1, _)) \<leftarrow> page_walk (osx_turn b t sys api s self_task max_address) max_address
       (bas_min_address s) (st, region_info_size api);
     case r of
       Some item \<Rightarrow> Some (Inr item, st1)
     | None \<Rightarrow> osx_retry b t sys api s self_task max_address n st1
   }"

definition allocate_osx ::
  "build \<Rightarrow> target \<Rightarrow> cached \<Rightarrow> 'o mach_api \<Rightarrow> buffer_allocator_settings \<Rightarrow> 'o \<Rightarrow>
   (alloc_result \<times> 'o) option" where
  "allocate_osx b t sys api s st =
     (let max_address = min_usize (ci_max_address sys) (bas_max_address s);
          (self_task, st1) = mach_task_self api st
      in osx_retry b t sys api s self_task max_address (nat (sint (bas_retry_count s))) st1)"

section \<open>The contract\<close>

text \<open>
  The code does not compare the address \<open>mach_vm_allocate\<close> wrote with the one it asked for: it relies
  on a successful call without \<open>VM_FLAGS_ANYWHERE\<close> keeping the address, and on page zero never being
  handed out.
\<close>

definition fixed_allocate :: "'o mach_api \<Rightarrow> bool" where
  "fixed_allocate api \<longleftrightarrow>
     (\<forall>task a n st a' st'. mach_vm_allocate api task a n 0 st = ((0, a'), st') \<longrightarrow> a' = a \<and> a \<noteq> 0)"

lemma fixed_allocateD:
  assumes "fixed_allocate api" and "mach_vm_allocate api task a n 0 st = ((0, a'), st')"
  shows "a' = a" "a \<noteq> 0"
  using assms unfolding fixed_allocate_def by blast+

lemma osx_try_addresses_item:
  assumes "osx_try_addresses t api s task addrs st = (Some a, st')" and "fixed_allocate api"
  shows "a \<in> set addrs \<and> a \<noteq> 0"
  using assms
  by (induction addrs arbitrary: st)
    (auto simp: Let_def split: if_splits prod.splits dest: fixed_allocateD)

lemma osx_try_allocate_placed:
  assumes ret: "osx_try_allocate_buffer b t sys api pa ps s task st = Some (Some a, st')"
    and fixed: "fixed_allocate api"
    and g: "granularity sys \<noteq> 0" and top: "below_top (bas_max_address s)"
  shows "placed (granularity sys) s (osx_item s a)"
proof -
  from ret obtain addrs pe where
    addrs: "get_possible_buffer_addresses b (bas_min_address s) (bas_max_address s)
      pa pe (ucast (bas_size s)) (granularity sys) = Some addrs"
    and tried: "osx_try_addresses t api s task addrs st = (Some a, st')"
    by (auto simp: osx_try_allocate_buffer_def osx_buffer_pointers_in_page_range_def result_cases)
  from osx_try_addresses_item [OF tried fixed] have a: "a \<in> set addrs" "a \<noteq> 0" by auto
  from get_possible_sound [OF addrs a(1) g] top
  have "placed (granularity sys) s (locator_item_new a (bas_size s))"
    by (intro placedI [OF _ a(2)]) blast
  then show ?thesis by (simp add: osx_item_def locator_item_new_def)
qed

lemma osx_turn_placed:
  assumes "osx_turn b t sys api s task mx cur stc = Some (Inr (Some it), stc')"
    and "fixed_allocate api" "granularity sys \<noteq> 0" "below_top (bas_max_address s)"
  shows "placed (granularity sys) s it"
  using assms
  by (auto simp: osx_turn_def Let_def result_cases split: if_splits prod.splits
      intro: osx_try_allocate_placed)

lemma osx_retry_placed:
  assumes "osx_retry b t sys api s task mx n st = Some (Inr it, st')"
    and "fixed_allocate api" "granularity sys \<noteq> 0" "below_top (bas_max_address s)"
  shows "placed (granularity sys) s it"
  using assms(1)
proof (induction n arbitrary: st)
  case (Suc n)
  then obtain r stc where
    walk: "page_walk (osx_turn b t sys api s task mx) mx (bas_min_address s) (st, region_info_size api)
      = Some (r, stc)"
    and rest: "(case stc of (st1, _) \<Rightarrow> case r of Some item \<Rightarrow> Some (Inr item, st1)
      | None \<Rightarrow> osx_retry b t sys api s task mx n st1) = Some (Inr it, st')"
    by (auto simp: Option.bind_eq_Some_conv simp del: split_paired_Ex)
  show ?case
  proof (cases r)
    case (Some item)
    with walk rest have "page_walk (osx_turn b t sys api s task mx) mx (bas_min_address s)
        (st, region_info_size api) = Some (Some it, stc)" by (simp split: prod.splits)
    then show ?thesis by (rule page_walk_result) (rule osx_turn_placed [OF _ assms(2-4)])
  qed (use rest Suc.IH in \<open>simp split: prod.splits\<close>)
qed simp

lemma osx_retry_error:
  "osx_retry b t sys api s task mx n st = Some (Inl e, st') \<Longrightarrow> error_for s e"
  by (induction n arbitrary: st) (auto simp: result_cases)

interpretation osx_allocator: allocator_contract "allocate_osx b t sys api" "granularity sys"
  "fixed_allocate api"
  by unfold_locales
    (auto simp: allocate_osx_def Let_def split: prod.splits intro: osx_retry_placed osx_retry_error)

section \<open>The page walk ends\<close>

text \<open>
  \<open>mach_vm_region\<close> is documented to answer with the first region that ends above the address asked
  for; that region lies in the address space.
\<close>

definition sane_mach_regions :: "'o mach_api \<Rightarrow> bool" where
  "sane_mach_regions api \<longleftrightarrow>
     (\<forall>task cur count st r st'. mach_vm_region api task cur count st = (r, st') \<longrightarrow> mr_kr r = 0 \<longrightarrow>
        unat (mr_address r) + unat (mr_size r) < 2 ^ 64 \<and>
        unat cur < unat (mr_address r) + unat (mr_size r))"

lemma osx_try_allocate_returns:
  assumes "unat pa + unat ps < 2 ^ 64" "unat pa + unat (granularity sys) < 2 ^ 64"
    and "unat (bas_min_address s) + unat (granularity sys) < 2 ^ 64" and "granularity sys \<noteq> 0"
  obtains r st' where "osx_try_allocate_buffer b t sys api pa ps s task st = Some (r, st')"
proof -
  have pe: "wadd b pa ps = Some (pa + ps)" "pa \<le> pa + ps"
    using assms(1) by (simp_all add: arith_ok word_le_nat_alt unat_add_small)
  obtain rs where "get_possible_buffer_addresses b (bas_min_address s) (bas_max_address s)
      pa (pa + ps) (ucast (bas_size s)) (granularity sys) = Some rs"
    using get_possible_returns [OF pe(2) assms(4,2,3)] by blast
  with pe(1) have "\<exists>r. osx_try_allocate_buffer b t sys api pa ps s task st = Some r"
    by (simp add: osx_try_allocate_buffer_def osx_buffer_pointers_in_page_range_def)
  then show ?thesis using that by auto
qed

lemma osx_try_allocate_gap:
  assumes "cur \<le> fin" "unat cur + unat (granularity sys) < 2 ^ 64"
    and "unat (bas_min_address s) + unat (granularity sys) < 2 ^ 64" and "granularity sys \<noteq> 0"
  obtains r st' where "wsub b fin cur = Some (fin - cur)"
    and "osx_try_allocate_buffer b t sys api cur (fin - cur) s task st = Some (r, st')"
proof -
  have sub: "wsub b fin cur = Some (fin - cur)" using assms(1) by (simp add: arith_ok)
  have "unat cur + unat (fin - cur) = unat fin"
    using assms(1) by (simp add: unat_sub word_le_nat_alt)
  then have "unat cur + unat (fin - cur) < 2 ^ 64" using unat_usize_lt [of fin] by simp
  then show ?thesis
    using osx_try_allocate_returns [OF _ assms(2-4)] sub that by metis
qed

lemma osx_turn_advances:
  assumes sane: "sane_mach_regions api" and cur: "cur \<le> mx"
    and room: "unat mx + unat (granularity sys) < 2 ^ 64"
    and min: "unat (bas_min_address s) + unat (granularity sys) < 2 ^ 64"
    and g: "granularity sys \<noteq> 0"
  shows "\<exists>turn stc'. osx_turn b t sys api s task mx cur stc = Some (turn, stc') \<and>
    (\<forall>nxt. turn = Inl nxt \<longrightarrow> cur < nxt)"
proof -
  obtain st count where stc: "stc = (st, count)" by fastforce
  obtain r st1 where reg: "mach_vm_region api task cur count st = (r, st1)" by fastforce
  have cg: "unat cur + unat (granularity sys) < 2 ^ 64"
    using cur room by (simp add: word_le_nat_alt)
  consider "mr_kr r = 1" | "mr_kr r \<noteq> 0" "mr_kr r \<noteq> 1" | "mr_kr r = 0" by blast
  then show ?thesis
  proof cases
    case 1
    obtain r' st2 where "wsub b mx cur = Some (mx - cur)"
      "osx_try_allocate_buffer b t sys api cur (mx - cur) s task st1 = Some (r', st2)"
      using osx_try_allocate_gap [OF cur cg min g] by metis
    with 1 reg show ?thesis by (simp add: osx_turn_def stc Let_def)
  next
    case 2
    with reg show ?thesis by (simp add: osx_turn_def stc Let_def)
  next
    case 3
    with sane reg have b: "unat (mr_address r) + unat (mr_size r) < 2 ^ 64"
      "unat cur < unat (mr_address r) + unat (mr_size r)" unfolding sane_mach_regions_def by blast+
    then have nxt: "wadd b (mr_address r) (mr_size r) = Some (mr_address r + mr_size r)"
      "cur < mr_address r + mr_size r"
      by (simp_all add: arith_ok word_less_nat_alt unat_add_small)
    show ?thesis
    proof (cases "mr_address r > cur")
      case True
      then obtain r' st2 where "wsub b (mr_address r) cur = Some (mr_address r - cur)"
        "osx_try_allocate_buffer b t sys api cur (mr_address r - cur) s task st1 = Some (r', st2)"
        using osx_try_allocate_gap [OF less_imp_le cg min g] by metis
      with 3 reg nxt True show ?thesis by (simp add: osx_turn_def stc Let_def split: option.split)
    qed (use 3 reg nxt in \<open>simp add: osx_turn_def stc Let_def\<close>)
  qed
qed

lemma allocate_osx_ends:
  assumes sane: "sane_mach_regions api" and g: "granularity sys \<noteq> 0"
    and room: "unat (bas_max_address s) + unat (granularity sys) < 2 ^ 64"
    and min: "bas_min_address s \<le> bas_max_address s"
  shows "\<exists>r. allocate_osx b t sys api s st = Some r"
proof -
  let ?mx = "min_usize (ci_max_address sys) (bas_max_address s)"
  have mn: "unat (bas_min_address s) + unat (granularity sys) < 2 ^ 64"
    using room min by (simp add: word_le_nat_alt)
  have "?mx \<le> bas_max_address s" by (simp add: min_usize_def)
  then have mx: "unat ?mx + unat (granularity sys) < 2 ^ 64" using room by (simp add: word_le_nat_alt)
  have "\<exists>r. osx_retry b t sys api s task ?mx n st = Some r" for task n st
  proof (induction n arbitrary: st)
    case (Suc n)
    obtain r st1 c where "page_walk (osx_turn b t sys api s task ?mx) ?mx (bas_min_address s)
        (st, region_info_size api) = Some (r, (st1, c))"
      using page_walk_ends [OF osx_turn_advances [OF sane _ mx mn g]] by fastforce
    with Suc.IH [of st1] show ?case by (auto split: option.split)
  qed simp
  then show ?thesis by (simp add: allocate_osx_def Let_def split: prod.split)
qed

end
