(* ===== verification/Alloc_Mmap.thy ===== *)
theory Alloc_Mmap
  imports Alloc_Contract Memory_Map
begin

text \<open>
  The fallback allocator \<open>src-rust/src/internal/buffer_allocator_mmap_rs.rs\<close>, for systems that are
  none of Windows, Linux and macOS.  The crate \<open>mmap-rs\<close> is a parameter.
\<close>

text \<open>
  \<open>memory_areas_open\<close> gives the entries the iterator \<open>MemoryAreas\<close> yields (\<open>Inl\<close> an entry that is an
  error), or \<open>None\<close> when it cannot be opened; \<open>options_new\<close> says whether \<open>MmapOptions::new\<close> accepts a
  size; \<open>map_exec_mut address size\<close> gives the start of the new mapping, or \<open>None\<close> on failure;
  \<open>unmap\<close> is the destructor of a mapping; \<open>map_from_existing\<close> says whether a mapping could be built
  over existing pages.
\<close>

record 'o mmap_rs_api =
  memory_areas_open :: "'o \<Rightarrow> (unit + memory_map_entry) list option \<times> 'o"
  options_new :: "usize \<Rightarrow> bool"
  map_exec_mut :: "usize \<Rightarrow> usize \<Rightarrow> 'o \<Rightarrow> usize option \<times> 'o"
  unmap :: "usize \<Rightarrow> usize \<Rightarrow> 'o \<Rightarrow> 'o"
  map_from_existing :: "usize \<Rightarrow> usize \<Rightarrow> 'o \<Rightarrow> bool \<times> 'o"

fun area_ok :: "unit + memory_map_entry \<Rightarrow> memory_map_entry list" where
  "area_ok (Inl _) = []"
| "area_ok (Inr area) = [memory_map_entry_new (start_address area) (end_address area)]"

fun mmap_try_addresses ::
  "'o mmap_rs_api \<Rightarrow> buffer_allocator_settings \<Rightarrow> usize list \<Rightarrow> 'o \<Rightarrow> (string + locator_item) \<times> 'o" where
  "mmap_try_addresses api s [] st = (Inl ''Failed to allocate buffer'', st)"
| "mmap_try_addresses api s (addr # addrs) st =
     (if \<not> options_new api (ucast (bas_size s)) then (Inl ''Failed to create mmap options'', st)
      else (case map_exec_mut api addr (ucast (bas_size s)) st of
          (None, st1) \<Rightarrow> mmap_try_addresses api s addrs st1
        | (Some mapped_addr, st1) \<Rightarrow>
            if mapped_addr \<noteq> addr
            then mmap_try_addresses api s addrs (unmap api mapped_addr (ucast (bas_size s)) st1)
            else (Inr (locator_item_new mapped_addr (bas_size s)), st1)))"

definition mmap_try_allocate_buffer ::
  "build \<Rightarrow> cached \<Rightarrow> 'o mmap_rs_api \<Rightarrow> memory_map_entry \<Rightarrow> buffer_allocator_settings \<Rightarrow> 'o \<Rightarrow>
   ((string + locator_item) \<times> 'o) option" where
  "mmap_try_allocate_buffer b sys api entry s st = do {
     addrs \<leftarrow> get_possible_buffer_addresses b (bas_min_address s) (bas_max_address s)
       (start_address entry) (end_address entry) (ucast (bas_size s)) (granularity sys);
     Some (mmap_try_addresses api s addrs st)
   }"

fun mmap_try_regions ::
  "build \<Rightarrow> cached \<Rightarrow> 'o mmap_rs_api \<Rightarrow> buffer_allocator_settings \<Rightarrow> memory_map_entry list \<Rightarrow> 'o \<Rightarrow>
   (locator_item option \<times> 'o) option" where
  "mmap_try_regions b sys api s [] st = Some (None, st)"
| "mmap_try_regions b sys api s (region # regions) st =
     (if start_address region > bas_max_address s then Some (None, st)
      else do {
        (r, st1) \<leftarrow> mmap_try_allocate_buffer b sys api region s st;
        case r of
          Inr item \<Rightarrow> Some (Some item, st1)
        | Inl _ \<Rightarrow> mmap_try_regions b sys api s regions st1
      })"

fun mmap_retry ::
  "build \<Rightarrow> cached \<Rightarrow> 'o mmap_rs_api \<Rightarrow> buffer_allocator_settings \<Rightarrow> nat \<Rightarrow> 'o \<Rightarrow>
   (alloc_result \<times> 'o) option" where
  "mmap_retry b sys api s 0 st =
     Some (Inl (allocation_error_new s ''Failed to allocate buffer (mmap_rs)''), st)"
| "mmap_retry b sys api s (Suc n) st =
     (case memory_areas_open api st of
        (None, st1) \<Rightarrow> Some (Inl (allocation_error_new s
          ''Failed to Query Memory Pages via mmap-rs. Probably unsupported or lacking permissions.''), st1)
      | (Some areas, st1) \<Rightarrow>
          (let mapped_regions = concat (map area_ok areas);
               free_regions = get_free_regions sys mapped_regions
           in do {
             (r, st2) \<leftarrow> mmap_try_regions b sys api s free_regions st1;
             case r of
               Some item \<Rightarrow> Some (Inr item, st2)
             | None \<Rightarrow> mmap_retry b sys api s n st2
           }))"

definition allocate_mmap_rs ::
  "build \<Rightarrow> cached \<Rightarrow> 'o mmap_rs_api \<Rightarrow> buffer_allocator_settings \<Rightarrow> 'o \<Rightarrow> (alloc_result \<times> 'o) option" where
  "allocate_mmap_rs b sys api s st = mmap_retry b sys api s (nat (sint (bas_retry_count s))) st"

section \<open>The contract\<close>

text \<open>No mapping starts at address 0: \<open>mmap\<close> reads that address as ``anywhere''.\<close>

definition maps_nonzero :: "'o mmap_rs_api \<Rightarrow> bool" where
  "maps_nonzero api \<longleftrightarrow> (\<forall>a n st st'. map_exec_mut api a n st \<noteq> (Some 0, st'))"

lemma mmap_try_addresses_item:
  assumes "mmap_try_addresses api s addrs st = (Inr it, st')" and "maps_nonzero api"
  shows "\<exists>a \<in> set addrs. a \<noteq> 0 \<and> it = locator_item_new a (bas_size s)"
  using assms
  by (induction addrs arbitrary: st)
    (auto simp: maps_nonzero_def split: if_splits prod.splits option.splits)

lemma mmap_try_allocate_placed:
  assumes ret: "mmap_try_allocate_buffer b sys api entry s st = Some (Inr it, st')"
    and nz: "maps_nonzero api"
    and g: "granularity sys \<noteq> 0" and top: "below_top (bas_max_address s)"
  shows "placed (granularity sys) s it"
proof -
  from ret obtain addrs where
    addrs: "get_possible_buffer_addresses b (bas_min_address s) (bas_max_address s)
      (start_address entry) (end_address entry) (ucast (bas_size s)) (granularity sys) = Some addrs"
    and tried: "mmap_try_addresses api s addrs st = (Inr it, st')"
    by (auto simp: mmap_try_allocate_buffer_def Option.bind_eq_Some_conv)
  from mmap_try_addresses_item [OF tried nz] obtain a where
    a: "a \<in> set addrs" "a \<noteq> 0" "it = locator_item_new a (bas_size s)" by blast
  from get_possible_sound [OF addrs a(1) g] top show ?thesis
    unfolding a(3) by (intro placedI [OF _ a(2)]) blast
qed

lemma mmap_try_regions_placed:
  assumes "mmap_try_regions b sys api s regions st = Some (Some it, st')" and "maps_nonzero api"
    and "granularity sys \<noteq> 0" and "below_top (bas_max_address s)"
  shows "placed (granularity sys) s it"
  using assms
  by (induction regions arbitrary: st)
    (auto simp: result_cases split: if_splits intro: mmap_try_allocate_placed)

lemma mmap_retry_placed:
  assumes "mmap_retry b sys api s n st = Some (Inr it, st')" and "maps_nonzero api"
    and "granularity sys \<noteq> 0" and "below_top (bas_max_address s)"
  shows "placed (granularity sys) s it"
  using assms
  by (induction n arbitrary: st)
    (auto simp: result_cases Let_def split: prod.splits option.splits intro: mmap_try_regions_placed)

lemma mmap_retry_error:
  "mmap_retry b sys api s n st = Some (Inl e, st') \<Longrightarrow> error_for s e"
  by (induction n arbitrary: st)
    (auto simp: result_cases Let_def split: prod.splits option.splits)

interpretation mmap_allocator: allocator_contract "allocate_mmap_rs b sys api" "granularity sys"
  "maps_nonzero api"
  by unfold_locales (auto simp: allocate_mmap_rs_def intro: mmap_retry_placed mmap_retry_error)

end
