(* ===== verification/Memory_Mapped_File.thy ===== *)
theory Memory_Mapped_File
  imports Memory_Map Decimal_Text
begin

text \<open>
  The named shared memory in which the first header of a process lives:
  \<open>src-rust/src/internal/memory_mapped_file.rs\<close> with its implementations
  \<open>memory_mapped_file_unix.rs\<close> and \<open>memory_mapped_file_windows.rs\<close>.  The system calls are parameters.
\<close>

section \<open>Unix\<close>

text \<open>
  \<open>open_rdwr\<close> is \<open>open\<close> with \<open>O_RDWR\<close>, \<open>open_creat\<close> adds \<open>O_CREAT\<close> and \<open>S_IRWXU\<close>; \<open>mmap_shared length fd\<close>
  maps the whole file readable and writable; \<open>stat_dir\<close> gives \<open>None\<close> when \<open>stat\<close> fails, else whether
  the mode has \<open>S_IFDIR\<close>; \<open>kill_0 pid\<close> gives the result of signal 0 and \<open>errno\<close>.  \<open>bytes_behind\<close> gives
  the characters that follow a string's buffer in memory, up to the first NUL; \<open>itoa_u32\<close> is the
  number formatter of the crate \<open>itoa\<close>.
\<close>

record 'o unix_api =
  open_rdwr :: "string \<Rightarrow> 'o \<Rightarrow> i32 \<times> 'o"
  open_creat :: "string \<Rightarrow> 'o \<Rightarrow> i32 \<times> 'o"
  ftruncate :: "i32 \<Rightarrow> usize \<Rightarrow> 'o \<Rightarrow> 'o"
  mmap_shared :: "usize \<Rightarrow> i32 \<Rightarrow> 'o \<Rightarrow> usize \<times> 'o"
  munmap_shared :: "usize \<Rightarrow> usize \<Rightarrow> 'o \<Rightarrow> 'o"
  close_file :: "i32 \<Rightarrow> 'o \<Rightarrow> 'o"
  unlink :: "string \<Rightarrow> 'o \<Rightarrow> 'o"
  stat_dir :: "string \<Rightarrow> 'o \<Rightarrow> bool option \<times> 'o"
  mkdir :: "string \<Rightarrow> 'o \<Rightarrow> i32 \<times> 'o"
  opendir :: "string \<Rightarrow> 'o \<Rightarrow> usize \<times> 'o"
  readdir :: "usize \<Rightarrow> 'o \<Rightarrow> string option \<times> 'o"
  closedir :: "usize \<Rightarrow> 'o \<Rightarrow> 'o"
  kill_0 :: "i32 \<Rightarrow> 'o \<Rightarrow> (i32 \<times> i32) \<times> 'o"
  bytes_behind :: "string \<Rightarrow> 'o \<Rightarrow> string"
  itoa_u32 :: "u32 \<Rightarrow> string"

definition MAP_FAILED :: usize where
  "MAP_FAILED = - 1"

definition BASE_DIR :: "target \<Rightarrow> string" where
  "BASE_DIR t = (if tgt_os t \<noteq> Android then ''/tmp/.reloaded/memory.buffers''
     else ''/sdcard/.reloaded/memory.buffers'')"

text \<open>The loop of \<open>create_dir_all\<close> over the components of the path; a failure ends it.\<close>

fun create_dirs :: "'o unix_api \<Rightarrow> string \<Rightarrow> string list \<Rightarrow> 'o \<Rightarrow> 'o option" where
  "create_dirs api current_path [] st = Some st"
| "create_dirs api current_path (component # components) st =
     (if component = [] then create_dirs api current_path components st
      else (let current_path1 = current_path @ component in do {
        c_path \<leftarrow> c_string current_path1;
        let (stat_result, st1) = stat_dir api c_path st;
        case stat_result of
          None \<Rightarrow>
            (let (made, st2) = mkdir api c_path st1 in
             if made \<noteq> 0 then Some st2
             else create_dirs api (current_path1 @ ''/'') components st2)
        | Some is_dir \<Rightarrow>
            if \<not> is_dir then Some st1
            else create_dirs api (current_path1 @ ''/'') components st1
      }))"

definition create_dir_all :: "'o unix_api \<Rightarrow> string \<Rightarrow> 'o \<Rightarrow> 'o option" where
  "create_dir_all api path st = create_dirs api ''/'' (split_on (CHR ''/'') path) st"

record unix_mmf =
  um_file_descriptor :: i32
  um_already_existed :: bool
  um_data :: usize
  um_length :: usize
  um_file_path :: string

definition unix_mmf_new ::
  "target \<Rightarrow> 'o unix_api \<Rightarrow> string \<Rightarrow> usize \<Rightarrow> 'o \<Rightarrow> (unix_mmf \<times> 'o) option" where
  "unix_mmf_new t api name len st =
     (let new_name = BASE_DIR t @ name in do {
        file_name \<leftarrow> c_string new_name;
        let (fd, st1) = open_rdwr api file_name st;
        let already_existed = (fd \<noteq> - 1);
        (file_descriptor, st2) \<leftarrow>
          (if already_existed then Some (fd, st1)
           else do {
             st3 \<leftarrow> create_dir_all api (BASE_DIR t) st1;
             let (fd', st4) = open_creat api file_name st3;
             if fd' = - 1 then None else Some (fd', ftruncate api fd' len st4)
           });
        let (data, st5) = mmap_shared api len file_descriptor st2;
        if data = MAP_FAILED then None
        else Some (\<lparr>um_file_descriptor = file_descriptor, um_already_existed = already_existed,
                    um_data = data, um_length = len, um_file_path = new_name\<rparr>, st5)
      })"

text \<open>
  \<open>Drop\<close>: the path handed to \<open>unlink\<close> is a raw pointer to the string's buffer, which Rust does not
  end with a NUL.  The call sees the path and whatever follows it.
\<close>

definition unix_mmf_drop :: "'o unix_api \<Rightarrow> unix_mmf \<Rightarrow> 'o \<Rightarrow> 'o" where
  "unix_mmf_drop api m st =
     (let st1 = munmap_shared api (um_data m) (um_length m) st;
          st2 = close_file api (um_file_descriptor m) st1
      in if \<not> um_already_existed m
         then unlink api (um_file_path m @ bytes_behind api (um_file_path m) st2) st2
         else st2)"

section \<open>Windows\<close>

text \<open>A handle of 0 is no handle, an address of 0 no view.\<close>

record 'o file_mapping_api =
  OpenFileMappingA :: "string \<Rightarrow> 'o \<Rightarrow> usize \<times> 'o"
  CreateFileMappingA :: "u32 \<Rightarrow> string \<Rightarrow> 'o \<Rightarrow> usize \<times> 'o"
  MapViewOfFile :: "usize \<Rightarrow> usize \<Rightarrow> 'o \<Rightarrow> usize \<times> 'o"
  UnmapViewOfFile :: "usize \<Rightarrow> 'o \<Rightarrow> 'o"
  CloseMapHandle :: "usize \<Rightarrow> 'o \<Rightarrow> 'o"

record windows_mmf =
  wm_already_existed :: bool
  wm_data :: usize
  wm_length :: usize
  wm_map_handle :: usize

definition windows_mmf_new ::
  "'o file_mapping_api \<Rightarrow> string \<Rightarrow> usize \<Rightarrow> 'o \<Rightarrow> (windows_mmf \<times> 'o) option" where
  "windows_mmf_new api name len st = do {
     file_name \<leftarrow> c_string name;
     let (opened, st1) = OpenFileMappingA api file_name st;
     let (map_handle, already_existed, st2) =
       (if opened = 0
        then (let (created, st') = CreateFileMappingA api (ucast len) file_name st1 in (created, False, st'))
        else (opened, True, st1));
     let (data, st3) = MapViewOfFile api map_handle len st2;
     Some (\<lparr>wm_already_existed = already_existed, wm_data = data, wm_length = len,
            wm_map_handle = map_handle\<rparr>, st3)
   }"

definition windows_mmf_drop :: "'o file_mapping_api \<Rightarrow> windows_mmf \<Rightarrow> 'o \<Rightarrow> 'o" where
  "windows_mmf_drop api m st = CloseMapHandle api (wm_map_handle m) (UnmapViewOfFile api (wm_data m) st)"

section \<open>The trait\<close>

text \<open>\<open>Box<dyn MemoryMappedFile>\<close>: one of the two implementations.\<close>

datatype memory_mapped_file = Unix_Mmf unix_mmf | Windows_Mmf windows_mmf

fun already_existed :: "memory_mapped_file \<Rightarrow> bool" where
  "already_existed (Unix_Mmf m) = um_already_existed m"
| "already_existed (Windows_Mmf m) = wm_already_existed m"

fun mmf_data :: "memory_mapped_file \<Rightarrow> usize" where
  "mmf_data (Unix_Mmf m) = um_data m"
| "mmf_data (Windows_Mmf m) = wm_data m"

fun mmf_length :: "memory_mapped_file \<Rightarrow> usize" where
  "mmf_length (Unix_Mmf m) = um_length m"
| "mmf_length (Windows_Mmf m) = wm_length m"

fun mmf_drop :: "'o unix_api \<Rightarrow> 'o file_mapping_api \<Rightarrow> memory_mapped_file \<Rightarrow> 'o \<Rightarrow> 'o" where
  "mmf_drop ux wx (Unix_Mmf m) st = unix_mmf_drop ux m st"
| "mmf_drop ux wx (Windows_Mmf m) st = windows_mmf_drop wx m st"

section \<open>Facts\<close>

lemma base_dir_plain: "CHR 0x00 \<notin> set (BASE_DIR t)"
  by (simp add: BASE_DIR_def)

lemma split_on_set: "y \<in> set (split_on c xs) \<Longrightarrow> set y \<subseteq> set xs"
proof (induction xs arbitrary: y)
  case (Cons x xs)
  then show ?case by (fastforce split: if_splits list.splits)
qed simp

text \<open>A path without a NUL never makes \<open>create_dir_all\<close> panic.\<close>

lemma create_dirs_returns:
  assumes "CHR 0x00 \<notin> set path" and "\<And>c. c \<in> set components \<Longrightarrow> CHR 0x00 \<notin> set c"
  shows "\<exists>st'. create_dirs api path components st = Some st'"
  using assms
proof (induction components arbitrary: path st)
  case (Cons c cs)
  then have "CHR 0x00 \<notin> set (path @ c)" by simp
  moreover obtain r st1 where "stat_dir api (path @ c) st = (r, st1)" by fastforce
  moreover obtain made st2 where "mkdir api (path @ c) st1 = (made, st2)" by fastforce
  moreover have "\<exists>st'. create_dirs api p cs s = Some st'" if "CHR 0x00 \<notin> set p" for p s
    using Cons.IH [OF that] Cons.prems(2) by simp
  ultimately show ?case by (auto simp: c_string_def Let_def split: option.split)
qed simp

lemma create_dir_all_returns: "CHR 0x00 \<notin> set path \<Longrightarrow> \<exists>st'. create_dir_all api path st = Some st'"
  unfolding create_dir_all_def
  by (rule create_dirs_returns) (auto dest: split_on_set)

end
