(* ===== verification/Buffer_Allocator.thy ===== *)
theory Buffer_Allocator
  imports Error_Text Alloc_Linux Alloc_Windows Alloc_Osx Alloc_Mmap Memory_Mapped_File
begin

text \<open>
  The entry point \<open>allocate\<close> of \<open>src-rust/src/internal/buffer_allocator.rs\<close>: it sanitizes the
  settings and calls the allocator of the target system.
\<close>

text \<open>
  What a build of the library runs on: the compiler's settings, the cached system information and
  the foreign functions of every system.  \<open>heap_alloc size align\<close> is Rust's global allocator (0 on
  failure) and \<open>heap_dealloc address size align\<close> gives a block back; \<open>pl_all_private\<close> is the crate
  feature of that name, \<open>pl_text\<close> holds the feature \<open>no_format\<close>.
\<close>

record 'o platform =
  pl_build :: build
  pl_target :: target
  pl_all_private :: bool
  pl_text :: text_config
  pl_queries :: sys_queries
  pl_sys :: cached
  pl_linux :: "'o linux_api"
  pl_windows :: "'o windows_api"
  pl_mach :: "'o mach_api"
  pl_mmap_rs :: "'o mmap_rs_api"
  pl_code :: "'o code_api"
  pl_unix :: "'o unix_api"
  pl_file_mapping :: "'o file_mapping_api"
  pl_heap_alloc :: "usize \<Rightarrow> usize \<Rightarrow> 'o \<Rightarrow> usize \<times> 'o"
  pl_heap_dealloc :: "usize \<Rightarrow> usize \<Rightarrow> usize \<Rightarrow> 'o \<Rightarrow> 'o"

definition allocate_os ::
  "'o platform \<Rightarrow> buffer_allocator_settings \<Rightarrow> 'o \<Rightarrow> (alloc_result \<times> 'o) option" where
  "allocate_os pl s st =
     (case tgt_os (pl_target pl) of
        Windows \<Rightarrow> allocate_windows (pl_build pl) (pl_queries pl) (pl_sys pl) (pl_windows pl) s st
      | Linux \<Rightarrow> allocate_linux (pl_build pl) (pl_sys pl) (pl_linux pl) s st
      | Macos \<Rightarrow> allocate_osx (pl_build pl) (pl_target pl) (pl_sys pl) (pl_mach pl) s st
      | _ \<Rightarrow> allocate_mmap_rs (pl_build pl) (pl_sys pl) (pl_mmap_rs pl) s st)"

text \<open>The settings are a mutable reference in the source: the sanitized ones are returned as well.\<close>

definition allocate ::
  "'o platform \<Rightarrow> buffer_allocator_settings \<Rightarrow> 'o \<Rightarrow>
   (alloc_result \<times> buffer_allocator_settings \<times> 'o) option" where
  "allocate pl s st = do {
     s' \<leftarrow> sanitize (pl_build pl) (pl_target pl) (pl_sys pl) s;
     (r, st') \<leftarrow> allocate_os pl s' st;
     Some (r, s', st')
   }"

section \<open>The contract\<close>

text \<open>What the selected allocator relies on from its system.\<close>

definition honest_os :: "'o platform \<Rightarrow> bool" where
  "honest_os pl \<longleftrightarrow>
     (case tgt_os (pl_target pl) of
        Windows \<Rightarrow> True
      | Linux \<Rightarrow> True
      | Macos \<Rightarrow> fixed_allocate (pl_mach pl)
      | _ \<Rightarrow> maps_nonzero (pl_mmap_rs pl))"

interpretation os_allocator: allocator_contract "allocate_os pl" "granularity (pl_sys pl)" "honest_os pl"
proof unfold_locales
  fix s st st' it
  assume "honest_os pl" "allocate_os pl s st = Some (Inr it, st')" "granularity (pl_sys pl) \<noteq> 0"
    "below_top (bas_max_address s)"
  then show "placed (granularity (pl_sys pl)) s it"
    by (cases "tgt_os (pl_target pl)")
      (auto simp: allocate_os_def honest_os_def intro: windows_allocator.alloc_placed [OF TrueI]
        linux_allocator.alloc_placed [OF TrueI] osx_allocator.alloc_placed mmap_allocator.alloc_placed)
next
  fix s st st' e
  assume "allocate_os pl s st = Some (Inl e, st')"
  then show "error_for s e"
    by (cases "tgt_os (pl_target pl)")
      (auto simp: allocate_os_def intro: windows_allocator.alloc_error linux_allocator.alloc_error
        osx_allocator.alloc_error mmap_allocator.alloc_error)
qed

text \<open>The request an allocation can serve: its size can be rounded up in 32 bits.\<close>

definition sane_request :: "cached \<Rightarrow> u32 \<Rightarrow> usize \<Rightarrow> bool" where
  "sane_request sys sz mx \<longleftrightarrow>
     sane_sys sys \<and> unat sz + unat (granularity sys) < 2 ^ 32 \<and> below_top mx"

text \<open>
  An item from \<open>allocate\<close> answers the request as the caller made it: at least the size asked for,
  inside the range asked for, well formed, empty and free.
\<close>

definition serves_request :: "u32 \<Rightarrow> usize \<Rightarrow> usize \<Rightarrow> locator_item \<Rightarrow> bool" where
  "serves_request sz mn mx it \<longleftrightarrow>
     wf_item it \<and> li_base_address it \<noteq> 0 \<and> unat sz \<le> free_bytes it \<and> mn \<le> next_address it \<and>
     unat (li_base_address it) + unat (li_size it) \<le> unat mx"

lemma allocate_fresh:
  assumes ok: "allocate pl s st = Some (Inr it, s', st')" and honest: "honest_os pl"
    and req: "sane_request (pl_sys pl) (bas_size s) (bas_max_address s)"
  shows "serves_request (bas_size s) (bas_min_address s) (bas_max_address s) it"
    and "li_position it = 0" and "li_is_taken it = 0"
    and "unat (granularity (pl_sys pl)) dvd unat (li_base_address it)"
    and "unat (granularity (pl_sys pl)) dvd unat (li_size it)"
    and "unat (li_size it) < max (unat (bas_size s)) 1 + unat (granularity (pl_sys pl))"
proof -
  from req have sys: "sane_sys (pl_sys pl)"
    and fits: "unat (bas_size s) + unat (granularity (pl_sys pl)) < 2 ^ 32"
    and top: "below_top (bas_max_address s)" by (simp_all add: sane_request_def)
  from ok obtain s1 where s1: "sanitize (pl_build pl) (pl_target pl) (pl_sys pl) s = Some s1"
    and os: "allocate_os pl s1 st = Some (Inr it, st')"
    by (auto simp: allocate_def result_cases)
  obtain s2 where s2: "sanitize (pl_build pl) (pl_target pl) (pl_sys pl) s = Some s2"
    and san: "unat (granularity (pl_sys pl)) dvd unat (bas_size s2)"
    "bas_size s \<le> bas_size s2" "bas_min_address s \<le> bas_min_address s2"
    "bas_max_address s2 = bas_max_address s"
    "unat (bas_size s2) < max (unat (bas_size s)) 1 + unat (granularity (pl_sys pl))"
    by (rule sanitize_sound [OF sys fits])
  from s1 s2 have [simp]: "s2 = s1" by simp
  note g = sane_granularity(1) [OF sys]
  have top1: "below_top (bas_max_address s1)" using top san(4) by simp
  have p: "placed (granularity (pl_sys pl)) s1 it" by (rule os_allocator.alloc_placed [OF honest os g top1])
  note f = os_allocator.fresh_item [OF honest os g top1]
  from p show "li_position it = 0" "li_is_taken it = 0"
    "unat (granularity (pl_sys pl)) dvd unat (li_base_address it)"
    "unat (granularity (pl_sys pl)) dvd unat (li_size it)"
    "unat (li_size it) < max (unat (bas_size s)) 1 + unat (granularity (pl_sys pl))"
    using san(1,5) by (simp_all add: placed_def)
  show "serves_request (bas_size s) (bas_min_address s) (bas_max_address s) it"
    using p f san by (auto simp: serves_request_def placed_def next_address_def word_le_nat_alt)
qed

end
