(* ===== verification/Locator_Header.thy ===== *)
theory Locator_Header
  imports Buffer_Allocator
begin

text \<open>
  \<open>LocatorHeader\<close> of \<open>src-rust/src/structs/internal/locator_header.rs\<close>: a page that starts with a
  lock, a link to the next header and a count, followed by the slots of the items it registers.
\<close>

unbundle bit_operations_syntax

section \<open>Data\<close>

text \<open>The constant \<open>LENGTH\<close> of the source.\<close>

definition HEADER_LENGTH :: usize where
  "HEADER_LENGTH = 4096"

definition LENGTH_OF_PREALLOCATED_CHUNKS :: u32 where
  "LENGTH_OF_PREALLOCATED_CHUNKS = 16384"

text \<open>The sizes of \<open>LocatorHeader\<close> and \<open>LocatorItem\<close> on a 64-bit target.\<close>

definition size_of_LocatorHeader :: usize where
  "size_of_LocatorHeader = of_nat (ly_size (repr_c (LocatorHeader_fields 8)))"

definition size_of_LocatorItem :: usize where
  "size_of_LocatorItem = of_nat (ly_size (repr_c (LocatorItem_fields 8)))"

lemma size_of [simp]: "size_of_LocatorHeader = 24" "size_of_LocatorItem = 20"
  by (simp_all add: size_of_LocatorHeader_def size_of_LocatorItem_def header_layout item_layout)

definition MAX_ITEM_COUNT :: u32 where
  "MAX_ITEM_COUNT = ucast ((HEADER_LENGTH - size_of_LocatorHeader) div size_of_LocatorItem)"

text \<open>
  The header with the slots behind it.  There are \<open>MAX_ITEM_COUNT\<close> of them in the page; the first
  \<open>num_items\<close> hold registered items, the others whatever the memory held.
\<close>

record locator_header =
  lh_this_address :: usize
  lh_next_locator_ptr :: usize
  lh_is_locked :: i32
  lh_flags :: u8
  lh_num_items :: u8
  lh_items :: "locator_item list"

text \<open>
  The state the library works on: the bytes and the operating system of the process, and the
  memory at each address read as a header.
\<close>

record 'o world =
  w_headers :: "usize \<Rightarrow> locator_header"
  w_machine :: "'o machine"

abbreviation put_header :: "usize \<Rightarrow> locator_header \<Rightarrow> 'o world \<Rightarrow> 'o world" where
  "put_header h hdr w \<equiv> w\<lparr>w_headers := (w_headers w)(h := hdr)\<rparr>"

abbreviation w_os :: "'o world \<Rightarrow> 'o" where
  "w_os w \<equiv> os (w_machine w)"

abbreviation put_os :: "'o \<Rightarrow> 'o world \<Rightarrow> 'o world" where
  "put_os st w \<equiv> w\<lparr>w_machine := (w_machine w)\<lparr>os := st\<rparr>\<rparr>"

text \<open>A pointer to a slot: the header and the index \<open>get_item\<close> was called with.\<close>

datatype item_ptr = Item_Ptr (ip_header: usize) (ip_index: nat)

definition get_first_item :: "usize \<Rightarrow> usize" where
  "get_first_item self = self + size_of_LocatorHeader"

definition get_item :: "usize \<Rightarrow> usize \<Rightarrow> usize" where
  "get_item self index = get_first_item self + index * size_of_LocatorItem"

definition item_ptr_address :: "item_ptr \<Rightarrow> usize" where
  "item_ptr_address p = get_item (ip_header p) (of_nat (ip_index p))"

definition item_at :: "'o world \<Rightarrow> item_ptr \<Rightarrow> locator_item" where
  "item_at w p = lh_items (w_headers w (ip_header p)) ! ip_index p"

definition put_item :: "item_ptr \<Rightarrow> locator_item \<Rightarrow> 'o world \<Rightarrow> 'o world" where
  "put_item p it w = (let hdr = w_headers w (ip_header p)
     in put_header (ip_header p) (hdr\<lparr>lh_items := (lh_items hdr)[ip_index p := it]\<rparr>) w)"

text \<open>Writing a slot; outside the page it is out of bounds (\<open>None\<close>).\<close>

definition set_slot :: "nat \<Rightarrow> locator_item \<Rightarrow> locator_item list \<Rightarrow> locator_item list option" where
  "set_slot i it items = (if i < length items then Some (items[i := it]) else None)"

section \<open>Initialization\<close>

definition set_default_values :: "usize \<Rightarrow> locator_header \<Rightarrow> locator_header" where
  "set_default_values self hdr =
     hdr\<lparr>lh_this_address := self, lh_next_locator_ptr := 0, lh_is_locked := 0, lh_flags := 0,
        lh_num_items := 0\<rparr>"

text \<open>The \<open>while\<close> loop: \<open>i\<close> is the distance of \<open>current_item\<close> from the first item.\<close>

function fill_buffers ::
  "build \<Rightarrow> usize \<Rightarrow> u32 \<Rightarrow> nat \<Rightarrow> u8 \<Rightarrow> locator_item list \<Rightarrow> (u8 \<times> locator_item list) option" where
  "fill_buffers b buffer_address remaining_bytes i num_items items =
     (if remaining_bytes > 0
      then (let this_length = min LENGTH_OF_PREALLOCATED_CHUNKS remaining_bytes in do {
        items' \<leftarrow> set_slot i (locator_item_new buffer_address this_length) items;
        let remaining_bytes' = remaining_bytes - this_length;
        num_items' \<leftarrow> wadd b num_items 1;
        fill_buffers b buffer_address remaining_bytes' (Suc i) num_items' items'
      })
      else Some (num_items, items))"
  by pat_completeness auto

lemma fill_step_less:
  assumes "(0 :: u32) < r"
  shows "unat (r - min LENGTH_OF_PREALLOCATED_CHUNKS r) = unat r - min 16384 (unat r)"
    and "unat (min LENGTH_OF_PREALLOCATED_CHUNKS r) = min 16384 (unat r)"
proof -
  show m: "unat (min LENGTH_OF_PREALLOCATED_CHUNKS r) = min 16384 (unat r)"
    by (simp add: min_def LENGTH_OF_PREALLOCATED_CHUNKS_def word_le_nat_alt)
  have "min LENGTH_OF_PREALLOCATED_CHUNKS r \<le> r" by simp
  then show "unat (r - min LENGTH_OF_PREALLOCATED_CHUNKS r) = unat r - min 16384 (unat r)"
    by (simp add: unat_sub m)
qed

termination fill_buffers
proof (relation "measure (\<lambda>(_, _, remaining_bytes, _, _, _). unat remaining_bytes)", goal_cases)
  case (2 b a r i n items m items' r' n')
  then have "0 < unat r" by (simp add: word_less_nat_alt)
  with 2 fill_step_less(1) [of r] show ?case by simp
qed simp

declare fill_buffers.simps [simp del]

definition initialize_remaining_space_as_buffers ::
  "build \<Rightarrow> locator_header \<Rightarrow> u32 \<Rightarrow> locator_header option" where
  "initialize_remaining_space_as_buffers b hdr remaining_bytes =
     (let buffer_address = lh_this_address hdr + HEADER_LENGTH in do {
        (num_items, items) \<leftarrow> fill_buffers b buffer_address remaining_bytes 0 0 (lh_items hdr);
        Some (hdr\<lparr>lh_items := items, lh_num_items := num_items\<rparr>)
      })"

function initialize_remaining_space_as_headers :: "usize \<Rightarrow> u32 \<Rightarrow> 'o world \<Rightarrow> 'o world" where
  "initialize_remaining_space_as_headers current_header remaining_bytes w =
     (if remaining_bytes \<ge> ucast HEADER_LENGTH
      then (let next_header = current_header + HEADER_LENGTH;
                w1 = put_header next_header (set_default_values next_header (w_headers w next_header)) w;
                w2 = put_header current_header
                  ((w_headers w1 current_header)\<lparr>lh_next_locator_ptr := next_header\<rparr>) w1
            in initialize_remaining_space_as_headers next_header (remaining_bytes - ucast HEADER_LENGTH) w2)
      else w)"
  by pat_completeness auto

termination initialize_remaining_space_as_headers
proof (relation "measure (\<lambda>(_, remaining_bytes, _). unat remaining_bytes)", goal_cases)
  case (2 h r w)
  then have "ucast HEADER_LENGTH \<le> r" by simp
  then show ?case by (simp add: HEADER_LENGTH_def unat_sub word_le_nat_alt)
qed simp

declare initialize_remaining_space_as_headers.simps [simp del]

definition initialize :: "'o platform \<Rightarrow> usize \<Rightarrow> usize \<Rightarrow> 'o world \<Rightarrow> 'o world option" where
  "initialize pl self len w =
     (let w1 = put_header self (set_default_values self (w_headers w self)) w in do {
        remaining \<leftarrow> wsub (pl_build pl) len HEADER_LENGTH;
        let remaining_bytes = ucast remaining;
        if cfg_macos_aarch64 (pl_target pl)
        then Some (initialize_remaining_space_as_headers self remaining_bytes w1)
        else do {
          hdr \<leftarrow> initialize_remaining_space_as_buffers (pl_build pl) (w_headers w1 self) remaining_bytes;
          Some (put_header self hdr w1)
        }
      })"

section \<open>Flags and fields\<close>

definition version :: "locator_header \<Rightarrow> u8" where
  "version hdr = lh_flags hdr AND 0x07"

definition set_version :: "u8 \<Rightarrow> locator_header \<Rightarrow> locator_header" where
  "set_version v hdr = hdr\<lparr>lh_flags := (lh_flags hdr AND 0xF8) OR (v AND 0x07)\<rparr>"

definition has_next_locator :: "locator_header \<Rightarrow> bool" where
  "has_next_locator hdr \<longleftrightarrow> lh_next_locator_ptr hdr \<noteq> 0"

definition is_full :: "locator_header \<Rightarrow> bool" where
  "is_full hdr \<longleftrightarrow> (ucast (lh_num_items hdr) :: usize) \<ge> ucast MAX_ITEM_COUNT"

section \<open>The lock of a header\<close>

text \<open>\<open>compare_exchange(0, 1)\<close>, and \<open>swap(0)\<close> with a debug assertion on the old value.\<close>

definition header_try_lock :: "locator_header \<Rightarrow> bool \<times> locator_header" where
  "header_try_lock hdr =
     (if lh_is_locked hdr = 0 then (True, hdr\<lparr>lh_is_locked := 1\<rparr>) else (False, hdr))"

definition header_unlock :: "build \<Rightarrow> locator_header \<Rightarrow> locator_header option" where
  "header_unlock b hdr =
     (let original = lh_is_locked hdr; hdr' = hdr\<lparr>lh_is_locked := 0\<rparr>
      in if b = Debug \<and> original = 0 then None else Some hdr')"

text \<open>The same on the header at an address of the shared state.\<close>

definition try_lock_at :: "usize \<Rightarrow> 'o world \<Rightarrow> bool \<times> 'o world" where
  "try_lock_at self w = (let (ok, hdr) = header_try_lock (w_headers w self) in (ok, put_header self hdr w))"

definition lock_at :: "('o world \<Rightarrow> 'o world) \<Rightarrow> usize \<Rightarrow> 'o world \<Rightarrow> 'o world option" where
  "lock_at yield self w = spin_lock (try_lock_at self) yield w"

definition unlock_at :: "build \<Rightarrow> usize \<Rightarrow> 'o world \<Rightarrow> 'o world option" where
  "unlock_at b self w = do {
     hdr \<leftarrow> header_unlock b (w_headers w self);
     Some (put_header self hdr w)
   }"

interpretation header_lock: try_lock_contract header_try_lock "header_unlock b"
  "\<lambda>hdr. lh_is_locked hdr \<noteq> 0"
  by unfold_locales (auto simp: header_try_lock_def header_unlock_def)

interpretation lock_at: try_lock_contract "try_lock_at self" "unlock_at b self"
  "\<lambda>w. lh_is_locked (w_headers w self) \<noteq> 0"
  by unfold_locales (auto simp: try_lock_at_def header_try_lock_def unlock_at_def header_unlock_def)

section \<open>Finding a registered item\<close>

text \<open>
  The loop of \<open>get_first_available_item_locked\<close> over the slots that were registered when it started:
  the index of the item it locked, and the slots afterwards.
\<close>

fun first_available ::
  "build \<Rightarrow> u32 \<Rightarrow> usize \<Rightarrow> usize \<Rightarrow> locator_item list \<Rightarrow> (nat option \<times> locator_item list) option" where
  "first_available b sz min_address max_address [] = Some (None, [])"
| "first_available b sz min_address max_address (item # items) = do {
     usable \<leftarrow> can_use b item sz min_address max_address;
     let (locked, item') = (if usable then item_try_lock item else (False, item));
     if locked then Some (Some 0, item' # items)
     else do {
       (found, items') \<leftarrow> first_available b sz min_address max_address items;
       Some (map_option Suc found, item' # items')
     }
   }"

definition get_first_available_item_locked ::
  "'o platform \<Rightarrow> usize \<Rightarrow> u32 \<Rightarrow> usize \<Rightarrow> usize \<Rightarrow> 'o world \<Rightarrow> (item_ptr option \<times> 'o world) option" where
  "get_first_available_item_locked pl self sz min_address max_address w =
     (let hdr = w_headers w self; n = unat (lh_num_items hdr) in do {
        (found, items) \<leftarrow>
          first_available (pl_build pl) sz min_address max_address (take n (lh_items hdr));
        Some (map_option (Item_Ptr self) found,
              put_header self (hdr\<lparr>lh_items := items @ drop n (lh_items hdr)\<rparr>) w)
      })"

section \<open>Registering a new item\<close>

definition try_allocate_item ::
  "'o platform \<Rightarrow> ('o world \<Rightarrow> 'o world) \<Rightarrow> usize \<Rightarrow> u32 \<Rightarrow> usize \<Rightarrow> usize \<Rightarrow> 'o world \<Rightarrow>
   ((item_allocation_error + item_ptr) \<times> 'o world) option" where
  "try_allocate_item pl yield self sz min_address max_address w =
     (if is_full (w_headers w self) then Some (Inl NoSpaceInHeader, w)
      else do {
        w1 \<leftarrow> lock_at yield self w;
        if is_full (w_headers w1 self)
        then do {
          w2 \<leftarrow> unlock_at (pl_build pl) self w1;
          Some (Inl NoSpaceInHeader, w2)
        }
        else do {
          let settings = (allocator_settings_new (pl_sys pl))
            \<lparr>bas_min_address := min_address, bas_max_address := max_address, bas_size := sz\<rparr>;
          (result, _, st) \<leftarrow> allocate pl settings (w_os w1);
          let w2 = put_os st w1;
          case result of
            Inr allocated_memory \<Rightarrow> do {
              locked \<leftarrow> item_lock (\<lambda>it. it) allocated_memory;
              let hdr = w_headers w2 self;
              let index = unat (lh_num_items hdr);
              items \<leftarrow> set_slot index locked (lh_items hdr);
              num_items \<leftarrow> wadd (pl_build pl) (lh_num_items hdr) 1;
              let w3 = put_header self (hdr\<lparr>lh_items := items, lh_num_items := num_items\<rparr>) w2;
              w4 \<leftarrow> unlock_at (pl_build pl) self w3;
              Some (Inr (Item_Ptr self index), w4)
            }
          | Inl _ \<Rightarrow> do {
              w3 \<leftarrow> unlock_at (pl_build pl) self w2;
              Some (Inl CannotAllocateMemory, w3)
            }
        }
      })"

section \<open>The next header\<close>

text \<open>\<open>Layout::from_size_align(size, align)\<close> is an error, and the \<open>unwrap\<close> panics, in the other cases.\<close>

definition layout_ok :: "usize \<Rightarrow> usize \<Rightarrow> bool" where
  "layout_ok sz align \<longleftrightarrow> align \<noteq> 0 \<and> align AND (align - 1) = 0 \<and> unat sz + unat align \<le> 2 ^ 63"

definition get_next_locator ::
  "'o platform \<Rightarrow> ('o world \<Rightarrow> 'o world) \<Rightarrow> usize \<Rightarrow> 'o world \<Rightarrow> ((string + usize) \<times> 'o world) option" where
  "get_next_locator pl yield self w =
     (if has_next_locator (w_headers w self)
      then Some (Inr (lh_next_locator_ptr (w_headers w self)), w)
      else do {
        w1 \<leftarrow> lock_at yield self w;
        if has_next_locator (w_headers w1 self)
        then do {
          w2 \<leftarrow> unlock_at (pl_build pl) self w1;
          Some (Inr (lh_next_locator_ptr (w_headers w2 self)), w2)
        }
        else do {
          let alloc_size = granularity (pl_sys pl);
          let align = ucast (ci_page_size (pl_sys pl));
          if \<not> layout_ok alloc_size align then None
          else do {
            let (addr, st) = pl_heap_alloc pl alloc_size align (w_os w1);
            let w2 = put_os st w1;
            if addr = 0
            then do {
              w3 \<leftarrow> unlock_at (pl_build pl) self w2;
              Some (Inl ''Failed to allocate memory for LocatorHeader. Is this process out of memory?'', w3)
            }
            else do {
              let w3 = put_header self ((w_headers w2 self)\<lparr>lh_next_locator_ptr := addr\<rparr>) w2;
              w4 \<leftarrow> initialize pl addr alloc_size w3;
              w5 \<leftarrow> unlock_at (pl_build pl) self w4;
              Some (Inr (lh_next_locator_ptr (w_headers w5 self)), w5)
            }
          }
        }
      })"

end
