(* ===== verification/Header_Facts.thy ===== *)
theory Header_Facts
  imports Locator_Header
begin

text \<open>
  What the operations of \<open>LocatorHeader\<close> do: the page layout, the invariant of a header, and the
  behaviour of initialization, search and registration on every branch.
\<close>

section \<open>The page layout\<close>

lemma max_item_count [simp]: "MAX_ITEM_COUNT = 203"
  by (simp add: MAX_ITEM_COUNT_def HEADER_LENGTH_def)

lemma is_full_iff: "is_full hdr \<longleftrightarrow> 203 \<le> unat (lh_num_items hdr)"
  by (simp add: is_full_def word_le_nat_alt)

text \<open>The slots of a header lie in its page and do not overlap.\<close>

lemma slot_address:
  assumes "unat h + 4096 \<le> 2 ^ 64" and "i < 203"
  shows "unat (get_item h (of_nat i)) = unat h + 24 + 20 * i"
proof -
  have i: "unat (of_nat i :: usize) = i" using assms(2) by (intro unat_of_nat_usize) simp
  have m: "unat (of_nat i * 20 :: usize) = 20 * i"
    using assms(2) by (simp add: unat_word_ariths i)
  have "unat (h + 24) = unat h + 24" using assms(1) by (subst unat_add_small) simp_all
  then show ?thesis
    using assms m unfolding get_item_def get_first_item_def size_of
    by (subst unat_add_small) simp_all
qed

section \<open>The invariant of a header\<close>

text \<open>
  All slots are there, no more items are registered than there are slots, and every registered
  item is well formed with a lock that is free or taken.
\<close>

definition wf_slot :: "locator_item \<Rightarrow> bool" where
  "wf_slot it \<longleftrightarrow> wf_item it \<and> (li_is_taken it = 0 \<or> li_is_taken it = 1)"

definition wf_header :: "locator_header \<Rightarrow> bool" where
  "wf_header hdr \<longleftrightarrow> length (lh_items hdr) = 203 \<and> unat (lh_num_items hdr) \<le> 203 \<and>
     list_all wf_slot (take (unat (lh_num_items hdr)) (lh_items hdr))"

lemma wf_header_slot:
  "wf_header hdr \<Longrightarrow> i < unat (lh_num_items hdr) \<Longrightarrow> wf_slot (lh_items hdr ! i)"
  by (simp add: wf_header_def list_all_length)

lemma wf_header_lock [simp]:
  "wf_header (hdr\<lparr>lh_is_locked := x\<rparr>) = wf_header hdr"
  "wf_header (hdr\<lparr>lh_next_locator_ptr := y\<rparr>) = wf_header hdr"
  by (simp_all add: wf_header_def)

lemma wf_default: "length (lh_items hdr) = 203 \<Longrightarrow> wf_header (set_default_values h hdr)"
  by (simp add: wf_header_def set_default_values_def)

section \<open>Initialization\<close>

text \<open>The number of chunks that cover \<open>r\<close> bytes and the length of the \<open>j\<close>th.\<close>

definition chunks :: "nat \<Rightarrow> nat" where
  "chunks r = (r + 16383) div 16384"

definition chunk_length :: "nat \<Rightarrow> nat \<Rightarrow> nat" where
  "chunk_length r j = min 16384 (r - 16384 * j)"

lemma chunks_simps: "chunks 0 = 0" "0 < r \<Longrightarrow> chunks r = Suc (chunks (r - min 16384 r))"
proof -
  show "chunks 0 = 0" by (simp add: chunks_def)
  assume "0 < r"
  then show "chunks r = Suc (chunks (r - min 16384 r))"
  proof (cases "16384 \<le> r")
    case True
    then obtain k where k: "r = 16384 + k" using le_Suc_ex by blast
    have "(k + 16383 + 16384) div 16384 = (k + 16383) div 16384 + (1 :: nat)"
      by (rule div_add_self2) simp
    then show ?thesis by (simp add: chunks_def k add.commute [of _ k])
  next
    case False
    with \<open>0 < r\<close> have "(r + 16383) div 16384 = 1" by (intro div_nat_eqI) simp_all
    with False show ?thesis by (simp add: chunks_def)
  qed
qed

lemma chunk_length_shift: "chunk_length (r - min 16384 r) j = chunk_length r (Suc j)"
  by (auto simp: chunk_length_def min_def)

text \<open>The slots \<open>fill_buffers\<close> leaves: those from \<open>i\<close> on hold one item per chunk, at the same base.\<close>

definition filled :: "usize \<Rightarrow> nat \<Rightarrow> nat \<Rightarrow> locator_item list \<Rightarrow> locator_item list" where
  "filled a r i items =
     take i items @ map (\<lambda>j. locator_item_new a (of_nat (chunk_length r j))) [0..<chunks r]
       @ drop (i + chunks r) items"

lemma length_filled: "i + chunks r \<le> length items \<Longrightarrow> length (filled a r i items) = length items"
  by (simp add: filled_def)

lemma filled_Suc:
  assumes "0 < r" and "i + chunks r \<le> length items"
  shows "filled a (r - min 16384 r) (Suc i) (items[i := locator_item_new a (of_nat (min 16384 r))])
    = filled a r i items"
proof -
  have i: "i < length items" using assms by (simp add: chunks_simps(2))
  have c: "chunk_length r 0 = min 16384 r" by (simp add: chunk_length_def)
  have "[0..<chunks r] = 0 # map Suc [0..<chunks (r - min 16384 r)]"
    using assms(1) by (simp add: chunks_simps(2) upt_conv_Cons map_Suc_upt del: upt_Suc)
  moreover have "take (Suc i) (items[i := x]) = take i items @ [x]" for x
    using i by (simp add: take_Suc_conv_app_nth)
  moreover have "drop (Suc i + chunks (r - min 16384 r)) (items[i := x]) = drop (i + chunks r) items" for x
    using assms(1) by (simp add: chunks_simps(2))
  ultimately show ?thesis by (simp add: filled_def c chunk_length_shift comp_def)
qed

lemma fill_buffers_spec:
  assumes "i + chunks (unat r) \<le> length items" "length items \<le> 203" "unat n = i"
  shows "fill_buffers b a r i n items
    = Some (of_nat (i + chunks (unat r)), filled a (unat r) i items)"
  using assms
proof (induction "unat r" arbitrary: r i n items rule: less_induct)
  case less
  show ?case
  proof (cases "r = 0")
    case True
    moreover have "n = of_nat i" using less.prems(3) by auto
    ultimately show ?thesis
      by (subst fill_buffers.simps) (simp add: chunks_simps filled_def)
  next
    case False
    then have pos: "0 < r" "0 < unat r" by (simp_all add: word_gt_0 unat_gt_0)
    let ?len = "min LENGTH_OF_PREALLOCATED_CHUNKS r"
    note len = fill_step_less [OF pos(1)]
    have c: "chunks (unat r) = Suc (chunks (unat (r - ?len)))" using pos(2) len(1) chunks_simps(2) by simp
    let ?items = "items[i := locator_item_new a ?len]"
    have slot: "set_slot i (locator_item_new a ?len) items = Some ?items"
      using less.prems(1) c by (simp add: set_slot_def)
    have n: "unat n + 1 < 256" using less.prems c by simp
    then have add: "wadd b n 1 = Some (n + 1)" "unat (n + 1) = Suc i"
      using less.prems(3) by (simp_all add: arith_ok unat_add_small)
    have "unat (r - ?len) < unat r" using len(1) pos by simp
    moreover have "Suc i + chunks (unat (r - ?len)) \<le> length ?items" using less.prems(1) c by simp
    ultimately have "fill_buffers b a (r - ?len) (Suc i) (n + 1) ?items
        = Some (of_nat (i + chunks (unat r)), filled a (unat (r - ?len)) (Suc i) ?items)"
      using less.hyps less.prems(2) add(2) c by simp
    moreover have "?len = of_nat (min 16384 (unat r))" by (simp flip: len(2))
    ultimately have rec: "fill_buffers b a (r - ?len) (Suc i) (n + 1) ?items
        = Some (of_nat (i + chunks (unat r)), filled a (unat r) i items)"
      using filled_Suc [OF pos(2) less.prems(1), of a] len(1) by simp
    show ?thesis
      by (subst fill_buffers.simps) (simp only: pos(1) if_True Let_def slot add(1) rec bind.bind_lunit)
  qed
qed

text \<open>A header initialized with its rest as buffers.\<close>

definition fresh_header :: "usize \<Rightarrow> nat \<Rightarrow> locator_item list \<Rightarrow> locator_header" where
  "fresh_header h len items =
     \<lparr>lh_this_address = h, lh_next_locator_ptr = 0, lh_is_locked = 0, lh_flags = 0,
      lh_num_items = of_nat (chunks (len - 4096)),
      lh_items = filled (h + HEADER_LENGTH) (len - 4096) 0 items\<rparr>"

lemma chunks_le:
  assumes "len \<le> 4096 + 203 * 16384"
  shows "chunks (len - 4096) \<le> 203"
proof -
  have "len - 4096 + 16383 < 204 * 16384" using assms by simp
  then have "chunks (len - 4096) < 204" unfolding chunks_def by (rule less_mult_imp_div_less)
  then show ?thesis by simp
qed

lemma buffers_default:
  assumes len: "4096 \<le> unat len" "unat len \<le> 4096 + 203 * 16384" and "length (lh_items hdr) = 203"
  shows "wsub b len HEADER_LENGTH = Some (len - HEADER_LENGTH)"
    and "initialize_remaining_space_as_buffers b (set_default_values h hdr) (ucast (len - HEADER_LENGTH))
      = Some (fresh_header h (unat len) (lh_items hdr))"
proof -
  have le: "HEADER_LENGTH \<le> len" using len(1) by (simp add: HEADER_LENGTH_def word_le_nat_alt)
  then show "wsub b len HEADER_LENGTH = Some (len - HEADER_LENGTH)" by (simp add: arith_ok)
  have "unat (len - HEADER_LENGTH) = unat len - 4096"
    using le by (simp add: unat_sub HEADER_LENGTH_def)
  then have rem: "unat (ucast (len - HEADER_LENGTH) :: u32) = unat len - 4096"
    using len(2) by (simp add: unat_usize_to_u32)
  have "fill_buffers b (h + HEADER_LENGTH) (ucast (len - HEADER_LENGTH)) 0 0 (lh_items hdr)
      = Some (of_nat (chunks (unat len - 4096)), filled (h + HEADER_LENGTH) (unat len - 4096) 0 (lh_items hdr))"
    using fill_buffers_spec [of 0 "ucast (len - HEADER_LENGTH)" "lh_items hdr" 0] rem assms(3)
      chunks_le [OF len(2)] by simp
  then show "initialize_remaining_space_as_buffers b (set_default_values h hdr) (ucast (len - HEADER_LENGTH))
      = Some (fresh_header h (unat len) (lh_items hdr))"
    by (cases hdr) (simp add: initialize_remaining_space_as_buffers_def set_default_values_def fresh_header_def Let_def)
qed

lemma initialize_buffers:
  assumes "\<not> cfg_macos_aarch64 (pl_target pl)"
    and len: "4096 \<le> unat len" "unat len \<le> 4096 + 203 * 16384"
    and "length (lh_items (w_headers w h)) = 203"
  shows "initialize pl h len w
    = Some (put_header h (fresh_header h (unat len) (lh_items (w_headers w h))) w)"
  using assms(1) buffers_default [OF assms(2-4)] by (auto simp: initialize_def Let_def)

lemma fresh_header_slot:
  assumes "j < chunks (len - 4096)"
  shows "lh_items (fresh_header h len items) ! j
    = locator_item_new (h + HEADER_LENGTH) (of_nat (chunk_length (len - 4096) j))"
  using assms by (simp add: fresh_header_def filled_def nth_append)

lemma wf_fresh_header:
  assumes len: "len \<le> 4096 + 203 * 16384" and items: "length items = 203"
    and mem: "unat h + max len 4096 < 2 ^ 64"
  shows "wf_header (fresh_header h len items)"
proof -
  note le = chunks_le [OF len]
  have n: "unat (lh_num_items (fresh_header h len items)) = chunks (len - 4096)"
    using le by (simp add: fresh_header_def unat_of_nat)
  have base: "unat (h + HEADER_LENGTH) = unat h + 4096"
    using mem by (subst unat_add_small) (simp_all add: HEADER_LENGTH_def)
  have "wf_slot (lh_items (fresh_header h len items) ! j)" if j: "j < chunks (len - 4096)" for j
  proof -
    have "chunk_length (len - 4096) j \<le> 16384" "chunk_length (len - 4096) j \<le> len - 4096"
      by (simp_all add: chunk_length_def)
    then have "unat (of_nat (chunk_length (len - 4096) j) :: u32) \<le> len - 4096"
      by (simp add: unat_of_nat_u32)
    then show ?thesis using mem base by (simp add: fresh_header_slot [OF j] wf_slot_def wf_item_def)
  qed
  moreover have "length (lh_items (fresh_header h len items)) = 203"
    using le items by (simp add: fresh_header_def length_filled)
  ultimately show ?thesis using le n by (simp add: wf_header_def list_all_length)
qed

end
