(* ===== verification/Header_Chain.thy ===== *)
theory Header_Chain
  imports Header_Facts
begin

text \<open>
  The chain of headers as a whole: its invariant, kept by every operation, and the item an operation
  hands out.
\<close>

section \<open>The invariant of the chain\<close>

text \<open>
  A set of headers that are well formed and closed under the link to the next one.  Memory read as a
  header always shows the slots of one page.
\<close>

definition headers_ok :: "usize set \<Rightarrow> 'o world \<Rightarrow> bool" where
  "headers_ok H w \<longleftrightarrow> (\<forall>a. length (lh_items (w_headers w a)) = 203) \<and>
     (\<forall>h\<in>H. wf_header (w_headers w h) \<and>
        (has_next_locator (w_headers w h) \<longrightarrow> lh_next_locator_ptr (w_headers w h) \<in> H))"

text \<open>
  The headers of a chain lie in memory in use.  \<open>used\<close> gives the addresses of the heap blocks and
  mappings in use in a state of the operating system; it appears in the hypotheses about the heap only.
\<close>

definition chain_ok :: "('o \<Rightarrow> usize set) \<Rightarrow> usize set \<Rightarrow> 'o world \<Rightarrow> bool" where
  "chain_ok used H w \<longleftrightarrow> (\<exists>H'. H \<subseteq> H' \<and> H' \<subseteq> used (w_os w) \<and> 0 \<notin> H' \<and> headers_ok H' w)"

text \<open>What other threads do keeps the invariant.\<close>

definition yield_ok :: "('o \<Rightarrow> usize set) \<Rightarrow> ('o world \<Rightarrow> 'o world) \<Rightarrow> bool" where
  "yield_ok used yield \<longleftrightarrow> (\<forall>H w. chain_ok used H w \<longrightarrow> chain_ok used H (yield w))"

text \<open>
  The heap hands out blocks that lie in the address space and were not in use, and no other system
  call of the library takes memory out of use.
\<close>

definition heap_ok :: "'o platform \<Rightarrow> ('o \<Rightarrow> usize set) \<Rightarrow> bool" where
  "heap_ok pl used \<longleftrightarrow>
     (\<forall>n al st a st'. pl_heap_alloc pl n al st = (a, st') \<longrightarrow>
        used st \<subseteq> used st' \<and>
        (a \<noteq> 0 \<longrightarrow> unat a + unat n < 2 ^ 64 \<and>
          (\<forall>x. unat a \<le> unat x \<and> unat x < unat a + unat n \<longrightarrow> x \<notin> used st \<and> x \<in> used st'))) \<and>
     (\<forall>s st r s' st'. allocate pl s st = Some (r, s', st') \<longrightarrow> used st \<subseteq> used st')"

lemma heap_okD:
  assumes "heap_ok pl used" and "pl_heap_alloc pl n al st = (a, st')"
  shows "used st \<subseteq> used st'" and "a \<noteq> 0 \<Longrightarrow> unat a + unat n < 2 ^ 64"
    and "a \<noteq> 0 \<Longrightarrow> unat a \<le> unat x \<Longrightarrow> unat x < unat a + unat n \<Longrightarrow> x \<notin> used st"
    and "a \<noteq> 0 \<Longrightarrow> unat a \<le> unat x \<Longrightarrow> unat x < unat a + unat n \<Longrightarrow> x \<in> used st'"
  using assms unfolding heap_ok_def by blast+

lemma heap_ok_allocate:
  "heap_ok pl used \<Longrightarrow> allocate pl s st = Some (r, s', st') \<Longrightarrow> used st \<subseteq> used st'"
  unfolding heap_ok_def by blast

lemma chain_ok_slots: "chain_ok used H w \<Longrightarrow> length (lh_items (w_headers w a)) = 203"
  by (auto simp: chain_ok_def headers_ok_def)

lemma chain_ok_wf: "chain_ok used H w \<Longrightarrow> h \<in> H \<Longrightarrow> wf_header (w_headers w h)"
  by (auto simp: chain_ok_def headers_ok_def)

lemma chain_ok_used: "chain_ok used H w \<Longrightarrow> h \<in> H \<Longrightarrow> h \<in> used (w_os w) \<and> h \<noteq> 0"
  by (auto simp: chain_ok_def)

lemma chain_ok_next:
  assumes "chain_ok used H w" "h \<in> H" "has_next_locator (w_headers w h)"
  shows "chain_ok used (insert (lh_next_locator_ptr (w_headers w h)) H) w"
proof -
  from assms(1) obtain K where K: "H \<subseteq> K" "K \<subseteq> used (w_os w)" "0 \<notin> K" "headers_ok K w"
    by (auto simp: chain_ok_def)
  with assms(2,3) have "lh_next_locator_ptr (w_headers w h) \<in> K" by (auto simp: headers_ok_def)
  with K show ?thesis unfolding chain_ok_def by blast
qed

lemma chain_ok_mono: "chain_ok used H w \<Longrightarrow> K \<subseteq> H \<Longrightarrow> chain_ok used K w"
  unfolding chain_ok_def by (meson order_trans)

lemma chain_ok_os: "chain_ok used H w \<Longrightarrow> used (w_os w) \<subseteq> used st \<Longrightarrow> chain_ok used H (put_os st w)"
  unfolding chain_ok_def headers_ok_def by (elim exE conjE, rule exI, intro conjI) auto

text \<open>Replacing one header by a well-formed one that links into the chain, or nowhere.\<close>

lemma chain_ok_put:
  assumes "chain_ok used H w" and "wf_header hdr" and "h \<in> used (w_os w)" "h \<noteq> 0"
    and "has_next_locator hdr \<Longrightarrow> lh_next_locator_ptr hdr \<in> insert h H \<or>
      lh_next_locator_ptr hdr = lh_next_locator_ptr (w_headers w h) \<and> h \<in> H"
  shows "chain_ok used (insert h H) (put_header h hdr w)"
proof -
  from assms(1) obtain K where K: "H \<subseteq> K" "K \<subseteq> used (w_os w)" "0 \<notin> K" "headers_ok K w"
    by (auto simp: chain_ok_def)
  have "lh_next_locator_ptr hdr \<in> insert h K" if "has_next_locator hdr"
  proof (cases "lh_next_locator_ptr hdr \<in> insert h H")
    case False
    with assms(5) [OF that] K that show ?thesis by (auto simp: headers_ok_def has_next_locator_def)
  qed (use K(1) in blast)
  with K(4) assms(2) have "headers_ok (insert h K) (put_header h hdr w)"
    by (auto simp: headers_ok_def wf_header_def)
  moreover have "insert h H \<subseteq> insert h K" "insert h K \<subseteq> used (w_os w)" "0 \<notin> insert h K"
    using K assms(3,4) by auto
  ultimately show ?thesis unfolding chain_ok_def by (intro exI [of _ "insert h K"]) simp
qed

lemma chain_ok_update:
  assumes "chain_ok used H w" and "h \<in> H" and "wf_header hdr"
    and "lh_next_locator_ptr hdr = lh_next_locator_ptr (w_headers w h)"
  shows "chain_ok used H (put_header h hdr w)"
  using chain_ok_put [OF assms(1,3), of h] assms(2,4) chain_ok_used [OF assms(1,2)]
  by (simp add: insert_absorb)

section \<open>Locks\<close>

lemma try_lock_at_ok: "chain_ok used H w \<Longrightarrow> h \<in> H \<Longrightarrow> chain_ok used H (snd (try_lock_at h w))"
  by (auto simp: try_lock_at_def header_try_lock_def chain_ok_wf intro: chain_ok_update)

lemma unlock_at_ok:
  assumes "unlock_at b h w = Some w'" "chain_ok used H w" "h \<in> H"
  shows "chain_ok used H w'"
  using assms
  by (auto simp: unlock_at_def header_unlock_def Let_def Option.bind_eq_Some_conv chain_ok_wf
      split: if_splits intro!: chain_ok_update)

lemma lock_at_ok:
  assumes "lock_at yield h w = Some w'" "chain_ok used H w" "h \<in> H" "yield_ok used yield"
  shows "chain_ok used H w'"
  using assms(1) [unfolded lock_at_def] assms(2)
  by (rule spin_lock_invariant)
    (use assms(3,4) in \<open>auto simp: yield_ok_def intro: try_lock_at_ok\<close>)

lemma lock_at_held: "lock_at yield h w = Some w' \<Longrightarrow> lh_is_locked (w_headers w' h) \<noteq> 0"
  unfolding lock_at_def by (rule lock_at.spin_result_held)

text \<open>Unlocking a header that is locked returns under both profiles and changes nothing else.\<close>

lemma unlock_at_held:
  "lh_is_locked (w_headers w h) \<noteq> 0 \<Longrightarrow>
   unlock_at b h w = Some (put_header h ((w_headers w h)\<lparr>lh_is_locked := 0\<rparr>) w)"
  by (simp add: unlock_at_def header_unlock_def)

section \<open>Search\<close>

text \<open>An item the search may hand out: suitable and free.\<close>

definition available :: "u32 \<Rightarrow> usize \<Rightarrow> usize \<Rightarrow> locator_item \<Rightarrow> bool" where
  "available sz mn mx it \<longleftrightarrow> serves_request sz mn mx it \<and> li_is_taken it = 0"

text \<open>
  On well-formed items the loop returns; it finds the first item that is available, if there is
  one, and the only thing it changes is that item's lock.
\<close>

fun search_result :: "(locator_item \<Rightarrow> bool) \<Rightarrow> locator_item list \<Rightarrow> nat option \<times> locator_item list \<Rightarrow> bool" where
  "search_result good items (None, items') \<longleftrightarrow> items' = items \<and> (\<forall>i < length items. \<not> good (items ! i))"
| "search_result good items (Some i, items') \<longleftrightarrow>
     i < length items \<and> good (items ! i) \<and> (\<forall>j < i. \<not> good (items ! j)) \<and>
     items' = items[i := (items ! i)\<lparr>li_is_taken := 1\<rparr>]"

lemma search_result_skip:
  assumes "\<not> good it" and "search_result good items (r, items')"
  shows "search_result good (it # items) (map_option Suc r, it # items')"
  using assms by (cases r) (auto simp: nth_Cons' less_Suc_eq_0_disj)

lemma can_use_serves:
  "wf_item it \<Longrightarrow> can_use b it sz mn mx = Some (serves_request sz mn mx it)"
  by (simp add: can_use_wf serves_request_def is_allocated_def)

lemma retake: "li_is_taken it = 1 \<Longrightarrow> it\<lparr>li_is_taken := 1\<rparr> = it"
  by (cases it) simp

lemma first_available_spec:
  assumes "list_all wf_slot items"
  shows "\<exists>r. first_available b sz mn mx items = Some r \<and> search_result (available sz mn mx) items r"
  using assms
proof (induction items)
  case (Cons it items)
  then have it: "wf_item it" "li_is_taken it = 0 \<or> li_is_taken it = 1" by (simp_all add: wf_slot_def)
  from Cons obtain found items' where
    IH: "first_available b sz mn mx items = Some (found, items')"
    "search_result (available sz mn mx) items (found, items')" by auto
  show ?case
  proof (cases "available sz mn mx it")
    case True
    then have "first_available b sz mn mx (it # items) = Some (Some 0, it\<lparr>li_is_taken := 1\<rparr> # items)"
      by (simp add: available_def can_use_serves [OF it(1)] item_try_lock_def Let_def)
    with True show ?thesis by simp
  next
    case False
    then have "first_available b sz mn mx (it # items) = Some (map_option Suc found, it # items')"
      using it IH(1) by (auto simp: available_def can_use_serves item_try_lock_def Let_def retake)
    with search_result_skip [OF False IH(2)] show ?thesis by blast
  qed
qed simp

lemma wf_slot_take: "wf_slot it \<Longrightarrow> wf_slot (it\<lparr>li_is_taken := 1\<rparr>)"
  by (simp add: wf_slot_def)

text \<open>The search of one header.\<close>

lemma search_header:
  assumes wf: "wf_header (w_headers w h)"
  shows "get_first_available_item_locked pl h sz mn mx w = Some (None, w) \<and>
      (\<forall>i < unat (lh_num_items (w_headers w h)). \<not> available sz mn mx (lh_items (w_headers w h) ! i)) \<or>
    (\<exists>i < unat (lh_num_items (w_headers w h)). available sz mn mx (lh_items (w_headers w h) ! i) \<and>
      (\<forall>j < i. \<not> available sz mn mx (lh_items (w_headers w h) ! j)) \<and>
      get_first_available_item_locked pl h sz mn mx w = Some (Some (Item_Ptr h i),
        put_item (Item_Ptr h i) ((lh_items (w_headers w h) ! i)\<lparr>li_is_taken := 1\<rparr>) w))"
proof -
  let ?hdr = "w_headers w h" and ?n = "unat (lh_num_items (w_headers w h))"
  have n: "?n \<le> length (lh_items ?hdr)" and slots: "list_all wf_slot (take ?n (lh_items ?hdr))"
    using wf by (simp_all add: wf_header_def)
  from first_available_spec [OF slots, of "pl_build pl" sz mn mx] obtain found items where
    fa: "first_available (pl_build pl) sz mn mx (take ?n (lh_items ?hdr)) = Some (found, items)"
    and r: "search_result (available sz mn mx) (take ?n (lh_items ?hdr)) (found, items)" by auto
  show ?thesis
  proof (cases found)
    case None
    with r n have "items = take ?n (lh_items ?hdr)" "\<forall>i < ?n. \<not> available sz mn mx (lh_items ?hdr ! i)"
      by auto
    with None fa show ?thesis by (simp add: get_first_available_item_locked_def Let_def)
  next
    case (Some i)
    with r n have i: "i < ?n" "available sz mn mx (lh_items ?hdr ! i)"
      "\<forall>j < i. \<not> available sz mn mx (lh_items ?hdr ! j)"
      "items = (take ?n (lh_items ?hdr)) [i := (lh_items ?hdr ! i)\<lparr>li_is_taken := 1\<rparr>]" by auto
    then have "items @ drop ?n (lh_items ?hdr) = (lh_items ?hdr) [i := (lh_items ?hdr ! i)\<lparr>li_is_taken := 1\<rparr>]"
      using n by (metis append_take_drop_id length_take list_update_append1 min.absorb2)
    with Some fa i show ?thesis
      by (auto simp: get_first_available_item_locked_def put_item_def Let_def)
  qed
qed

lemma search_finds:
  assumes wf: "wf_header (w_headers w h)" and i: "i < unat (lh_num_items (w_headers w h))"
    and "available sz mn mx (lh_items (w_headers w h) ! i)"
    and "\<And>j. j < i \<Longrightarrow> \<not> available sz mn mx (lh_items (w_headers w h) ! j)"
  shows "get_first_available_item_locked pl h sz mn mx w = Some (Some (Item_Ptr h i),
    put_item (Item_Ptr h i) ((lh_items (w_headers w h) ! i)\<lparr>li_is_taken := 1\<rparr>) w)"
  using search_header [OF wf, of pl sz mn mx]
proof (elim disjE exE conjE)
  fix k assume "available sz mn mx (lh_items (w_headers w h) ! k)"
    "\<forall>j < k. \<not> available sz mn mx (lh_items (w_headers w h) ! j)"
    and found: "get_first_available_item_locked pl h sz mn mx w = Some (Some (Item_Ptr h k),
      put_item (Item_Ptr h k) ((lh_items (w_headers w h) ! k)\<lparr>li_is_taken := 1\<rparr>) w)"
  then have "k = i" using assms(3,4) by (meson linorder_neqE_nat)
  with found show ?thesis by simp
qed (use i assms(3) in blast)

text \<open>The item behind a pointer that was handed out: registered, locked and fit for the request.\<close>

definition granted :: "u32 \<Rightarrow> usize \<Rightarrow> usize \<Rightarrow> item_ptr \<Rightarrow> 'o world \<Rightarrow> bool" where
  "granted sz mn mx p w \<longleftrightarrow> wf_header (w_headers w (ip_header p)) \<and>
     ip_index p < unat (lh_num_items (w_headers w (ip_header p))) \<and>
     serves_request sz mn mx (item_at w p) \<and> li_is_taken (item_at w p) = 1"

lemma serves_request_lock [simp]:
  "serves_request sz mn mx (it\<lparr>li_is_taken := x\<rparr>) = serves_request sz mn mx it"
  by (simp add: serves_request_def free_bytes_def next_address_def)

lemma wf_header_update:
  assumes "wf_header hdr" and "wf_slot it" and "i < unat (lh_num_items hdr)"
  shows "wf_header (hdr\<lparr>lh_items := (lh_items hdr)[i := it]\<rparr>)"
  using assms by (auto simp: wf_header_def list_all_length nth_list_update)

lemma put_item_ok:
  assumes "chain_ok used H w" and "h \<in> H" and "wf_slot it" and "i < unat (lh_num_items (w_headers w h))"
  shows "chain_ok used H (put_item (Item_Ptr h i) it w)"
  using assms
  by (auto simp: put_item_def Let_def chain_ok_wf intro!: chain_ok_update wf_header_update)

lemma search_result_ok:
  assumes ret: "get_first_available_item_locked pl h sz mn mx w = Some (r, w')"
    and ok: "chain_ok used H w" "h \<in> H"
  shows "chain_ok used H w'" and "r = Some p \<Longrightarrow> granted sz mn mx p w' \<and> ip_header p = h"
proof -
  note wf = chain_ok_wf [OF ok]
  have n: "unat (lh_num_items (w_headers w h)) \<le> length (lh_items (w_headers w h))"
    using wf by (simp add: wf_header_def)
  have "chain_ok used H w' \<and> (\<forall>p. r = Some p \<longrightarrow> granted sz mn mx p w' \<and> ip_header p = h)"
    using search_header [OF wf, of pl sz mn mx]
  proof (elim disjE exE conjE, goal_cases)
    case 1
    with ret ok show ?case by simp
  next
    case (2 i)
    with ret have eq: "r = Some (Item_Ptr h i)"
      "w' = put_item (Item_Ptr h i) ((lh_items (w_headers w h) ! i)\<lparr>li_is_taken := 1\<rparr>) w" by simp_all
    have "chain_ok used H w'"
      unfolding eq using ok 2 wf_header_slot [OF wf] by (intro put_item_ok wf_slot_take) simp_all
    moreover from chain_ok_wf [OF this ok(2)] have "granted sz mn mx (Item_Ptr h i) w'"
      using 2 n by (simp add: eq granted_def put_item_def item_at_def Let_def available_def)
    ultimately show ?case by (simp add: eq)
  qed
  then show "chain_ok used H w'" "r = Some p \<Longrightarrow> granted sz mn mx p w' \<and> ip_header p = h" by auto
qed

section \<open>Registration\<close>

abbreviation request_settings :: "cached \<Rightarrow> u32 \<Rightarrow> usize \<Rightarrow> usize \<Rightarrow> buffer_allocator_settings" where
  "request_settings sys sz mn mx \<equiv>
     (allocator_settings_new sys)\<lparr>bas_min_address := mn, bas_max_address := mx, bas_size := sz\<rparr>"

text \<open>The header after \<open>it\<close> was registered in it and the header was unlocked.\<close>

definition registered :: "locator_item \<Rightarrow> locator_header \<Rightarrow> locator_header" where
  "registered it hdr =
     hdr\<lparr>lh_items := (lh_items hdr)[unat (lh_num_items hdr) := it\<lparr>li_is_taken := 1\<rparr>],
         lh_num_items := lh_num_items hdr + 1, lh_is_locked := 0\<rparr>"

lemma registered_num:
  "\<not> is_full hdr \<Longrightarrow> unat (lh_num_items hdr + 1) = Suc (unat (lh_num_items hdr))"
  by (subst unat_add_small) (simp_all add: is_full_iff)

lemma wf_registered:
  assumes "wf_header hdr" "\<not> is_full hdr" "wf_item it"
  shows "wf_header (registered it hdr)"
proof -
  let ?n = "unat (lh_num_items hdr)"
  have n: "?n < length (lh_items hdr)" using assms by (simp add: wf_header_def is_full_iff)
  have "take (Suc ?n) ((lh_items hdr)[?n := x]) = take ?n (lh_items hdr) @ [x]" for x
    using n by (simp add: take_Suc_conv_app_nth)
  then show ?thesis
    using assms registered_num [OF assms(2)]
    by (simp add: wf_header_def registered_def is_full_iff wf_slot_def)
qed

lemma try_allocate_item_registers:
  assumes "\<not> is_full (w_headers w h)" and lock: "lock_at yield h w = Some w1"
    and full: "\<not> is_full (w_headers w1 h)" and wf: "wf_header (w_headers w1 h)"
    and alloc: "allocate pl (request_settings (pl_sys pl) sz mn mx) (w_os w1) = Some (Inr it, s', st)"
    and free: "li_is_taken it = 0"
  shows "try_allocate_item pl yield h sz mn mx w
    = Some (Inr (Item_Ptr h (unat (lh_num_items (w_headers w1 h)))),
        put_header h (registered it (w_headers w1 h)) (put_os st w1))"
proof -
  have slot: "set_slot (unat (lh_num_items (w_headers w1 h))) x (lh_items (w_headers w1 h))
      = Some ((lh_items (w_headers w1 h))[unat (lh_num_items (w_headers w1 h)) := x])" for x
    using full wf by (simp add: set_slot_def wf_header_def is_full_iff)
  have num: "wadd (pl_build pl) (lh_num_items (w_headers w1 h)) 1 = Some (lh_num_items (w_headers w1 h) + 1)"
    using full by (simp add: arith_ok is_full_iff)
  note locked = item_lock_fresh [OF free, of "\<lambda>it. it"]
  show ?thesis
    using assms(1,2) full alloc lock_at_held [OF lock]
    by (simp add: try_allocate_item_def Let_def slot num locked unlock_at_held registered_def)
qed

text \<open>The outcomes of \<open>try_allocate_item\<close>; \<open>w1\<close> is the state when the header's lock was taken.\<close>

lemma try_allocate_item_cases:
  assumes ret: "try_allocate_item pl yield h sz mn mx w = Some (r, w')"
    and ok: "chain_ok used H w" "h \<in> H" "yield_ok used yield"
    and req: "honest_os pl" "sane_request (pl_sys pl) sz mx" "heap_ok pl used"
  obtains (full) "r = Inl NoSpaceInHeader" "w' = w" "is_full (w_headers w h)"
  | (filled) w1 where "lock_at yield h w = Some w1" "is_full (w_headers w1 h)"
      "r = Inl NoSpaceInHeader" "w' = put_header h ((w_headers w1 h)\<lparr>lh_is_locked := 0\<rparr>) w1"
  | (no_memory) w1 st where "lock_at yield h w = Some w1"
      "used (w_os w1) \<subseteq> used st" "r = Inl CannotAllocateMemory"
      "w' = put_header h ((w_headers w1 h)\<lparr>lh_is_locked := 0\<rparr>) (put_os st w1)"
  | (registers) w1 it st where "lock_at yield h w = Some w1" "\<not> is_full (w_headers w1 h)"
      "serves_request sz mn mx it" "used (w_os w1) \<subseteq> used st"
      "r = Inr (Item_Ptr h (unat (lh_num_items (w_headers w1 h))))"
      "w' = put_header h (registered it (w_headers w1 h)) (put_os st w1)"
      "\<exists>s'. allocate pl (request_settings (pl_sys pl) sz mn mx) (w_os w1) = Some (Inr it, s', st)"
proof (cases "is_full (w_headers w h)")
  case True
  with ret show ?thesis using full by (simp add: try_allocate_item_def)
next
  case nf: False
  with ret obtain w1 where lock: "lock_at yield h w = Some w1"
    by (auto simp: try_allocate_item_def Option.bind_eq_Some_conv)
  note held = lock_at_held [OF lock] and wf1 = chain_ok_wf [OF lock_at_ok [OF lock ok] ok(2)]
  show ?thesis
  proof (cases "is_full (w_headers w1 h)")
    case True
    with ret nf lock held show ?thesis
      by (intro filled [of w1]) (auto simp: try_allocate_item_def unlock_at_held)
  next
    case nf1: False
    with ret nf lock obtain res s' st where
      alloc: "allocate pl (request_settings (pl_sys pl) sz mn mx) (w_os w1) = Some (res, s', st)"
      by (auto simp: try_allocate_item_def Option.bind_eq_Some_conv Let_def)
    note grow = heap_ok_allocate [OF req(3) alloc]
    show ?thesis
    proof (cases res)
      case (Inl e)
      with ret nf lock nf1 alloc held grow show ?thesis
        by (intro no_memory [of w1 st]) (auto simp: try_allocate_item_def Let_def unlock_at_held)
    next
      case (Inr it)
      note fresh = allocate_fresh [OF alloc [unfolded Inr] req(1)]
      have it: "serves_request sz mn mx it" "li_is_taken it = 0" using fresh(1,3) req(2) by simp_all
      show ?thesis
        using ret try_allocate_item_registers [OF nf lock nf1 wf1 alloc [unfolded Inr] it(2)] alloc Inr
        by (intro registers [OF lock nf1 it(1) grow]) simp_all
    qed
  qed
qed

lemma try_allocate_item_ok:
  assumes ret: "try_allocate_item pl yield h sz mn mx w = Some (r, w')"
    and ok: "chain_ok used H w" "h \<in> H" "yield_ok used yield"
    and req: "honest_os pl" "sane_request (pl_sys pl) sz mx" "heap_ok pl used"
  shows "chain_ok used H w'" and "r = Inr p \<Longrightarrow> granted sz mn mx p w' \<and> ip_header p = h"
proof -
  have unlocked: "chain_ok used H (put_header h ((w_headers w1 h)\<lparr>lh_is_locked := 0\<rparr>) (put_os st w1))"
    if "lock_at yield h w = Some w1" "used (w_os w1) \<subseteq> used st" for w1 st
    using chain_ok_os [OF lock_at_ok [OF that(1) ok] that(2)] lock_at_ok [OF that(1) ok] ok(2)
    by (intro chain_ok_update) (simp_all add: chain_ok_wf)
  have "chain_ok used H w' \<and> (\<forall>p. r = Inr p \<longrightarrow> granted sz mn mx p w' \<and> ip_header p = h)"
    using ret ok req
  proof (cases rule: try_allocate_item_cases)
    case full
    with ok show ?thesis by simp
  next
    case (filled w1)
    with unlocked [OF filled(1) subset_refl] show ?thesis by simp
  next
    case (no_memory w1 st)
    with unlocked [OF no_memory(1,2)] show ?thesis by simp
  next
    case (registers w1 it st)
    note ok1 = lock_at_ok [OF registers(1) ok]
    note wf1 = chain_ok_wf [OF ok1 ok(2)]
    have it: "wf_item it" using registers(3) by (simp add: serves_request_def)
    have "chain_ok used H w'"
      unfolding registers(6) using chain_ok_os [OF ok1 registers(4)] ok(2) wf_registered [OF wf1 registers(2) it]
      by (intro chain_ok_update) (simp_all add: registered_def)
    moreover note chain_ok_wf [OF this ok(2)]
    moreover have "unat (lh_num_items (w_headers w1 h)) < length (lh_items (w_headers w1 h))"
      using wf1 registers(2) by (simp add: wf_header_def is_full_iff)
    ultimately show ?thesis
      using registers(3-6) registered_num [OF registers(2)]
      by (simp add: granted_def item_at_def registered_def)
  qed
  then show "chain_ok used H w'" "r = Inr p \<Longrightarrow> granted sz mn mx p w' \<and> ip_header p = h" by auto
qed

section \<open>New headers\<close>

text \<open>The \<open>n\<close> bytes from \<open>a\<close> on, in the address space and in use.\<close>

definition block_in :: "usize set \<Rightarrow> usize \<Rightarrow> nat \<Rightarrow> bool" where
  "block_in U a n \<longleftrightarrow> unat a + n < 2 ^ 64 \<and> (\<forall>x. unat a \<le> unat x \<and> unat x < unat a + n \<longrightarrow> x \<in> U)"

definition outside :: "usize \<Rightarrow> nat \<Rightarrow> usize \<Rightarrow> bool" where
  "outside a n x \<longleftrightarrow> unat x < unat a \<or> unat a + n \<le> unat x"

lemma next_header:
  assumes "block_in U h (4096 + unat r)" and "ucast HEADER_LENGTH \<le> (r :: u32)"
  shows "unat (h + HEADER_LENGTH) = unat h + 4096" "h + HEADER_LENGTH \<in> U" "h + HEADER_LENGTH \<noteq> 0"
    "unat (r - ucast HEADER_LENGTH) = unat r - 4096"
    "block_in U (h + HEADER_LENGTH) (4096 + unat (r - ucast HEADER_LENGTH))"
proof -
  have r: "4096 \<le> unat r" using assms(2) by (simp add: HEADER_LENGTH_def word_le_nat_alt)
  show u: "unat (h + HEADER_LENGTH) = unat h + 4096"
    using assms(1) by (subst unat_add_small) (simp_all add: HEADER_LENGTH_def block_in_def)
  then show "h + HEADER_LENGTH \<noteq> 0" by (metis add_is_0 unat_0 zero_neq_numeral)
  show s: "unat (r - ucast HEADER_LENGTH) = unat r - 4096"
    using assms(2) by (simp add: unat_sub HEADER_LENGTH_def)
  show "h + HEADER_LENGTH \<in> U" using assms(1) u r by (simp add: block_in_def)
  show "block_in U (h + HEADER_LENGTH) (4096 + unat (r - ucast HEADER_LENGTH))"
    using assms(1) u r s by (simp add: block_in_def)
qed

text \<open>One turn of the loop: the next header is set up and linked to the current one.\<close>

definition link_header :: "usize \<Rightarrow> usize \<Rightarrow> 'o world \<Rightarrow> 'o world" where
  "link_header h n w =
     (let w1 = put_header n (set_default_values n (w_headers w n)) w
      in put_header h ((w_headers w1 h)\<lparr>lh_next_locator_ptr := n\<rparr>) w1)"

lemma as_headers_step:
  "ucast HEADER_LENGTH \<le> r \<Longrightarrow> initialize_remaining_space_as_headers h r w =
     initialize_remaining_space_as_headers (h + HEADER_LENGTH) (r - ucast HEADER_LENGTH)
       (link_header h (h + HEADER_LENGTH) w)"
  by (subst initialize_remaining_space_as_headers.simps) (simp only: link_header_def Let_def if_True)

lemma as_headers_stop:
  "\<not> ucast HEADER_LENGTH \<le> r \<Longrightarrow> initialize_remaining_space_as_headers h r w = w"
  by (subst initialize_remaining_space_as_headers.simps) simp

lemma link_header_ok:
  assumes ok: "chain_ok used H w" "h \<in> H" and n: "n \<in> used (w_os w)" "n \<noteq> 0"
  shows "chain_ok used (insert n H) (link_header h n w)"
proof -
  let ?w1 = "put_header n (set_default_values n (w_headers w n)) w"
  have ok1: "chain_ok used (insert n H) ?w1"
    using ok(1) n chain_ok_slots [OF ok(1)]
    by (intro chain_ok_put wf_default) (simp_all add: set_default_values_def has_next_locator_def)
  have wf: "wf_header ((w_headers ?w1 h)\<lparr>lh_next_locator_ptr := n\<rparr>)"
    using chain_ok_wf [OF ok1, of h] ok(2) by simp
  have "chain_ok used (insert h (insert n H)) (link_header h n w)"
    unfolding link_header_def Let_def
    by (rule chain_ok_put [OF ok1 wf]) (use chain_ok_used [OF ok] in simp_all)
  then show ?thesis by (rule chain_ok_mono) blast
qed

lemma as_headers_ok:
  assumes "chain_ok used H w" "h \<in> H" "block_in (used (w_os w)) h (4096 + unat r)"
  shows "chain_ok used H (initialize_remaining_space_as_headers h r w) \<and>
    w_machine (initialize_remaining_space_as_headers h r w) = w_machine w \<and>
    (\<forall>x. outside h (4096 + unat r) x \<longrightarrow>
      w_headers (initialize_remaining_space_as_headers h r w) x = w_headers w x)"
  using assms
proof (induction "unat r" arbitrary: h r w H rule: less_induct)
  case less
  show ?case
  proof (cases "ucast HEADER_LENGTH \<le> r")
    case False
    with less.prems show ?thesis by (simp add: as_headers_stop)
  next
    case True
    note nh = next_header [OF less.prems(3) True]
    let ?n = "h + HEADER_LENGTH" and ?r = "r - ucast HEADER_LENGTH"
    let ?w2 = "link_header h ?n w"
    note ok2 = link_header_ok [OF less.prems(1,2) nh(2,3)]
    have r: "4096 \<le> unat r" using True by (simp add: HEADER_LENGTH_def word_le_nat_alt)
    have "block_in (used (w_os ?w2)) ?n (4096 + unat ?r)" using nh(5) by (simp add: link_header_def)
    moreover have "unat ?r < unat r" "?n \<in> insert ?n H" using nh(4) r by simp_all
    ultimately have IH: "chain_ok used (insert ?n H) (initialize_remaining_space_as_headers ?n ?r ?w2)"
      "w_machine (initialize_remaining_space_as_headers ?n ?r ?w2) = w_machine ?w2"
      "\<forall>x. outside ?n (4096 + unat ?r) x \<longrightarrow>
        w_headers (initialize_remaining_space_as_headers ?n ?r ?w2) x = w_headers ?w2 x"
      using less.hyps [of ?r, OF _ ok2] by blast+
    have same: "w_headers ?w2 x = w_headers w x \<and> outside ?n (4096 + unat ?r) x"
      if "outside h (4096 + unat r) x" for x
    proof -
      have "x \<noteq> h" "x \<noteq> ?n" using that nh(1) r by (auto simp: outside_def)
      with that nh(1,4) r show ?thesis by (auto simp: outside_def link_header_def)
    qed
    have "w_machine ?w2 = w_machine w" by (simp add: link_header_def)
    with IH same show ?thesis
      unfolding as_headers_step [OF True] using chain_ok_mono [OF IH(1) subset_insertI] by metis
  qed
qed

lemma initialize_ok:
  assumes ok: "chain_ok used H (put_header a (set_default_values a (w_headers w a)) w)" "a \<in> H"
    and len: "4096 \<le> unat len" "unat len \<le> 4096 + 203 * 16384"
    and blk: "block_in (used (w_os w)) a (unat len)"
  shows "\<exists>w'. initialize pl a len w = Some w' \<and> chain_ok used H w' \<and> w_machine w' = w_machine w \<and>
    (\<forall>x. outside a (unat len) x \<longrightarrow> w_headers w' x = w_headers w x)"
proof -
  let ?w1 = "put_header a (set_default_values a (w_headers w a)) w"
  have items: "length (lh_items (w_headers w a)) = 203"
    using chain_ok_slots [OF ok(1), of a] by (simp add: set_default_values_def)
  have a: "x \<noteq> a" if "outside a (unat len) x" for x using that len(1) by (auto simp: outside_def)
  show ?thesis
  proof (cases "cfg_macos_aarch64 (pl_target pl)")
    case True
    let ?r = "ucast (len - HEADER_LENGTH) :: u32"
    have le: "HEADER_LENGTH \<le> len" using len(1) by (simp add: HEADER_LENGTH_def word_le_nat_alt)
    then have "unat (len - HEADER_LENGTH) = unat len - 4096" by (simp add: unat_sub HEADER_LENGTH_def)
    then have r: "4096 + unat ?r = unat len" using len by (simp add: unat_usize_to_u32)
    have "initialize pl a len w = Some (initialize_remaining_space_as_headers a ?r ?w1)"
      using True le by (simp add: initialize_def arith_ok Let_def)
    moreover have "block_in (used (w_os ?w1)) a (4096 + unat ?r)" using blk r by simp
    note as_headers_ok [OF ok this, unfolded r]
    ultimately show ?thesis using a by simp
  next
    case False
    let ?f = "fresh_header a (unat len) (lh_items (w_headers w a))"
    have "unat a + max (unat len) 4096 < 2 ^ 64" using blk len(1) by (simp add: block_in_def)
    from chain_ok_update [OF ok wf_fresh_header [OF len(2) items this]]
    have "chain_ok used H (put_header a ?f ?w1)"
      by (simp add: fresh_header_def set_default_values_def)
    then have "chain_ok used H (put_header a ?f w)" by simp
    with initialize_buffers [OF False len items] a show ?thesis by simp
  qed
qed

text \<open>
  The size of a header allocation: it holds a header, and the slots can register what is left with
  one slot to spare.
\<close>

definition sane_page :: "cached \<Rightarrow> bool" where
  "sane_page sys \<longleftrightarrow> sane_sys sys \<and> unat (granularity sys) \<le> 4096 + 202 * 16384"

text \<open>The header a new one is linked from already points at it while it is initialized.\<close>

lemma published_ok:
  assumes ok: "chain_ok used H w" "h \<in> H" and a: "a \<in> used (w_os w)" "a \<noteq> 0" "a \<noteq> h"
  shows "chain_ok used (insert a H)
    (put_header a (set_default_values a (w_headers w a))
      (put_header h ((w_headers w h)\<lparr>lh_next_locator_ptr := a\<rparr>) w))"
proof -
  have "link_header h a w = put_header a (set_default_values a (w_headers w a))
      (put_header h ((w_headers w h)\<lparr>lh_next_locator_ptr := a\<rparr>) w)"
    using a(3) by (simp add: link_header_def Let_def fun_upd_twist)
  with link_header_ok [OF ok a(1,2)] show ?thesis by simp
qed

text \<open>Allocating the next header, under the lock of this one.\<close>

lemma new_header_ok:
  assumes ok: "chain_ok used H w" "h \<in> H" and page: "sane_page (pl_sys pl)" and heap: "heap_ok pl used"
    and al: "pl_heap_alloc pl (granularity (pl_sys pl)) algn (w_os w) = (a, st)" "a \<noteq> 0"
  shows "\<exists>w'. initialize pl a (granularity (pl_sys pl))
      (put_header h ((w_headers w h)\<lparr>lh_next_locator_ptr := a\<rparr>) (put_os st w)) = Some w' \<and>
    chain_ok used (insert a H) w' \<and>
    w_headers w' h = (w_headers w h)\<lparr>lh_next_locator_ptr := a\<rparr> \<and>
    (\<forall>x \<in> used (w_os w) - {h}. w_headers w' x = w_headers w x)"
proof -
  let ?g = "granularity (pl_sys pl)"
  let ?w2 = "put_os st w"
  let ?w3 = "put_header h ((w_headers w h)\<lparr>lh_next_locator_ptr := a\<rparr>) ?w2"
  have g: "4096 \<le> unat ?g" "unat ?g \<le> 4096 + 203 * 16384"
    using page sane_granularity(3) by (auto simp: sane_page_def)
  note hp = heap_okD [OF heap al(1)]
  have a: "a \<in> used st" "a \<notin> used (w_os w)" using hp(3,4) [OF al(2)] g(1) by auto
  have h: "h \<in> used (w_os w)" using chain_ok_used [OF ok] by blast
  have ne: "a \<noteq> h" using a(2) h by blast
  have out: "outside a (unat ?g) x" if "x \<in> used (w_os w)" for x
    using hp(3) [OF al(2), of x] that by (fastforce simp: outside_def)
  have blk: "block_in (used st) a (unat ?g)" using hp(2,4) [OF al(2)] by (simp add: block_in_def)
  have ok2: "chain_ok used H ?w2" using ok(1) hp(1) by (rule chain_ok_os)
  have "chain_ok used (insert a H) (put_header a (set_default_values a (w_headers ?w2 a))
      (put_header h ((w_headers ?w2 h)\<lparr>lh_next_locator_ptr := a\<rparr>) ?w2))"
    by (rule published_ok [OF ok2 ok(2)]) (use a(1) al(2) ne in simp_all)
  with ne have "chain_ok used (insert a H) (put_header a (set_default_values a (w_headers ?w3 a)) ?w3)"
    by simp
  from initialize_ok [OF this _ g, of pl] blk obtain w' where
    "initialize pl a ?g ?w3 = Some w'" "chain_ok used (insert a H) w'"
    "\<forall>x. outside a (unat ?g) x \<longrightarrow> w_headers w' x = w_headers ?w3 x" by auto
  with out [OF h] out show ?thesis by simp
qed

text \<open>The step that allocates a header, once the lock is held and there is still no next one.\<close>

lemma get_next_locator_new:
  assumes "\<not> has_next_locator (w_headers w h)" and lock: "lock_at yield h w = Some w1"
    and "\<not> has_next_locator (w_headers w1 h)"
    and al: "pl_heap_alloc pl (granularity (pl_sys pl)) (ucast (ci_page_size (pl_sys pl))) (w_os w1) = (a, st)"
    and ret: "get_next_locator pl yield h w = Some (r, w')"
  shows "a = 0 \<Longrightarrow> (\<exists>msg. r = Inl msg) \<and>
      w' = put_header h ((w_headers w1 h)\<lparr>lh_is_locked := 0\<rparr>) (put_os st w1)"
    and "a \<noteq> 0 \<Longrightarrow> initialize pl a (granularity (pl_sys pl))
          (put_header h ((w_headers w1 h)\<lparr>lh_next_locator_ptr := a\<rparr>) (put_os st w1)) = Some w4 \<Longrightarrow>
        w_headers w4 h = (w_headers w1 h)\<lparr>lh_next_locator_ptr := a\<rparr> \<Longrightarrow>
      r = Inr a \<and> w' = put_header h ((w_headers w4 h)\<lparr>lh_is_locked := 0\<rparr>) w4"
proof -
  note held = lock_at_held [OF lock]
  have "layout_ok (granularity (pl_sys pl)) (ucast (ci_page_size (pl_sys pl)))"
    using assms(1-3) ret by (auto simp: get_next_locator_def Let_def split: if_splits)
  note ret' = ret [unfolded get_next_locator_def Let_def, simplified assms(1,2) this, simplified]
  show "(\<exists>msg. r = Inl msg) \<and> w' = put_header h ((w_headers w1 h)\<lparr>lh_is_locked := 0\<rparr>) (put_os st w1)"
    if "a = 0"
    using ret' assms(3,4) that held by (auto simp: unlock_at_held)
  assume a: "a \<noteq> 0"
    and init: "initialize pl a (granularity (pl_sys pl))
          (put_header h ((w_headers w1 h)\<lparr>lh_next_locator_ptr := a\<rparr>) (put_os st w1)) = Some w4"
    and w4: "w_headers w4 h = (w_headers w1 h)\<lparr>lh_next_locator_ptr := a\<rparr>"
  have "unlock_at (pl_build pl) h w4 = Some (put_header h ((w_headers w4 h)\<lparr>lh_is_locked := 0\<rparr>) w4)"
    using held w4 by (intro unlock_at_held) simp
  with ret' assms(3,4) a init w4 show "r = Inr a \<and> w' = put_header h ((w_headers w4 h)\<lparr>lh_is_locked := 0\<rparr>) w4"
    by auto
qed

text \<open>The outcomes of \<open>get_next_locator\<close>; \<open>w1\<close> is the state when the header's lock was taken.\<close>

lemma get_next_locator_cases:
  assumes ret: "get_next_locator pl yield h w = Some (r, w')"
    and ok: "chain_ok used H w" "h \<in> H" "yield_ok used yield"
    and page: "sane_page (pl_sys pl)" and heap: "heap_ok pl used"
  obtains (present) "has_next_locator (w_headers w h)" "r = Inr (lh_next_locator_ptr (w_headers w h))" "w' = w"
  | (appeared) w1 where "lock_at yield h w = Some w1" "has_next_locator (w_headers w1 h)"
      "r = Inr (lh_next_locator_ptr (w_headers w1 h))"
      "w' = put_header h ((w_headers w1 h)\<lparr>lh_is_locked := 0\<rparr>) w1"
  | (no_memory) w1 st msg where "lock_at yield h w = Some w1" "used (w_os w1) \<subseteq> used st"
      "r = Inl msg" "w' = put_header h ((w_headers w1 h)\<lparr>lh_is_locked := 0\<rparr>) (put_os st w1)"
  | (created) w1 a w4 where "lock_at yield h w = Some w1"
      "\<not> has_next_locator (w_headers w1 h)" "a \<notin> used (w_os w1)" "a \<noteq> 0"
      "chain_ok used (insert a H) w4" "w_headers w4 h = (w_headers w1 h)\<lparr>lh_next_locator_ptr := a\<rparr>"
      "\<forall>x \<in> used (w_os w1) - {h}. w_headers w4 x = w_headers w1 x"
      "r = Inr a" "w' = put_header h ((w_headers w4 h)\<lparr>lh_is_locked := 0\<rparr>) w4"
proof (cases "has_next_locator (w_headers w h)")
  case True
  with ret have "r = Inr (lh_next_locator_ptr (w_headers w h))" "w' = w"
    by (auto simp: get_next_locator_def)
  then show ?thesis by (rule present [OF True])
next
  case none: False
  with ret obtain w1 where lock: "lock_at yield h w = Some w1"
    by (cases "lock_at yield h w") (simp_all add: get_next_locator_def)
  note ok1 = lock_at_ok [OF lock ok] and held = lock_at_held [OF lock]
  show ?thesis
  proof (cases "has_next_locator (w_headers w1 h)")
    case True
    with ret none lock held have "r = Inr (lh_next_locator_ptr (w_headers w1 h))"
      "w' = put_header h ((w_headers w1 h)\<lparr>lh_is_locked := 0\<rparr>) w1"
      by (simp_all add: get_next_locator_def unlock_at_held)
    then show ?thesis by (rule appeared [OF lock True])
  next
    case none1: False
    let ?g = "granularity (pl_sys pl)" and ?al = "ucast (ci_page_size (pl_sys pl)) :: usize"
    obtain a st where al: "pl_heap_alloc pl ?g ?al (w_os w1) = (a, st)" by fastforce
    note new = get_next_locator_new [OF none lock none1 al ret]
    show ?thesis
    proof (cases "a = 0")
      case True
      then obtain msg where "r = Inl msg"
        "w' = put_header h ((w_headers w1 h)\<lparr>lh_is_locked := 0\<rparr>) (put_os st w1)"
        using new(1) by auto
      then show ?thesis by (rule no_memory [OF lock heap_okD(1) [OF heap al]])
    next
      case False
      obtain w4 where w4: "initialize pl a ?g
          (put_header h ((w_headers w1 h)\<lparr>lh_next_locator_ptr := a\<rparr>) (put_os st w1)) = Some w4"
        "chain_ok used (insert a H) w4" "w_headers w4 h = (w_headers w1 h)\<lparr>lh_next_locator_ptr := a\<rparr>"
        "\<forall>x \<in> used (w_os w1) - {h}. w_headers w4 x = w_headers w1 x"
        using new_header_ok [OF ok1 ok(2) page heap al False] by blast
      have "4096 \<le> unat ?g" using page sane_granularity(3) by (simp add: sane_page_def)
      then have "a \<notin> used (w_os w1)" using heap_okD(3) [OF heap al False, of a] by simp
      then show ?thesis
        by (rule created [OF lock none1 _ False w4(2-4)]) (use new(2) [OF False w4(1,3)] in simp_all)
    qed
  qed
qed

lemma get_next_locator_ok:
  assumes ret: "get_next_locator pl yield h w = Some (r, w')"
    and ok: "chain_ok used H w" "h \<in> H" "yield_ok used yield"
    and page: "sane_page (pl_sys pl)" and heap: "heap_ok pl used"
  shows "chain_ok used H w' \<and> (\<forall>n. r = Inr n \<longrightarrow>
    chain_ok used (insert n H) w' \<and> lh_next_locator_ptr (w_headers w' h) = n)"
  using ret ok page heap
proof (cases rule: get_next_locator_cases)
  case present
  with chain_ok_next [OF ok(1,2)] ok show ?thesis by simp
next
  case (appeared w1)
  note ok1 = lock_at_ok [OF appeared(1) ok]
  have "chain_ok used H w'"
    unfolding appeared(4) using ok1 ok(2) by (intro chain_ok_update) (simp_all add: chain_ok_wf)
  moreover have "has_next_locator (w_headers w' h)"
    "lh_next_locator_ptr (w_headers w' h) = lh_next_locator_ptr (w_headers w1 h)"
    using appeared(2) by (simp_all add: appeared(4) has_next_locator_def)
  ultimately show ?thesis using chain_ok_next [OF _ ok(2), of used w'] appeared(3) by simp
next
  case (no_memory w1 st msg)
  have ok1: "chain_ok used H (put_os st w1)"
    by (rule chain_ok_os [OF lock_at_ok [OF no_memory(1) ok] no_memory(2)])
  then have "chain_ok used H w'"
    unfolding no_memory(4) using ok(2) chain_ok_wf [OF ok1 ok(2)]
    by (intro chain_ok_update) simp_all
  with no_memory(3) show ?thesis by simp
next
  case (created w1 a w4)
  have "chain_ok used (insert a H) w'"
    unfolding created(9) using created(5) ok(2) chain_ok_wf [OF created(5), of h]
    by (intro chain_ok_update) simp_all
  with created(6-9) chain_ok_mono [OF this subset_insertI] show ?thesis by simp
qed

section \<open>Held items\<close>

text \<open>An item that is registered and taken.\<close>

definition held :: "item_ptr \<Rightarrow> 'o world \<Rightarrow> bool" where
  "held q w \<longleftrightarrow> ip_index q < unat (lh_num_items (w_headers w (ip_header q))) \<and>
     li_is_taken (item_at w q) = 1"

lemma held_same:
  "held q w \<Longrightarrow> w_headers w' (ip_header q) = w_headers w (ip_header q) \<Longrightarrow> held q w'"
  by (simp add: held_def item_at_def)

lemma held_locks [simp]:
  "held q (put_header h ((w_headers w h)\<lparr>lh_is_locked := x\<rparr>) w) = held q w"
  "held q (w\<lparr>w_machine := m, w_headers := (w_headers w)(h := (w_headers w h)\<lparr>lh_is_locked := x\<rparr>)\<rparr>) = held q w"
  by (auto simp: held_def item_at_def)

lemma lock_at_keeps:
  assumes "lock_at yield h w = Some w'" "held q w" and y: "\<And>w. held q w \<Longrightarrow> held q (yield w)"
  shows "held q w'"
  using assms(1) [unfolded lock_at_def] assms(2)
proof (rule spin_lock_invariant)
  show "held q (snd (try_lock_at h w))" if "held q w" for w
    using that by (auto simp: try_lock_at_def header_try_lock_def)
qed (rule y)

text \<open>A search neither gives out an item that is held nor frees it.\<close>

lemma search_keeps:
  assumes ret: "get_first_available_item_locked pl h sz mn mx w = Some (r, w')"
    and wf: "wf_header (w_headers w h)" and q: "held q w"
  shows "held q w' \<and> r \<noteq> Some q"
  using search_header [OF wf, of pl sz mn mx]
proof (elim disjE exE conjE, goal_cases)
  case 1
  with ret q show ?case by simp
next
  case (2 i)
  with ret have eq: "r = Some (Item_Ptr h i)"
    "w' = put_item (Item_Ptr h i) ((lh_items (w_headers w h) ! i)\<lparr>li_is_taken := 1\<rparr>) w" by simp_all
  have ne: "q \<noteq> Item_Ptr h i" using 2 q by (auto simp: held_def item_at_def available_def)
  then have "i \<noteq> ip_index q \<or> h \<noteq> ip_header q" by (cases q) auto
  with q ne show ?case unfolding eq by (auto simp: held_def item_at_def put_item_def Let_def)
qed

lemma try_allocate_keeps:
  assumes ret: "try_allocate_item pl yield h sz mn mx w = Some (r, w')"
    and ok: "chain_ok used H w" "h \<in> H" "yield_ok used yield"
    and req: "honest_os pl" "sane_request (pl_sys pl) sz mx" "heap_ok pl used"
    and q: "held q w" and y: "\<And>w. held q w \<Longrightarrow> held q (yield w)"
  shows "held q w' \<and> r \<noteq> Inr q"
  using ret ok req
proof (cases rule: try_allocate_item_cases)
  case full
  with q show ?thesis by simp
next
  case (filled w1)
  with lock_at_keeps [OF filled(1) q y] show ?thesis by simp
next
  case (no_memory w1 st)
  with lock_at_keeps [OF no_memory(1) q y] show ?thesis by simp
next
  case (registers w1 it st)
  note q1 = lock_at_keeps [OF registers(1) q y]
  have "q \<noteq> Item_Ptr h (unat (lh_num_items (w_headers w1 h)))" using q1 by (auto simp: held_def)
  moreover have "held q w'"
    using q1 registered_num [OF registers(2)]
    by (auto simp: registers(6) held_def item_at_def registered_def nth_list_update)
  ultimately show ?thesis using registers(5) by auto
qed

lemma get_next_keeps:
  assumes ret: "get_next_locator pl yield h w = Some (r, w')"
    and ok: "chain_ok used H w" "h \<in> H" "yield_ok used yield"
    and page: "sane_page (pl_sys pl)" and heap: "heap_ok pl used"
    and q: "held q w" "ip_header q \<in> H" and y: "\<And>w. held q w \<Longrightarrow> held q (yield w)"
  shows "held q w'"
  using ret ok page heap
proof (cases rule: get_next_locator_cases)
  case present
  with q show ?thesis by simp
next
  case (appeared w1)
  with lock_at_keeps [OF appeared(1) q(1) y] show ?thesis by simp
next
  case (no_memory w1 st msg)
  with lock_at_keeps [OF no_memory(1) q(1) y] show ?thesis by simp
next
  case (created w1 a w4)
  note q1 = lock_at_keeps [OF created(1) q(1) y]
  have "ip_header q \<in> used (w_os w1)"
    using chain_ok_used [OF lock_at_ok [OF created(1) ok] q(2)] by blast
  then have "ip_header q = h \<or> w_headers w4 (ip_header q) = w_headers w1 (ip_header q)"
    using created(7) by blast
  then have "held q w4" using q1 created(6) by (auto simp: held_def item_at_def)
  then show ?thesis by (simp add: created(9))
qed

section \<open>A header that was just made\<close>

lemma as_headers_below:
  assumes "block_in U n (4096 + unat r)" and "unat x < unat n"
  shows "w_headers (initialize_remaining_space_as_headers n r w) x = w_headers w x"
  using assms
proof (induction "unat r" arbitrary: n r w rule: less_induct)
  case less
  show ?case
  proof (cases "ucast HEADER_LENGTH \<le> r")
    case True
    note nh = next_header [OF less.prems(1) True]
    have r: "4096 \<le> unat r" using True by (simp add: HEADER_LENGTH_def word_le_nat_alt)
    have "w_headers (initialize_remaining_space_as_headers (n + HEADER_LENGTH) (r - ucast HEADER_LENGTH)
        (link_header n (n + HEADER_LENGTH) w)) x = w_headers (link_header n (n + HEADER_LENGTH) w) x"
      using less.prems(2) nh r by (intro less.hyps) auto
    also have "\<dots> = w_headers w x"
      using less.prems(2) nh(1) by (auto simp: link_header_def)
    finally show ?thesis by (simp only: as_headers_step [OF True])
  qed (simp add: as_headers_stop)
qed

text \<open>The first header of the block keeps everything but its link.\<close>

lemma as_headers_first:
  assumes "block_in U h (4096 + unat r)"
  shows "w_headers (initialize_remaining_space_as_headers h r w) h =
    (if ucast HEADER_LENGTH \<le> r then (w_headers w h)\<lparr>lh_next_locator_ptr := h + HEADER_LENGTH\<rparr>
     else w_headers w h)"
proof (cases "ucast HEADER_LENGTH \<le> r")
  case True
  note nh = next_header [OF assms True]
  have "w_headers (initialize_remaining_space_as_headers h r w) h
      = w_headers (link_header h (h + HEADER_LENGTH) w) h"
    using nh(1) by (subst as_headers_step [OF True], subst as_headers_below [OF nh(5)]) simp_all
  moreover have "h \<noteq> h + HEADER_LENGTH" using nh(1) by auto
  ultimately show ?thesis using True by (auto simp: link_header_def)
qed (simp add: as_headers_stop)

lemma new_header_state:
  assumes ret: "initialize pl a len w = Some w'" and items: "length (lh_items (w_headers w a)) = 203"
    and len: "4096 \<le> unat len" "unat len \<le> 4096 + 202 * 16384" and mem: "unat a + unat len < 2 ^ 64"
  shows "lh_is_locked (w_headers w' a) = 0" and "\<not> is_full (w_headers w' a)"
    and "lh_this_address (w_headers w' a) = a"
proof -
  have le: "HEADER_LENGTH \<le> len" using len(1) by (simp add: HEADER_LENGTH_def word_le_nat_alt)
  then have "unat (len - HEADER_LENGTH) = unat len - 4096" by (simp add: unat_sub HEADER_LENGTH_def)
  then have r: "4096 + unat (ucast (len - HEADER_LENGTH) :: u32) = unat len"
    using len by (simp add: unat_usize_to_u32)
  have "lh_is_locked (w_headers w' a) = 0 \<and> \<not> is_full (w_headers w' a) \<and> lh_this_address (w_headers w' a) = a"
  proof (cases "cfg_macos_aarch64 (pl_target pl)")
    case True
    have "block_in UNIV a (4096 + unat (ucast (len - HEADER_LENGTH) :: u32))"
      using mem r by (simp add: block_in_def)
    note first = as_headers_first [OF this, of "put_header a (set_default_values a (w_headers w a)) w"]
    with ret True le show ?thesis
      by (auto simp: initialize_def arith_ok Let_def set_default_values_def is_full_iff split: if_splits)
  next
    case False
    have "unat len - 4096 + 16383 < 203 * 16384" using len(2) by simp
    then have "chunks (unat len - 4096) < 203" unfolding chunks_def by (rule less_mult_imp_div_less)
    with ret initialize_buffers [OF False len(1) _ items] len(2) show ?thesis
      by (auto simp: fresh_header_def is_full_iff unat_of_nat)
  qed
  then show "lh_is_locked (w_headers w' a) = 0" "\<not> is_full (w_headers w' a)" "lh_this_address (w_headers w' a) = a"
    by auto
qed

end
