(* ===== verification/Locator_Header_Finder.thy ===== *)
theory Locator_Header_Finder
  imports Header_Chain
begin

text \<open>
  \<open>src-rust/src/internal/locator_header_finder.rs\<close>: how a copy of the library finds the first header
  of its process, and makes it when there is none.
\<close>

text \<open>The statics \<open>LOCATOR_HEADER_ADDRESS\<close> and \<open>MMF\<close> of one copy of the library, and the process.\<close>

record 'o library =
  lib_header_address :: usize
  lib_mmf :: "memory_mapped_file option"
  lib_world :: "'o world"

definition cfg_unix :: "target \<Rightarrow> bool" where
  "cfg_unix t \<longleftrightarrow> tgt_os t \<noteq> Windows"

definition open_or_create_memory_mapped_file :: "'o platform \<Rightarrow> 'o \<Rightarrow> (memory_mapped_file \<times> 'o) option" where
  "open_or_create_memory_mapped_file pl st =
     (let name = ''/Reloaded.Memory.Buffers.MemoryBuffer, PID ''
            @ itoa_u32 (pl_unix pl) (ci_this_process_id (pl_sys pl));
          len = granularity (pl_sys pl)
      in if tgt_os (pl_target pl) = Windows
         then do {
           (m, st1) \<leftarrow> windows_mmf_new (pl_file_mapping pl) name len st;
           Some (Windows_Mmf m, st1)
         }
         else do {
           (m, st1) \<leftarrow> unix_mmf_new (pl_target pl) (pl_unix pl) name len st;
           Some (Unix_Mmf m, st1)
         })"

section \<open>Cleaning up after dead processes\<close>

definition MEMORY_MAPPED_FILE_PREFIX :: string where
  "MEMORY_MAPPED_FILE_PREFIX = ''Reloaded.Memory.Buffers.MemoryBuffer, PID ''"

text \<open>\<open>CStr::to_str\<close> succeeds on valid UTF-8.\<close>

definition utf8_cont :: "nat \<Rightarrow> bool" where
  "utf8_cont b \<longleftrightarrow> 0x80 \<le> b \<and> b \<le> 0xBF"

fun utf8_valid :: "nat list \<Rightarrow> bool" where
  "utf8_valid [] = True"
| "utf8_valid (a # r) =
     (if a < 0x80 then utf8_valid r
      else if 0xC2 \<le> a \<and> a \<le> 0xDF
      then (case r of b # r1 \<Rightarrow> utf8_cont b \<and> utf8_valid r1 | _ \<Rightarrow> False)
      else if 0xE0 \<le> a \<and> a \<le> 0xEF
      then (case r of
          b # c # r2 \<Rightarrow> (if a = 0xE0 then 0xA0 else 0x80) \<le> b \<and> b \<le> (if a = 0xED then 0x9F else 0xBF) \<and>
            utf8_cont c \<and> utf8_valid r2
        | _ \<Rightarrow> False)
      else if 0xF0 \<le> a \<and> a \<le> 0xF4
      then (case r of
          b # c # d # r3 \<Rightarrow> (if a = 0xF0 then 0x90 else 0x80) \<le> b \<and> b \<le> (if a = 0xF4 then 0x8F else 0xBF) \<and>
            utf8_cont c \<and> utf8_cont d \<and> utf8_valid r3
        | _ \<Rightarrow> False)
      else False)"

definition EPERM :: i32 where
  "EPERM = 1"

definition is_process_running :: "'o unix_api \<Rightarrow> i32 \<Rightarrow> 'o \<Rightarrow> bool \<times> 'o" where
  "is_process_running api pid st =
     (let ((r, errno), st1) = kill_0 api pid st in (r = 0 \<or> errno = EPERM, st1))"

definition cleanup_entry :: "'o unix_api \<Rightarrow> string \<Rightarrow> 'o \<Rightarrow> 'o" where
  "cleanup_entry api file_name st =
     (if \<not> utf8_valid (map of_char file_name) then st
      else if take (length MEMORY_MAPPED_FILE_PREFIX) file_name \<noteq> MEMORY_MAPPED_FILE_PREFIX then st
      else (case parse_i32 (drop (length MEMORY_MAPPED_FILE_PREFIX) file_name) of
          None \<Rightarrow> st
        | Some pid \<Rightarrow>
            (let (running, st1) = is_process_running api pid st
             in if \<not> running then unlink api file_name st1 else st1)))"

partial_function (option) cleanup_loop :: "'o unix_api \<Rightarrow> usize \<Rightarrow> 'o \<Rightarrow> 'o option" where
  "cleanup_loop api dir st =
     (let (entry, st1) = readdir api dir st in
      case entry of
        None \<Rightarrow> Some st1
      | Some file_name \<Rightarrow> cleanup_loop api dir (cleanup_entry api file_name st1))"

declare cleanup_loop.simps [code]

definition cleanup :: "target \<Rightarrow> 'o unix_api \<Rightarrow> 'o \<Rightarrow> 'o option" where
  "cleanup t api st = do {
     c_mmf_directory \<leftarrow> c_string (BASE_DIR t);
     let (dir, st1) = opendir api c_mmf_directory st;
     if dir = 0 then Some st1
     else do {
       st2 \<leftarrow> cleanup_loop api dir st1;
       Some (closedir api dir st2)
     }
   }"

section \<open>Finding the header\<close>

definition init_locatorheader_standard :: "'o platform \<Rightarrow> 'o library \<Rightarrow> (usize \<times> 'o library) option" where
  "init_locatorheader_standard pl lib = do {
     (mmf, st) \<leftarrow> open_or_create_memory_mapped_file pl (w_os (lib_world lib));
     let w = put_os st (lib_world lib);
     if already_existed mmf
     then do {
       let header_addr = mmf_data mmf;
       let address = lh_this_address (w_headers w header_addr);
       let st1 = mmf_drop (pl_unix pl) (pl_file_mapping pl) mmf (w_os w);
       Some (address, lib\<lparr>lib_header_address := address, lib_world := put_os st1 w\<rparr>)
     }
     else do {
       st1 \<leftarrow> (if cfg_unix (pl_target pl) then cleanup (pl_target pl) (pl_unix pl) (w_os w)
              else Some (w_os w));
       let address = mmf_data mmf;
       w2 \<leftarrow> initialize pl address (mmf_length mmf) (put_os st1 w);
       let st2 = (case lib_mmf lib of
           None \<Rightarrow> w_os w2
         | Some old \<Rightarrow> mmf_drop (pl_unix pl) (pl_file_mapping pl) old (w_os w2));
       Some (address, lib\<lparr>lib_header_address := address, lib_mmf := Some mmf, lib_world := put_os st2 w2\<rparr>)
     }
   }"

definition init_locatorheader_memorymappedfiles_unsupported ::
  "'o platform \<Rightarrow> 'o library \<Rightarrow> (usize \<times> 'o library) option" where
  "init_locatorheader_memorymappedfiles_unsupported pl lib =
     (let sys_info = pl_sys pl;
          settings = \<lparr>bas_min_address = 0, bas_max_address = ci_max_address sys_info,
            bas_size = ci_allocation_granularity sys_info,
            bas_target_process_id = ci_this_process_id sys_info,
            bas_retry_count = 8, bas_brute_force = True\<rparr>
      in do {
        (result, _, st) \<leftarrow> allocate pl settings (w_os (lib_world lib));
        case result of
          Inl _ \<Rightarrow> None
        | Inr allocation \<Rightarrow> do {
            let address = li_base_address allocation;
            w \<leftarrow> initialize pl address (ucast (li_size allocation)) (put_os st (lib_world lib));
            Some (address, lib\<lparr>lib_header_address := address, lib_world := w\<rparr>)
          }
      })"

text \<open>
  \<open>find\<close>: \<open>wait\<close> is what other threads do to the library's state until \<open>GLOBAL_LOCK\<close> is acquired.  The
  address is not looked at again after that.
\<close>

definition find_header ::
  "'o platform \<Rightarrow> ('o library \<Rightarrow> 'o library) \<Rightarrow> 'o library \<Rightarrow> (usize \<times> 'o library) option" where
  "find_header pl wait lib =
     (if lib_header_address lib \<noteq> 0 then Some (lib_header_address lib, lib)
      else (let lib1 = wait lib in
        if tgt_os (pl_target pl) = Android \<or> pl_all_private pl
        then init_locatorheader_memorymappedfiles_unsupported pl lib1
        else init_locatorheader_standard pl lib1))"

end
