(* ===== verification/Private_Allocation.thy ===== *)
theory Private_Allocation
  imports Buffer_Allocator
begin

text \<open>
  \<open>PrivateAllocation\<close> of \<open>src-rust/src/structs/private_allocation.rs\<close>: memory for the caller alone,
  given back when the value is dropped.
\<close>

record private_allocation =
  pa_base_address :: usize
  pa_size :: usize
  pa_this_process_id :: u32

definition private_allocation_new :: "usize \<Rightarrow> usize \<Rightarrow> u32 \<Rightarrow> private_allocation" where
  "private_allocation_new base_address sz process_id =
     \<lparr>pa_base_address = base_address, pa_size = sz, pa_this_process_id = process_id\<rparr>"

definition base_address :: "private_allocation \<Rightarrow> usize" where
  "base_address p = pa_base_address p"

definition allocation_size :: "private_allocation \<Rightarrow> usize" where
  "allocation_size p = pa_size p"

text \<open>\<open>null\<close> breaks the promise of \<open>NonNull\<close>; the C interface uses it for a result that must not be read.\<close>

definition private_allocation_null :: private_allocation where
  "private_allocation_null = \<lparr>pa_base_address = 0, pa_size = 0, pa_this_process_id = 0\<rparr>"

section \<open>Freeing\<close>

definition drop_windows :: "'o windows_api \<Rightarrow> private_allocation \<Rightarrow> 'o \<Rightarrow> 'o" where
  "drop_windows api p st = snd (VirtualFree api (pa_base_address p) 0 MEM_RELEASE st)"

definition drop_macos :: "cached \<Rightarrow> 'o mach_api \<Rightarrow> private_allocation \<Rightarrow> 'o \<Rightarrow> 'o" where
  "drop_macos sys api p st =
     (if pa_this_process_id p = ci_this_process_id sys
      then (let (task, st1) = mach_task_self api st
            in snd (mach_vm_deallocate api task (pa_base_address p) (pa_size p) st1))
      else st)"

definition drop_unix :: "cached \<Rightarrow> 'o linux_api \<Rightarrow> private_allocation \<Rightarrow> 'o \<Rightarrow> 'o" where
  "drop_unix sys api p st =
     (if pa_this_process_id p = ci_this_process_id sys
      then snd (munmap api (pa_base_address p) (pa_size p) st)
      else st)"

definition drop_mmap_rs :: "'o mmap_rs_api \<Rightarrow> private_allocation \<Rightarrow> 'o \<Rightarrow> 'o option" where
  "drop_mmap_rs api p st =
     (if \<not> options_new api (pa_size p) then None
      else (let (ok, st1) = map_from_existing api (pa_base_address p) (pa_size p) st
            in if \<not> ok then None else Some (unmap api (pa_base_address p) (pa_size p) st1)))"

definition private_allocation_drop :: "'o platform \<Rightarrow> private_allocation \<Rightarrow> 'o \<Rightarrow> 'o option" where
  "private_allocation_drop pl p st =
     (case tgt_os (pl_target pl) of
        Windows \<Rightarrow> Some (drop_windows (pl_windows pl) p st)
      | Linux \<Rightarrow> Some (drop_unix (pl_sys pl) (pl_linux pl) p st)
      | Macos \<Rightarrow> Some (drop_macos (pl_sys pl) (pl_mach pl) p st)
      | _ \<Rightarrow> drop_mmap_rs (pl_mmap_rs pl) p st)"

end
