(* ===== verification/Buffers.thy ===== *)
theory Buffers
  imports Locator_Header_Finder Private_Allocation
begin

text \<open>
  The public interface \<open>src-rust/src/buffers.rs\<close>.
\<close>

definition allocate_private_memory ::
  "'o platform \<Rightarrow> buffer_allocator_settings \<Rightarrow> 'o \<Rightarrow>
   ((buffer_allocation_error + private_allocation) \<times> buffer_allocator_settings \<times> 'o) option" where
  "allocate_private_memory pl settings st = do {
     (result, settings', st1) \<leftarrow> allocate pl settings st;
     case result of
       Inl e \<Rightarrow> Some (Inl e, settings', st1)
     | Inr alloc \<Rightarrow>
         if li_base_address alloc = 0 then None
         else Some (Inr (private_allocation_new (li_base_address alloc) (ucast (li_size alloc))
                (bas_target_process_id settings')), settings', st1)
   }"

text \<open>The walk along the chain; \<open>None\<close> also stands for a walk that never ends.\<close>

partial_function (option) get_buffer_recursive ::
  "'o platform \<Rightarrow> ('o world \<Rightarrow> 'o world) \<Rightarrow> buffer_search_settings \<Rightarrow> usize \<Rightarrow> 'o world \<Rightarrow>
   ((buffer_search_error + item_ptr) \<times> 'o world) option" where
  "get_buffer_recursive pl yield settings locator w = do {
     (item, w1) \<leftarrow> get_first_available_item_locked pl locator (bss_size settings)
       (bss_min_address settings) (bss_max_address settings) w;
     case item of
       Some p \<Rightarrow> Some (Inr p, w1)
     | None \<Rightarrow> do {
         (result, w2) \<leftarrow> try_allocate_item pl yield locator (bss_size settings)
           (bss_min_address settings) (bss_max_address settings) w1;
         case result of
           Inr new_item \<Rightarrow> Some (Inr new_item, w2)
         | Inl error \<Rightarrow>
             if error = CannotAllocateMemory
             then Some (Inl (search_error_new settings (item_allocation_error_as_string error)), w2)
             else do {
               (next_locator, w3) \<leftarrow> get_next_locator pl yield locator w2;
               case next_locator of
                 Inr locator' \<Rightarrow> get_buffer_recursive pl yield settings locator' w3
               | Inl error' \<Rightarrow> Some (Inl (search_error_new settings error'), w3)
             }
       }
   }"

declare get_buffer_recursive.simps [code]

definition get_buffer ::
  "'o platform \<Rightarrow> ('o library \<Rightarrow> 'o library) \<Rightarrow> ('o world \<Rightarrow> 'o world) \<Rightarrow> buffer_search_settings \<Rightarrow>
   'o library \<Rightarrow> ((buffer_search_error + item_ptr) \<times> 'o library) option" where
  "get_buffer pl wait yield settings lib = do {
     (locator, lib1) \<leftarrow> find_header pl wait lib;
     (result, w) \<leftarrow> get_buffer_recursive pl yield settings locator (lib_world lib1);
     Some (result, lib1\<lparr>lib_world := w\<rparr>)
   }"

text \<open>The part of \<open>get_buffer_aligned\<close> that moves the position of the item to an aligned address.\<close>

definition align_item :: "build \<Rightarrow> u32 \<Rightarrow> locator_item \<Rightarrow> locator_item option" where
  "align_item b alignment it = do {
     address \<leftarrow> wadd b (li_base_address it) (ucast (li_position it));
     aligned_address \<leftarrow> round_up b address (ucast alignment);
     delta \<leftarrow> wsub b aligned_address address;
     position \<leftarrow> wadd b (li_position it) (ucast delta);
     Some (it\<lparr>li_position := position\<rparr>)
   }"

definition get_buffer_aligned ::
  "'o platform \<Rightarrow> ('o library \<Rightarrow> 'o library) \<Rightarrow> ('o world \<Rightarrow> 'o world) \<Rightarrow> buffer_search_settings \<Rightarrow> u32 \<Rightarrow>
   'o library \<Rightarrow> ((buffer_search_error + item_ptr) \<times> 'o library) option" where
  "get_buffer_aligned pl wait yield settings alignment lib =
     (let max_misalignment = (if alignment = 0 then 0 else alignment - 1) in do {
        sz \<leftarrow> wadd (pl_build pl) (bss_size settings) max_misalignment;
        let new_settings = settings\<lparr>bss_size := sz\<rparr>;
        (result, lib1) \<leftarrow> get_buffer pl wait yield new_settings lib;
        case result of
          Inl e \<Rightarrow> Some (Inl e, lib1)
        | Inr p \<Rightarrow> do {
            it \<leftarrow> align_item (pl_build pl) alignment (item_at (lib_world lib1) p);
            Some (Inr p, lib1\<lparr>lib_world := put_item p it (lib_world lib1)\<rparr>)
          }
      })"

section \<open>Overwriting code\<close>

definition copy_nonoverlapping :: "usize \<Rightarrow> usize \<Rightarrow> usize \<Rightarrow> memory \<Rightarrow> memory" where
  "copy_nonoverlapping source target sz m = write_bytes target (read_bytes source (unat sz) m) m"

definition overwrite_allocated_code ::
  "'o platform \<Rightarrow> usize \<Rightarrow> usize \<Rightarrow> usize \<Rightarrow> 'o machine \<Rightarrow> 'o machine option" where
  "overwrite_allocated_code pl source target sz m =
     (let m1 = m\<lparr>os := disable_write_xor_execute (pl_target pl) (pl_code pl) target sz (os m)\<rparr>;
          m2 = m1\<lparr>mem := copy_nonoverlapping source target sz (mem m1)\<rparr>;
          m3 = m2\<lparr>os := restore_write_xor_execute (pl_target pl) (pl_code pl) target sz (os m2)\<rparr>
      in do {
        st \<leftarrow> clear_instruction_cache (pl_build pl) (pl_target pl) (pl_code pl) target (target + sz) (os m3);
        Some (m3\<lparr>os := st\<rparr>)
      })"

definition overwrite_allocated_code_ex ::
  "'o platform \<Rightarrow> usize \<Rightarrow> usize \<Rightarrow> usize \<Rightarrow> (usize \<Rightarrow> usize \<Rightarrow> usize \<Rightarrow> 'o machine \<Rightarrow> 'o machine) \<Rightarrow>
   'o machine \<Rightarrow> 'o machine option" where
  "overwrite_allocated_code_ex pl source target sz callback m =
     (let m1 = m\<lparr>os := disable_write_xor_execute (pl_target pl) (pl_code pl) target sz (os m)\<rparr>;
          m2 = callback source target sz m1;
          m3 = m2\<lparr>os := restore_write_xor_execute (pl_target pl) (pl_code pl) target sz (os m2)\<rparr>
      in do {
        st \<leftarrow> clear_instruction_cache (pl_build pl) (pl_target pl) (pl_code pl) target (target + sz) (os m3);
        Some (m3\<lparr>os := st\<rparr>)
      })"

end
