(* ===== verification/Buffer_Facts.thy ===== *)
theory Buffer_Facts
  imports Buffers
begin

text \<open>
  What \<open>Buffers\<close> promises its callers: the item it returns is locked for them and fits the request,
  an aligned request is aligned, and the search ends.
\<close>

section \<open>The item that is returned\<close>

text \<open>
  What the search relies on from the system and from other threads; \<open>Q\<close> are items whose holders
  keep them meanwhile.
\<close>

definition search_ok ::
  "'o platform \<Rightarrow> ('o \<Rightarrow> usize set) \<Rightarrow> ('o world \<Rightarrow> 'o world) \<Rightarrow> item_ptr set \<Rightarrow> u32 \<Rightarrow> usize \<Rightarrow> bool" where
  "search_ok pl used yield Q sz mx \<longleftrightarrow> (\<forall>q \<in> Q. \<forall>w. held q w \<longrightarrow> held q (yield w)) \<and>
     honest_os pl \<and> sane_request (pl_sys pl) sz mx \<and> sane_page (pl_sys pl) \<and>
     heap_ok pl used \<and> yield_ok used yield"

definition world_ok :: "('o \<Rightarrow> usize set) \<Rightarrow> usize set \<Rightarrow> item_ptr set \<Rightarrow> 'o world \<Rightarrow> bool" where
  "world_ok used H Q w \<longleftrightarrow> chain_ok used H w \<and> (\<forall>q \<in> Q. held q w \<and> ip_header q \<in> H)"

text \<open>
  The answer of a search: an item that is granted, in a header of the chain, and is none of those
  that were held, or an error that names the settings, with a text that a C string can hold; the
  invariant holds and the held items are still held.
\<close>

definition search_answer ::
  "('o \<Rightarrow> usize set) \<Rightarrow> usize set \<Rightarrow> item_ptr set \<Rightarrow> buffer_search_settings \<Rightarrow>
   (buffer_search_error + item_ptr) \<times> 'o world \<Rightarrow> bool" where
  "search_answer used H Q s = (\<lambda>(r, w). chain_ok used H w \<and> (\<forall>q \<in> Q. held q w) \<and>
     (case r of
        Inr p \<Rightarrow> p \<notin> Q \<and> granted (bss_size s) (bss_min_address s) (bss_max_address s) p w \<and>
          chain_ok used (insert (ip_header p) H) w
      | Inl e \<Rightarrow> bse_settings e = s \<and> CHR 0x00 \<notin> set (bse_text e)))"

lemma search_answer_mono: "search_answer used H Q s r \<Longrightarrow> K \<subseteq> H \<Longrightarrow> search_answer used K Q s r"
  by (auto simp: search_answer_def split: sum.split intro: chain_ok_mono chain_ok_mono [OF _ insert_mono])

lemma error_texts_no_nul [no_nul]:
  "CHR 0x00 \<notin> set (item_allocation_error_as_string e)"
  "get_next_locator pl yield h w = Some (Inl m, w') \<Longrightarrow> CHR 0x00 \<notin> set m"
  by (cases e, simp_all)
    (auto simp: get_next_locator_def Let_def Option.bind_eq_Some_conv split: if_splits prod.splits)

text \<open>
  The rule for the walk along the chain: an invariant of header and state before each of the three
  operations on a header, which lead from one to the next until one of them settles the answer.
\<close>

lemma get_buffer_recursive_steps:
  assumes ret: "get_buffer_recursive pl yield s h w = Some (r, w')" and start: "I h w"
    and search: "\<And>h w r w'. I h w \<Longrightarrow>
      get_first_available_item_locked pl h (bss_size s) (bss_min_address s) (bss_max_address s) w = Some (r, w') \<Longrightarrow>
      (case r of Some p \<Rightarrow> R (Inr p) w' | None \<Rightarrow> J h w')"
    and alloc: "\<And>h w r w'. J h w \<Longrightarrow>
      try_allocate_item pl yield h (bss_size s) (bss_min_address s) (bss_max_address s) w = Some (r, w') \<Longrightarrow>
      (case r of Inr p \<Rightarrow> R (Inr p) w' | Inl NoSpaceInHeader \<Rightarrow> K h w'
       | Inl CannotAllocateMemory \<Rightarrow>
          R (Inl (search_error_new s (item_allocation_error_as_string CannotAllocateMemory))) w')"
    and follow: "\<And>h w r w'. K h w \<Longrightarrow> get_next_locator pl yield h w = Some (r, w') \<Longrightarrow>
      (case r of Inr h' \<Rightarrow> I h' w' | Inl m \<Rightarrow> R (Inl (search_error_new s m)) w')"
  shows "R r w'"
proof -
  let ?P = "\<lambda>pl' yield' s' h w x. pl' = pl \<longrightarrow> yield' = yield \<longrightarrow> s' = s \<longrightarrow> I h w \<longrightarrow> R (fst x) (snd x)"
  have "?P pl yield s h w (r, w')"
  proof (rule get_buffer_recursive.raw_induct [where P = ?P, OF _ ret], intro impI, goal_cases)
    case (1 walk pl' yield' s' h w x)
    note IH = 1(1) [rule_format, OF _ refl refl refl] and eq = 1(2) [unfolded 1(3-5)]
    from eq obtain item w1 where first: "get_first_available_item_locked pl h (bss_size s)
        (bss_min_address s) (bss_max_address s) w = Some (item, w1)"
      by (auto simp: Option.bind_eq_Some_conv)
    note ok1 = search [OF 1(6) first]
    show ?case
    proof (cases item)
      case None
      with eq first obtain res w2 where new: "try_allocate_item pl yield h (bss_size s)
          (bss_min_address s) (bss_max_address s) w1 = Some (res, w2)"
        by (auto simp: Option.bind_eq_Some_conv)
      note ok2 = alloc [OF ok1 [unfolded None, simplified] new]
      show ?thesis
      proof (cases "res = Inl NoSpaceInHeader")
        case True
        with eq first None new obtain nxt w3 where
          next_loc: "get_next_locator pl yield h w2 = Some (nxt, w3)"
          and rest: "(case nxt of Inr h' \<Rightarrow> walk pl yield s h' w3
            | Inl m \<Rightarrow> Some (Inl (search_error_new s m), w3)) = Some x"
          by (auto simp: Option.bind_eq_Some_conv)
        from ok2 True have "K h w2" by simp
        from follow [OF this next_loc] rest IH show ?thesis by (cases nxt) auto
      qed (use eq first None new ok2 in \<open>auto split: sum.splits item_allocation_error.splits\<close>)
    qed (use eq first ok1 in auto)
  qed
  with start show ?thesis by simp
qed

lemma get_buffer_recursive_rule:
  assumes ret: "get_buffer_recursive pl yield s h w = Some (r, w')" and start: "I h w"
    and search: "\<And>h w r w'. I h w \<Longrightarrow>
      get_first_available_item_locked pl h (bss_size s) (bss_min_address s) (bss_max_address s) w = Some (r, w') \<Longrightarrow>
      (case r of Some p \<Rightarrow> R (Inr p) w' | None \<Rightarrow> I h w')"
    and alloc: "\<And>h w r w'. I h w \<Longrightarrow>
      try_allocate_item pl yield h (bss_size s) (bss_min_address s) (bss_max_address s) w = Some (r, w') \<Longrightarrow>
      (case r of Inr p \<Rightarrow> R (Inr p) w'
       | Inl e \<Rightarrow> I h w' \<and> R (Inl (search_error_new s (item_allocation_error_as_string e))) w')"
    and follow: "\<And>h w r w'. I h w \<Longrightarrow> get_next_locator pl yield h w = Some (r, w') \<Longrightarrow>
      (case r of Inr h' \<Rightarrow> I h' w' | Inl m \<Rightarrow> R (Inl (search_error_new s m)) w')"
  shows "R r w'"
  using ret start
proof (rule get_buffer_recursive_steps [where J = I and K = I])
  fix h w r w'
  assume "I h w" "try_allocate_item pl yield h (bss_size s) (bss_min_address s) (bss_max_address s) w = Some (r, w')"
  from alloc [OF this] show "case r of Inr p \<Rightarrow> R (Inr p) w' | Inl NoSpaceInHeader \<Rightarrow> I h w'
      | Inl CannotAllocateMemory \<Rightarrow>
          R (Inl (search_error_new s (item_allocation_error_as_string CannotAllocateMemory))) w'"
    by (auto split: sum.splits item_allocation_error.splits)
qed (use search follow in auto)

lemma search_keeps_world:
  assumes first: "get_first_available_item_locked pl h (bss_size s) (bss_min_address s) (bss_max_address s) w = Some (item, w1)"
    and K: "world_ok used K Q w" "h \<in> K"
  shows "world_ok used K Q w1" and "item = Some p \<Longrightarrow> search_answer used K Q s (Inr p, w1)"
proof -
  have ok: "chain_ok used K w" and Q: "\<And>q. q \<in> Q \<Longrightarrow> held q w \<and> ip_header q \<in> K"
    using K(1) by (auto simp: world_ok_def)
  have "held q w1 \<and> item \<noteq> Some q" if "q \<in> Q" for q
    using search_keeps [OF first chain_ok_wf [OF ok K(2)]] Q [OF that] by blast
  then show "world_ok used K Q w1" "item = Some p \<Longrightarrow> search_answer used K Q s (Inr p, w1)"
    using search_result_ok [OF first ok K(2)] Q K(2) by (auto simp: world_ok_def search_answer_def insert_absorb)
qed

lemma try_allocate_keeps_world:
  assumes new: "try_allocate_item pl yield h (bss_size s) (bss_min_address s) (bss_max_address s) w = Some (res, w1)"
    and env: "search_ok pl used yield Q (bss_size s) (bss_max_address s)" and K: "world_ok used K Q w" "h \<in> K"
  shows "world_ok used K Q w1" and "res = Inr p \<Longrightarrow> search_answer used K Q s (Inr p, w1)"
    and "search_answer used K Q s (Inl (search_error_new s (item_allocation_error_as_string e)), w1)"
proof -
  from env have env': "yield_ok used yield" "honest_os pl" "sane_request (pl_sys pl) (bss_size s) (bss_max_address s)"
    "heap_ok pl used" and y: "\<And>q w. q \<in> Q \<Longrightarrow> held q w \<Longrightarrow> held q (yield w)" by (simp_all add: search_ok_def)
  have ok: "chain_ok used K w" and Q: "\<And>q. q \<in> Q \<Longrightarrow> held q w \<and> ip_header q \<in> K"
    using K(1) by (auto simp: world_ok_def)
  have "held q w1 \<and> res \<noteq> Inr q" if "q \<in> Q" for q
    using try_allocate_keeps [OF new ok K(2) env'] Q [OF that] y that by blast
  then show "world_ok used K Q w1" "res = Inr p \<Longrightarrow> search_answer used K Q s (Inr p, w1)"
    "search_answer used K Q s (Inl (search_error_new s (item_allocation_error_as_string e)), w1)"
    using try_allocate_item_ok [OF new ok K(2) env'] Q K(2)
    by (auto simp: world_ok_def search_answer_def insert_absorb search_error_new_def no_nul)
qed

lemma get_next_keeps_world:
  assumes next_loc: "get_next_locator pl yield h w = Some (nxt, w1)"
    and env: "search_ok pl used yield Q (bss_size s) (bss_max_address s)" and K: "world_ok used K Q w" "h \<in> K"
  shows "nxt = Inr h' \<Longrightarrow> world_ok used (insert h' K) Q w1"
    and "nxt = Inl m \<Longrightarrow> search_answer used K Q s (Inl (search_error_new s m), w1)"
proof -
  from env have env': "yield_ok used yield" "sane_page (pl_sys pl)" "heap_ok pl used"
    and y: "\<And>q w. q \<in> Q \<Longrightarrow> held q w \<Longrightarrow> held q (yield w)" by (simp_all add: search_ok_def)
  have ok: "chain_ok used K w" and Q: "\<And>q. q \<in> Q \<Longrightarrow> held q w \<and> ip_header q \<in> K"
    using K(1) by (auto simp: world_ok_def)
  have "held q w1" if "q \<in> Q" for q
    using get_next_keeps [OF next_loc ok K(2) env'] Q [OF that] y that by blast
  then show "nxt = Inr h' \<Longrightarrow> world_ok used (insert h' K) Q w1"
    "nxt = Inl m \<Longrightarrow> search_answer used K Q s (Inl (search_error_new s m), w1)"
    using get_next_locator_ok [OF next_loc ok K(2) env'] Q next_loc
    by (auto simp: world_ok_def search_answer_def search_error_new_def no_nul)
qed

lemma get_buffer_recursive_answer:
  assumes ret: "get_buffer_recursive pl yield s h w = Some (r, w')"
    and env: "search_ok pl used yield Q (bss_size s) (bss_max_address s)"
    and ok: "world_ok used H Q w" "h \<in> H"
  shows "search_answer used H Q s (r, w')"
proof -
  let ?I = "\<lambda>h w. \<exists>K. H \<subseteq> K \<and> h \<in> K \<and> world_ok used K Q w" and ?R = "\<lambda>r w. search_answer used H Q s (r, w)"
  show ?thesis
  proof (rule get_buffer_recursive_rule [where I = ?I and R = ?R, OF ret])
    show "?I h w" using ok by blast
  next
    fix h w item w1
    assume "?I h w" and first: "get_first_available_item_locked pl h (bss_size s) (bss_min_address s)
      (bss_max_address s) w = Some (item, w1)"
    then obtain K where K: "H \<subseteq> K" "h \<in> K" "world_ok used K Q w" by blast
    from search_keeps_world [OF first K(3,2)] K(1,2) show "case item of Some p \<Rightarrow> ?R (Inr p) w1 | None \<Rightarrow> ?I h w1"
      by (cases item) (auto intro: search_answer_mono)
  next
    fix h w res w2
    assume "?I h w" and new: "try_allocate_item pl yield h (bss_size s) (bss_min_address s) (bss_max_address s) w
      = Some (res, w2)"
    then obtain K where K: "H \<subseteq> K" "h \<in> K" "world_ok used K Q w" by blast
    from try_allocate_keeps_world [OF new env K(3,2)] K(1,2) show "case res of Inr p \<Rightarrow> ?R (Inr p) w2
      | Inl e \<Rightarrow> ?I h w2 \<and> ?R (Inl (search_error_new s (item_allocation_error_as_string e))) w2"
      by (cases res) (auto intro: search_answer_mono)
  next
    fix h w nxt w3
    assume "?I h w" and next_loc: "get_next_locator pl yield h w = Some (nxt, w3)"
    then obtain K where K: "H \<subseteq> K" "h \<in> K" "world_ok used K Q w" by blast
    from get_next_keeps_world [OF next_loc env K(3,2)] K(1)
    show "case nxt of Inr h' \<Rightarrow> ?I h' w3 | Inl m \<Rightarrow> ?R (Inl (search_error_new s m)) w3"
      by (cases nxt) (auto intro: search_answer_mono exI [of _ "insert (projr nxt) K"])
  qed
qed

section \<open>Alignment\<close>

text \<open>Moving the position of an item with room for the misalignment: it only advances, by less than the alignment.\<close>

lemma align_item_advances:
  assumes wf: "wf_item it" and al: "al \<noteq> 0"
    and room: "n + (unat al - 1) \<le> free_bytes it"
    and top: "unat (li_base_address it) + unat (li_size it) < 2 ^ 64 - 1"
  shows "\<exists>d. align_item b al it = Some (advance d it) \<and> d < unat al \<and> n + d \<le> free_bytes it \<and>
    unat al dvd unat (next_address (advance d it))"
proof -
  let ?a = "next_address it"
  have al0: "0 < unat al" using al by (simp add: unat_gt_0)
  have "unat ?a + free_bytes it = unat (li_base_address it) + unat (li_size it)"
    using unat_next_address(2) [OF wf] wf by (simp add: free_bytes_def wf_item_def word_le_nat_alt)
  then have "unat ?a + unat (ucast al :: usize) < 2 ^ 64" using room top by simp
  then obtain r where r: "round_up b ?a (ucast al) = Some r" "?a \<le> r" by (rule round_up_total)
  have "(ucast al :: usize) \<noteq> 0"
    using al0 by (metis unat_u32_to_usize unat_0 less_numeral_extra(3))
  from round_up_sound [OF r this] have dv: "unat al dvd unat r" and lt: "unat r < unat ?a + unat al"
    by simp_all
  define d where "d = unat r - unat ?a"
  have d: "unat r = unat ?a + d" "d < unat al" "n + d \<le> free_bytes it"
    using r(2) lt room al0 by (auto simp: d_def word_le_nat_alt)
  have "d < 18446744073709551616" using d(1) unat_usize_lt [of r] by simp
  then have "unat (of_nat d :: usize) = d" by (rule unat_of_nat_usize)
  moreover have "unat (r - ?a) = d" using r(2) d(1) by (simp add: unat_sub)
  ultimately have sub: "wsub b r ?a = Some (r - ?a)" "r - ?a = of_nat d"
    using r(2) by (simp_all add: arith_ok word_unat_eq_iff)
  have fits: "d \<le> free_bytes it" using d(3) by simp
  have "align_item b al it = Some (advance d it)"
    using advance_wadd [OF wf fits, of b] r(1) sub
    by (simp add: align_item_def wf_next_address [OF wf] advance_def)
  moreover have "unat (next_address (advance d it)) = unat r"
    using advance_facts(5) [OF wf fits] d(1) by simp
  ultimately show ?thesis using d dv by auto
qed

text \<open>The item of a search for the size and the misalignment, after it was aligned.\<close>

lemma aligned_item:
  assumes g: "granted sz' mn mx p w" and al: "al \<noteq> 0" and sz: "unat sz' = unat sz + (unat al - 1)"
    and mx: "below_top mx"
  obtains it' where "align_item b al (item_at w p) = Some it'"
    and "item_at (put_item p it' w) p = it'"
    and "serves_request sz mn mx it'" "unat al dvd unat (next_address it')" "li_is_taken it' = 1"
proof -
  let ?it = "item_at w p"
  from g have it: "serves_request sz' mn mx ?it" "li_is_taken ?it = 1" "wf_item ?it"
    and idx: "ip_index p < length (lh_items (w_headers w (ip_header p)))"
    by (auto simp: granted_def serves_request_def wf_header_def)
  have room: "unat sz + (unat al - 1) \<le> free_bytes ?it"
    and top: "unat (li_base_address ?it) + unat (li_size ?it) < 2 ^ 64 - 1"
    using it(1) sz mx by (auto simp: serves_request_def below_top_def)
  obtain d where d: "align_item b al ?it = Some (advance d ?it)"
    "unat sz + d \<le> free_bytes ?it" "unat al dvd unat (next_address (advance d ?it))"
    using align_item_advances [OF it(3) al room top] by blast
  have fits: "d \<le> free_bytes ?it" using d(2) by simp
  show ?thesis
  proof (rule that [OF d(1)])
    show "item_at (put_item p (advance d ?it) w) p = advance d ?it"
      using idx by (simp add: item_at_def put_item_def Let_def)
    show "serves_request sz mn mx (advance d ?it)"
      using it(1) d(2) advance_facts [OF it(3) fits]
      by (auto simp: serves_request_def word_le_nat_alt)
  qed (use d(3) it(2) in simp_all)
qed

section \<open>The search ends\<close>

text \<open>
  The headers from \<open>h\<close> on, none of them locked, up to one without a successor.
\<close>

fun open_path :: "'o world \<Rightarrow> usize \<Rightarrow> usize list \<Rightarrow> bool" where
  "open_path w h [] = False"
| "open_path w h (x # xs) \<longleftrightarrow> x = h \<and> lh_is_locked (w_headers w h) = 0 \<and>
     (if xs = [] then \<not> has_next_locator (w_headers w h)
      else has_next_locator (w_headers w h) \<and> open_path w (lh_next_locator_ptr (w_headers w h)) xs)"

text \<open>The system's allocator always answers, and the layout of a header allocation is valid.\<close>

definition allocator_answers :: "'o platform \<Rightarrow> u32 \<Rightarrow> usize \<Rightarrow> usize \<Rightarrow> bool" where
  "allocator_answers pl sz mn mx \<longleftrightarrow>
     (\<forall>st. \<exists>r. allocate pl (request_settings (pl_sys pl) sz mn mx) st = Some r) \<and>
     layout_ok (granularity (pl_sys pl)) (ucast (ci_page_size (pl_sys pl)))"

lemma lock_at_free:
  assumes "lh_is_locked (w_headers w h) = 0"
  shows "lock_at yield h w = Some (put_header h ((w_headers w h)\<lparr>lh_is_locked := 1\<rparr>) w)"
  using lock_at.spin_free [of w h yield] assms by (simp add: lock_at_def try_lock_at_def header_try_lock_def)

lemma is_full_lock [simp]: "is_full (hdr\<lparr>lh_is_locked := x\<rparr>) = is_full hdr"
  by (simp add: is_full_iff)

lemma try_allocate_full: "is_full (w_headers w h) \<Longrightarrow>
    try_allocate_item pl yield h sz mn mx w = Some (Inl NoSpaceInHeader, w)"
  by (simp add: try_allocate_item_def)

lemma try_allocate_answers:
  assumes ans: "allocator_answers pl sz mn mx" and req: "honest_os pl" "sane_request (pl_sys pl) sz mx"
    and wf: "wf_header (w_headers w h)" and free: "lh_is_locked (w_headers w h) = 0"
    and nf: "\<not> is_full (w_headers w h)"
  shows "\<exists>r w'. try_allocate_item pl yield h sz mn mx w = Some (r, w') \<and> r \<noteq> Inl NoSpaceInHeader"
proof -
  let ?w1 = "put_header h ((w_headers w h)\<lparr>lh_is_locked := 1\<rparr>) w"
  note lock = lock_at_free [OF free, of yield]
  obtain res s' st where alloc: "allocate pl (request_settings (pl_sys pl) sz mn mx) (w_os ?w1) = Some (res, s', st)"
    using ans unfolding allocator_answers_def by (metis prod_cases3)
  show ?thesis
  proof (cases res)
    case (Inl e)
    with alloc lock nf show ?thesis
      by (simp add: try_allocate_item_def unlock_at_held)
  next
    case (Inr it)
    have "li_is_taken it = 0" using allocate_fresh(3) [OF alloc [unfolded Inr] req(1)] req(2) by simp
    with try_allocate_item_registers [OF nf lock _ _ alloc [unfolded Inr]] nf wf show ?thesis by simp
  qed
qed

text \<open>A header that is not full ends the search.\<close>

lemma search_ends_here:
  assumes ans: "allocator_answers pl (bss_size s) (bss_min_address s) (bss_max_address s)"
    and req: "honest_os pl" "sane_request (pl_sys pl) (bss_size s) (bss_max_address s)"
    and wf: "wf_header (w_headers w h)" and free: "lh_is_locked (w_headers w h) = 0"
    and nf: "\<not> is_full (w_headers w h)"
  shows "\<exists>r. get_buffer_recursive pl yield s h w = Some r"
proof -
  obtain r w' where alloc: "try_allocate_item pl yield h (bss_size s) (bss_min_address s)
      (bss_max_address s) w = Some (r, w')" "r \<noteq> Inl NoSpaceInHeader"
    using try_allocate_answers [OF ans req wf free nf] by blast
  then consider p where "r = Inr p" | "r = Inl CannotAllocateMemory"
    by (metis item_allocation_error.exhaust sum.exhaust)
  then have "\<exists>r. get_buffer_recursive pl yield s h w = Some r"
    if "get_first_available_item_locked pl h (bss_size s) (bss_min_address s) (bss_max_address s) w = Some (None, w)"
    using that alloc(1) by cases (subst get_buffer_recursive.simps, simp)+
  then show ?thesis
    using search_header [OF wf, of pl "bss_size s" "bss_min_address s" "bss_max_address s"]
    by (elim disjE exE conjE) (simp, subst get_buffer_recursive.simps, simp)
qed

text \<open>The last header, when it is full: a new one is made, and it is not full.\<close>

lemma get_next_answers:
  assumes page: "sane_page (pl_sys pl)" and heap: "heap_ok pl used"
    and layout: "layout_ok (granularity (pl_sys pl)) (ucast (ci_page_size (pl_sys pl)))"
    and ok: "chain_ok used H w" "h \<in> H"
    and free: "lh_is_locked (w_headers w h) = 0" and none: "\<not> has_next_locator (w_headers w h)"
  shows "\<exists>r w'. get_next_locator pl yield h w = Some (r, w') \<and>
    (\<forall>a. r = Inr a \<longrightarrow> lh_is_locked (w_headers w' a) = 0 \<and> \<not> is_full (w_headers w' a) \<and>
      wf_header (w_headers w' a))"
proof -
  let ?g = "granularity (pl_sys pl)" and ?al = "ucast (ci_page_size (pl_sys pl)) :: usize"
  let ?w1 = "put_header h ((w_headers w h)\<lparr>lh_is_locked := 1\<rparr>) w"
  note lock = lock_at_free [OF free, of yield]
  have none1: "\<not> has_next_locator (w_headers ?w1 h)" using none by (simp add: has_next_locator_def)
  have ok1: "chain_ok used H ?w1" using ok by (intro chain_ok_update) (simp_all add: chain_ok_wf)
  obtain a st where al: "pl_heap_alloc pl ?g ?al (w_os ?w1) = (a, st)" by fastforce
  show ?thesis
  proof (cases "a = 0")
    case True
    with none none1 lock al layout show ?thesis
      by (simp add: get_next_locator_def Let_def unlock_at_held)
  next
    case False
    let ?w3 = "put_header h ((w_headers ?w1 h)\<lparr>lh_next_locator_ptr := a\<rparr>) (put_os st ?w1)"
    obtain w4 where w4: "initialize pl a ?g ?w3 = Some w4" "chain_ok used (insert a H) w4"
      "w_headers w4 h = (w_headers ?w1 h)\<lparr>lh_next_locator_ptr := a\<rparr>"
      using new_header_ok [OF ok1 ok(2) page heap al False] by blast
    have g: "4096 \<le> unat ?g" "unat ?g \<le> 4096 + 202 * 16384"
      using page sane_granularity(3) by (auto simp: sane_page_def)
    have "a \<noteq> h" using heap_okD(3) [OF heap al False, of a] g(1) chain_ok_used [OF ok1 ok(2)] by auto
    moreover have "length (lh_items (w_headers ?w3 a)) = 203"
      using chain_ok_slots [OF ok(1)] by simp
    note new_header_state [OF w4(1) this g heap_okD(2) [OF heap al False]]
    moreover have "get_next_locator pl yield h w
        = Some (Inr a, put_header h ((w_headers w4 h)\<lparr>lh_is_locked := 0\<rparr>) w4)"
      using none none1 lock al layout False w4(1,3)
      by (simp add: get_next_locator_def Let_def unlock_at_held)
    ultimately show ?thesis using chain_ok_wf [OF w4(2), of a] by simp
  qed
qed

lemma get_buffer_recursive_returns:
  assumes path: "open_path w h hs"
    and ans: "allocator_answers pl (bss_size s) (bss_min_address s) (bss_max_address s)"
    and env: "search_ok pl used yield Q (bss_size s) (bss_max_address s)"
    and ok: "chain_ok used H w" "h \<in> H"
  shows "\<exists>r. get_buffer_recursive pl yield s h w = Some r"
  using path ok
proof (induction hs arbitrary: h H)
  case (Cons x xs)
  from env have e: "honest_os pl" "sane_request (pl_sys pl) (bss_size s) (bss_max_address s)"
    "sane_page (pl_sys pl)" "heap_ok pl used" by (simp_all add: search_ok_def)
  have free: "lh_is_locked (w_headers w h) = 0" using Cons.prems(1) by simp
  note wf = chain_ok_wf [OF Cons.prems(2,3)]
  show ?case
  proof (cases "is_full (w_headers w h)")
    case False
    then show ?thesis by (rule search_ends_here [OF ans e(1,2) wf free])
  next
    case full: True
    note here = search_header [OF wf, of pl "bss_size s" "bss_min_address s" "bss_max_address s"]
    show ?thesis
    proof (cases "has_next_locator (w_headers w h)")
      case True
      let ?n = "lh_next_locator_ptr (w_headers w h)"
      have "open_path w ?n xs" using Cons.prems(1) True by (auto split: if_splits)
      then obtain r where "get_buffer_recursive pl yield s ?n w = Some r"
        using Cons.IH chain_ok_next [OF Cons.prems(2,3) True] by blast
      moreover have "get_next_locator pl yield h w = Some (Inr ?n, w)"
        using True by (simp add: get_next_locator_def)
      ultimately show ?thesis using here full
        by (subst get_buffer_recursive.simps) (auto simp: try_allocate_full)
    next
      case False
      have "layout_ok (granularity (pl_sys pl)) (ucast (ci_page_size (pl_sys pl)))"
        using ans by (simp add: allocator_answers_def)
      from get_next_answers [OF e(3,4) this Cons.prems(2,3) free False, of yield] obtain r w' where
        nxt: "get_next_locator pl yield h w = Some (r, w')" and
        new: "\<And>a. r = Inr a \<Longrightarrow> lh_is_locked (w_headers w' a) = 0 \<and> \<not> is_full (w_headers w' a) \<and>
          wf_header (w_headers w' a)" by blast
      have "\<exists>r'. get_buffer_recursive pl yield s a w' = Some r'" if "r = Inr a" for a
        using new [OF that] by (intro search_ends_here [OF ans e(1,2)]) auto
      with here full nxt show ?thesis
        by (subst get_buffer_recursive.simps) (auto simp: try_allocate_full split: sum.split)
    qed
  qed
qed simp

section \<open>The state of the system during a search\<close>

text \<open>What allocations and other threads keep of the system's state, a search keeps.\<close>

definition os_kept :: "'o platform \<Rightarrow> ('o world \<Rightarrow> 'o world) \<Rightarrow> ('o \<Rightarrow> bool) \<Rightarrow> bool" where
  "os_kept pl yield P \<longleftrightarrow>
     (\<forall>n al st. P st \<longrightarrow> P (snd (pl_heap_alloc pl n al st))) \<and>
     (\<forall>s st r s' st'. P st \<longrightarrow> allocate pl s st = Some (r, s', st') \<longrightarrow> P st') \<and>
     (\<forall>w. P (w_os w) \<longrightarrow> P (w_os (yield w)))"

lemma os_kept_heap: "os_kept pl yield P \<Longrightarrow> pl_heap_alloc pl n al st = (a, st') \<Longrightarrow> P st \<Longrightarrow> P st'"
  unfolding os_kept_def by (metis snd_conv)

lemma os_kept_allocate: "os_kept pl yield P \<Longrightarrow> allocate pl s st = Some (r, s', st') \<Longrightarrow> P st \<Longrightarrow> P st'"
  unfolding os_kept_def by blast

lemma lock_at_os:
  assumes "os_kept pl yield P" "lock_at yield h w = Some w'" "P (w_os w)"
  shows "P (w_os w')"
  by (rule spin_lock_invariant [where I = "\<lambda>w. P (w_os w)", OF assms(2) [unfolded lock_at_def] assms(3)])
    (use assms(1) in \<open>auto simp: os_kept_def try_lock_at_def split: prod.split\<close>)

lemma as_headers_machine [simp]: "w_machine (initialize_remaining_space_as_headers h r w) = w_machine w"
proof (induction h r w rule: initialize_remaining_space_as_headers.induct)
  case (1 h r w)
  then show ?case by (subst initialize_remaining_space_as_headers.simps) (simp add: Let_def)
qed

lemma initialize_machine: "initialize pl a n w = Some w' \<Longrightarrow> w_machine w' = w_machine w"
  by (auto simp: initialize_def Let_def Option.bind_eq_Some_conv split: if_splits)

lemma unlock_at_machine: "unlock_at b h w = Some w' \<Longrightarrow> w_machine w' = w_machine w"
  by (auto simp: unlock_at_def Option.bind_eq_Some_conv)

lemma search_machine:
  "get_first_available_item_locked pl h sz mn mx w = Some (r, w') \<Longrightarrow> w_machine w' = w_machine w"
  by (auto simp: get_first_available_item_locked_def Let_def Option.bind_eq_Some_conv)

lemma try_allocate_item_os:
  assumes "os_kept pl yield P" "try_allocate_item pl yield h sz mn mx w = Some (r, w')" "P (w_os w)"
  shows "P (w_os w')"
  using assms(2,3)
  by (auto simp: try_allocate_item_def Let_def result_cases dest!: unlock_at_machine split: if_splits
      intro: lock_at_os [OF assms(1)] os_kept_allocate [OF assms(1)])

lemma get_next_locator_os:
  assumes "os_kept pl yield P" "get_next_locator pl yield h w = Some (r, w')" "P (w_os w)"
  shows "P (w_os w')"
  using assms(2,3)
  by (auto simp: get_next_locator_def Let_def result_cases dest!: unlock_at_machine initialize_machine
      split: if_splits prod.splits intro: lock_at_os [OF assms(1)] os_kept_heap [OF assms(1)])

lemma get_buffer_recursive_os:
  assumes ret: "get_buffer_recursive pl yield s h w = Some (r, w')"
    and "os_kept pl yield P" "P (w_os w)"
  shows "P (w_os w')"
  by (rule get_buffer_recursive_rule [where I = "\<lambda>h w. P (w_os w)" and R = "\<lambda>r w. P (w_os w)", OF ret assms(3)])
    (auto dest: search_machine try_allocate_item_os [OF assms(2)] get_next_locator_os [OF assms(2)]
      split: option.split sum.split)

section \<open>The public search\<close>

text \<open>\<open>get_buffer\<close> once the first header is known: it returns, and answers the search.\<close>

lemma get_buffer_found:
  assumes "lib_header_address lib = h" and "h \<noteq> 0" and "h \<in> H"
    and ok: "world_ok used H Q (lib_world lib)" and path: "open_path (lib_world lib) h hs"
    and ans: "allocator_answers pl (bss_size s) (bss_min_address s) (bss_max_address s)"
    and env: "search_ok pl used yield Q (bss_size s) (bss_max_address s)"
  obtains r w where "get_buffer pl wait yield s lib = Some (r, lib\<lparr>lib_world := w\<rparr>)"
    and "search_answer used H Q s (r, w)"
    and "get_buffer_recursive pl yield s h (lib_world lib) = Some (r, w)"
proof -
  have chain: "chain_ok used H (lib_world lib)" using ok by (simp add: world_ok_def)
  obtain r w where ret: "get_buffer_recursive pl yield s h (lib_world lib) = Some (r, w)"
    using get_buffer_recursive_returns [OF path ans env chain assms(3)] by auto
  then have "get_buffer pl wait yield s lib = Some (r, lib\<lparr>lib_world := w\<rparr>)"
    using assms(1,2) by (simp add: get_buffer_def find_header_def)
  then show ?thesis using get_buffer_recursive_answer [OF ret env ok assms(3)] ret by (rule that)
qed

section \<open>Headers behind a header\<close>

text \<open>The headers of a block of pages, in order of their addresses.\<close>

definition page_headers :: "usize \<Rightarrow> nat \<Rightarrow> usize list" where
  "page_headers h n = map (\<lambda>k. h + of_nat k * HEADER_LENGTH) [0..<n]"

lemma page_headers_Suc: "page_headers h (Suc n) = h # page_headers (h + HEADER_LENGTH) n"
proof -
  have "[0..<Suc n] = 0 # map Suc [0..<n]" by (simp add: map_Suc_upt upt_conv_Cons del: upt_Suc)
  then show ?thesis by (simp add: page_headers_def comp_def algebra_simps)
qed

lemma as_headers_path:
  assumes "block_in U h (4096 + unat r)" and "lh_is_locked (w_headers w h) = 0"
    and "\<not> has_next_locator (w_headers w h)" and "lh_num_items (w_headers w h) = 0"
  shows "open_path (initialize_remaining_space_as_headers h r w) h (page_headers h (Suc (unat r div 4096))) \<and>
    (\<forall>x \<in> set (page_headers h (Suc (unat r div 4096))).
      lh_num_items (w_headers (initialize_remaining_space_as_headers h r w) x) = 0)"
  using assms
proof (induction "unat r" arbitrary: h r w rule: less_induct)
  case less
  note first = as_headers_first [OF less.prems(1), of w]
  show ?case
  proof (cases "ucast HEADER_LENGTH \<le> r")
    case True
    note nh = next_header [OF less.prems(1) True]
    let ?n = "h + HEADER_LENGTH" and ?r = "r - ucast HEADER_LENGTH"
    let ?w2 = "link_header h ?n w"
    have r: "4096 \<le> unat r" using True by (simp add: HEADER_LENGTH_def word_le_nat_alt)
    have d: "unat r div 4096 = Suc (unat ?r div 4096)" using nh(4) r by (simp add: le_div_geq)
    have "?n \<noteq> h" using nh(1) by auto
    then have n: "w_headers ?w2 ?n = set_default_values ?n (w_headers w ?n)"
      by (simp add: link_header_def Let_def)
    have IH: "open_path (initialize_remaining_space_as_headers ?n ?r ?w2) ?n (page_headers ?n (Suc (unat ?r div 4096))) \<and>
      (\<forall>x \<in> set (page_headers ?n (Suc (unat ?r div 4096))).
        lh_num_items (w_headers (initialize_remaining_space_as_headers ?n ?r ?w2) x) = 0)"
      using nh(4,5) r n
      by (intro less.hyps) (auto simp: set_default_values_def has_next_locator_def)
    have ne: "page_headers ?n (Suc (unat ?r div 4096)) \<noteq> []" by (simp add: page_headers_Suc)
    show ?thesis
      using IH ne first True nh(3) less.prems(2,4)
      by (simp only: d page_headers_Suc [of h] open_path.simps as_headers_step [OF True, symmetric])
        (simp add: has_next_locator_def)
  next
    case False
    then have "unat r < 4096" by (simp add: HEADER_LENGTH_def word_le_nat_alt)
    with less.prems False show ?thesis by (simp add: as_headers_stop page_headers_def)
  qed
qed

end
