(* ===== verification/Samples.thy ===== *)
theory Samples
  imports Buffer_Facts
begin

text \<open>
  A concrete system, on which the properties with hypotheses are instantiated: Linux on x86-64 with
  a given page size, an empty memory map, a kernel that grants every fixed mapping, and a heap that
  hands out increasing addresses.  The state of the system is the next free heap address.
\<close>

definition sample_sys :: "i32 \<Rightarrow> cached" where
  "sample_sys g = \<lparr>ci_max_address = 0x7FFFFFFFFFFF, ci_allocation_granularity = g, ci_page_size = 4096,
     ci_this_process_id = 1\<rparr>"

definition sample_linux :: "'o linux_api" where
  "sample_linux =
     \<lparr>mmap = (\<lambda>a n p f fd off st. (a, st)), munmap = (\<lambda>a n st. (0, st)),
      open_rdonly = (\<lambda>path st. (3, st)), read_fd = (\<lambda>fd n st. (Some [], st)),
      close_fd = (\<lambda>fd st. st), itoa = (\<lambda>i. ''1'')\<rparr>"


definition sample_windows :: "'o windows_api" where
  "sample_windows =
     \<lparr>OpenProcess = (\<lambda>pid st. (1, st)), CloseHandle = (\<lambda>h st. st), IsWow64Process = (\<lambda>h st. ((1, 0), st)),
      VirtualQuery = (\<lambda>a st. ((if unat a < 2 ^ 40 then 48 else 0,
        \<lparr>mbi_BaseAddress = a, mbi_RegionSize = 0x10000, mbi_State = MEM_FREE\<rparr>), st)),
      VirtualAlloc = (\<lambda>a n t p st. (a, st)), VirtualFree = (\<lambda>a n t st. (1, st))\<rparr>"

definition sample_mach :: "'o mach_api" where
  "sample_mach =
     \<lparr>mach_task_self = (\<lambda>st. (1, st)),
      mach_vm_region = (\<lambda>task a count st. (if unat a < 2 ^ 40
        then \<lparr>mr_kr = 0, mr_address = a, mr_size = 0x4000, mr_count = count\<rparr>
        else \<lparr>mr_kr = 1, mr_address = a, mr_size = 0, mr_count = count\<rparr>, st)),
      mach_vm_allocate = (\<lambda>task a n f st. ((if a = 0 then 3 else 0, a), st)),
      mach_vm_protect = (\<lambda>task a n m p st. (0, st)), mach_vm_deallocate = (\<lambda>task a n st. (0, st)),
      region_info_size = 36\<rparr>"

definition sample_mmap_rs :: "'o mmap_rs_api" where
  "sample_mmap_rs =
     \<lparr>memory_areas_open = (\<lambda>st. (Some [], st)), options_new = (\<lambda>n. True),
      map_exec_mut = (\<lambda>a n st. (if a = 0 then None else Some a, st)), unmap = (\<lambda>a n st. st),
      map_from_existing = (\<lambda>a n st. (True, st))\<rparr>"

definition sample_code :: "'o code_api" where
  "sample_code = \<lparr>mach_vm_protect_code = (\<lambda>a n p st. st), cache_line_flush_with_ptr = (\<lambda>a e st. st),
     FlushInstructionCache = (\<lambda>a n st. st)\<rparr>"

definition sample_unix :: "'o unix_api" where
  "sample_unix =
     \<lparr>open_rdwr = (\<lambda>p st. (- 1, st)), open_creat = (\<lambda>p st. (5, st)), ftruncate = (\<lambda>fd n st. st),
      mmap_shared = (\<lambda>n fd st. (0x20000, st)), munmap_shared = (\<lambda>a n st. st), close_file = (\<lambda>fd st. st),
      unlink = (\<lambda>p st. st), stat_dir = (\<lambda>p st. (Some True, st)), mkdir = (\<lambda>p st. (0, st)),
      opendir = (\<lambda>p st. (0, st)), readdir = (\<lambda>d st. (None, st)), closedir = (\<lambda>d st. st),
      kill_0 = (\<lambda>pid st. ((0, 0), st)), bytes_behind = (\<lambda>p st. ''x''), itoa_u32 = (\<lambda>n. ''1'')\<rparr>"

definition sample_file_mapping :: "'o file_mapping_api" where
  "sample_file_mapping =
     \<lparr>OpenFileMappingA = (\<lambda>p st. (0, st)), CreateFileMappingA = (\<lambda>n p st. (7, st)),
      MapViewOfFile = (\<lambda>h n st. (0x20000, st)), UnmapViewOfFile = (\<lambda>a st. st),
      CloseMapHandle = (\<lambda>h st. st)\<rparr>"

definition sample_heap_alloc :: "usize \<Rightarrow> usize \<Rightarrow> usize \<Rightarrow> usize \<times> usize" where
  "sample_heap_alloc n align st =
     (if unat st + unat n < 2 ^ 64 then (st, st + n) else (0, st))"

definition platform_with ::
  "i32 \<Rightarrow> 'o linux_api \<Rightarrow> (usize \<Rightarrow> usize \<Rightarrow> 'o \<Rightarrow> usize \<times> 'o) \<Rightarrow> 'o platform" where
  "platform_with g linux heap_alloc =
     \<lparr>pl_build = Debug, pl_target = \<lparr>tgt_os = Linux, tgt_arch = X86_64\<rparr>, pl_all_private = False, 
      pl_text = \<lparr>no_format = False, concat_2 = (@)\<rparr>,
      pl_queries = \<lparr>GetSystemInfo = \<lparr>lpMaximumApplicationAddress = 0x7FFFFFFEFFFF,
          dwAllocationGranularity = 0x10000, dwPageSize = 0x1000\<rparr>,
        GetCurrentProcessId = 1, getpid = 1, mmap_rs_page_size = 4096,
        mmap_rs_allocation_granularity = 4096\<rparr>,
      pl_sys = sample_sys g, pl_linux = linux, pl_windows = sample_windows, pl_mach = sample_mach,
      pl_mmap_rs = sample_mmap_rs, pl_code = sample_code, pl_unix = sample_unix,
      pl_file_mapping = sample_file_mapping, pl_heap_alloc = heap_alloc,
      pl_heap_dealloc = (\<lambda>a n align st. st)\<rparr>"

definition sample_platform :: "i32 \<Rightarrow> usize platform" where
  "sample_platform g = platform_with g sample_linux sample_heap_alloc"

definition sample_used :: "usize \<Rightarrow> usize set" where
  "sample_used st = {x. unat x < unat st}"

text \<open>An empty header at \<open>0x10000\<close> and memory that holds no header elsewhere.\<close>

definition sample_header :: locator_header where
  "sample_header =
     \<lparr>lh_this_address = 0x10000, lh_next_locator_ptr = 0, lh_is_locked = 0, lh_flags = 0,
      lh_num_items = 0, lh_items = replicate 203 (locator_item_new 0 0)\<rparr>"

definition sample_world :: "usize world" where
  "sample_world = \<lparr>w_headers = (\<lambda>_. sample_header), w_machine = \<lparr>mem = (\<lambda>_. 0), os = 0x1000000\<rparr>\<rparr>"

definition sample_library :: "usize library" where
  "sample_library = \<lparr>lib_header_address = 0x10000, lib_mmf = None, lib_world = sample_world\<rparr>"

abbreviation sample_search :: buffer_search_settings where
  "sample_search \<equiv> \<lparr>bss_min_address = 0x20000, bss_max_address = 0x7FFFFFFF, bss_size = 4096\<rparr>"

section \<open>The sample system is sane\<close>

lemma sample_sane: "sane_sys (sample_sys 4096)" "sane_sys (sample_sys 0x10000)"
  by (simp_all add: sample_sys_def sane_sys_def below_top_def)

lemma sample_granularity: "granularity (sample_sys 4096) = 4096" "granularity (sample_sys 0x10000) = 0x10000"
  using unat_granularity [OF sample_sane(1)] unat_granularity [OF sample_sane(2)]
  by (simp_all add: word_unat_eq_iff sample_sys_def)

lemma sample_pl_sel [simp]:
  "pl_build (sample_platform g) = Debug" "pl_target (sample_platform g) = \<lparr>tgt_os = Linux, tgt_arch = X86_64\<rparr>"
  "pl_sys (sample_platform g) = sample_sys g" "pl_linux (sample_platform g) = sample_linux"
  "pl_heap_alloc (sample_platform g) = sample_heap_alloc" "ci_page_size (sample_sys g) = 4096"
  "ci_max_address (sample_sys g) = 0x7FFFFFFFFFFF" "pl_all_private (sample_platform g) = False"
  by (simp_all add: sample_platform_def platform_with_def sample_sys_def)

lemma sample_page: "sane_page (sample_sys 4096)" "sane_page (sample_sys 0x10000)"
  by (simp_all add: sane_page_def sample_sane sample_granularity)

lemma sample_honest: "honest_os (sample_platform g)"
  by (simp add: honest_os_def)

lemma sample_request: "sane_request (sample_sys 4096) 4096 0x7FFFFFFF"
  by (simp add: sane_request_def sample_sane sample_granularity below_top_def)

text \<open>The Linux allocator on the sample system does not change the system's state.\<close>

lemma sample_linux_free: "get_free_regions_from_process_id sys sample_linux pid st
    = Some (get_free_regions sys [], st)"
proof -
  have "read_loop sample_linux 3 [] BUFFER_SIZE st = Some ([], st)"
    by (subst read_loop.simps) (simp add: sample_linux_def)
  then have "parse_memory_map_from_process_id sample_linux pid st = Some ([], st)"
    using parse_print_maps [of "[]"]
    by (simp add: parse_memory_map_from_process_id_def read_to_string_def print_maps_def)
      (simp add: sample_linux_def three_nonneg)
  then show ?thesis by (simp add: get_free_regions_from_process_id_def)
qed

lemma sample_try_addresses: "snd (linux_try_addresses sample_linux s addrs st) = st"
  by (induction addrs) (auto simp: sample_linux_def Let_def)

lemma sample_try_regions:
  "linux_try_regions b sys sample_linux s regions st = Some (r, st') \<Longrightarrow> st' = st"
proof (induction regions arbitrary: st)
  case (Cons q qs)
  have keep: "st1 = st" if "linux_try_allocate_buffer b sys sample_linux q s st = Some (x, st1)" for x st1
  proof -
    from that obtain addrs where "linux_try_addresses sample_linux s addrs st = (x, st1)"
      by (auto simp: linux_try_allocate_buffer_def Option.bind_eq_Some_conv)
    then show ?thesis using sample_try_addresses [of s addrs st] by simp
  qed
  from Cons show ?case
    by (auto simp: result_cases split: if_splits dest: keep)
qed simp

lemma sample_retry: "linux_retry b sys sample_linux s n st = Some (r, st') \<Longrightarrow> st' = st"
  by (induction n arbitrary: st)
    (auto simp: sample_linux_free result_cases dest: sample_try_regions)

text \<open>The systems on which the allocator is the sample one.\<close>

definition sample_like :: "i32 \<Rightarrow> 'o platform \<Rightarrow> bool" where
  "sample_like g pl \<longleftrightarrow> pl_build pl = Debug \<and> pl_target pl = \<lparr>tgt_os = Linux, tgt_arch = X86_64\<rparr> \<and>
     pl_sys pl = sample_sys g \<and> pl_linux pl = sample_linux"

lemma sample_platform_like: "sample_like g (sample_platform g)"
  by (simp add: sample_like_def)

lemma like_allocate_state: "sample_like g pl \<Longrightarrow> allocate pl s st = Some (r, s', st') \<Longrightarrow> st' = st"
  by (auto simp: sample_like_def allocate_def allocate_os_def allocate_linux_def Option.bind_eq_Some_conv dest: sample_retry)

lemmas sample_allocate_state = like_allocate_state [OF sample_platform_like]

lemma sample_heap: "heap_ok (sample_platform g) sample_used"
proof -
  have u: "unat (st + n) = unat st + unat n" if "unat st + unat n < 18446744073709551616" for st n :: usize
    using that by (intro unat_add_small) simp
  show ?thesis
    unfolding heap_ok_def
    by (auto simp: sample_heap_alloc_def sample_used_def u split: if_splits dest: sample_allocate_state)
qed

lemma sample_chain: "chain_ok sample_used {0x10000} sample_world"
proof -
  have "headers_ok {0x10000} sample_world"
    by (simp add: headers_ok_def sample_world_def sample_header_def wf_header_def has_next_locator_def)
  then show ?thesis by (auto simp: chain_ok_def sample_world_def sample_used_def)
qed

lemma sample_search_ok: "search_ok (sample_platform 4096) sample_used (\<lambda>w. w) Q 4096 0x7FFFFFFF"
  by (simp add: search_ok_def sample_honest sample_request sample_page sample_heap yield_ok_def)

text \<open>It has memory for every request of up to 1 MiB that a range behind the null page fits.\<close>

lemma like_serves:
  assumes like: "sample_like 4096 pl" and sz: "unat sz \<le> 0x100000" and mn: "0 < mn" and mx: "unat mx < 2 ^ 63"
    and fits: "\<And>n. unat n \<le> 0x200000 \<Longrightarrow> buffer_fits mn mx 0 0x7FFFFFFFFFFF n 4096 c"
  shows "\<exists>it s' st'. allocate pl ((request_settings (pl_sys pl) sz mn mx)\<lparr>bas_brute_force := br\<rparr>) st = Some (Inr it, s', st')"
proof -
  let ?sys = "sample_sys 4096"
  let ?s = "(request_settings ?sys sz mn mx)\<lparr>bas_brute_force := br\<rparr>"
  have pl: "pl_build pl = Debug" "pl_target pl = \<lparr>tgt_os = Linux, tgt_arch = X86_64\<rparr>" "pl_sys pl = ?sys"
    "pl_linux pl = sample_linux" using like by (simp_all add: sample_like_def)
  have "unat (bas_size ?s) + unat (granularity ?sys) < 2 ^ 32" using sz by (simp add: sample_granularity)
  then obtain s1 where s1: "sanitize Debug \<lparr>tgt_os = Linux, tgt_arch = X86_64\<rparr> ?sys ?s = Some s1"
    "unat (bas_size s1) < max (unat (bas_size ?s)) 1 + unat (granularity ?sys)"
    "bas_max_address s1 = bas_max_address ?s" "bas_retry_count s1 = bas_retry_count ?s"
    by (rule sanitize_sound [OF sample_sane(1)])
  have s1_min: "bas_min_address s1 = mn"
    using s1(1) mn by (auto simp: sanitize_def Let_def Option.bind_eq_Some_conv word_le_nat_alt max_def word_less_nat_alt)
  have "max (unat sz) 1 \<le> 0x100000" using sz by simp
  then have s1_size: "unat (bas_size s1) \<le> 0x200000" using s1(2) by (simp add: sample_granularity)
  have "\<exists>it st'. allocate_linux Debug ?sys sample_linux s1 st = Some (Inr it, st')"
  proof (rule allocate_linux_finds [OF sample_linux_free])
    show "memory_map_entry_new 0 0x7FFFFFFFFFFF \<in> set (get_free_regions ?sys [])"
      by (simp add: get_free_regions_def)
    show "buffer_fits (bas_min_address s1) (bas_max_address s1)
        (start_address (memory_map_entry_new 0 0x7FFFFFFFFFFF))
        (end_address (memory_map_entry_new 0 0x7FFFFFFFFFFF)) (ucast (bas_size s1)) (granularity ?sys) c"
      using fits [of "ucast (bas_size s1)"] s1(3) s1_min s1_size by (simp add: sample_granularity)
  qed (use s1 s1_min mn mx in \<open>simp_all add: sample_granularity grants_mmap_def sample_linux_def below_top_def
      allocator_settings_new_def\<close>)
  with s1(1) show ?thesis by (auto simp: allocate_def allocate_os_def pl)
qed

text \<open>The lowest 2 GiB, with the null page in the range: the addresses tried first are null.\<close>

lemma sample_low_addresses: "get_possible_buffer_addresses Debug 0 0x7FFFFFFF 0 0x7FFFFFFFFFFF 4096 4096 = Some [0, 0, 0x7FFFE000]"
  by (simp add: get_possible_buffer_addresses_def address_range_new_def address_range_contains_def
      address_range_overlaps_def point_in_range_def address_range_size_def round_up_def round_down_def arith_ok
      add_with_overflow_cap_def subtract_with_underflow_cap_def Let_def candidate_def)

lemma like_serves_low:
  assumes "sample_like 4096 pl"
  shows "\<exists>it s' st'. allocate pl ((request_settings (pl_sys pl) 4096 0 0x7FFFFFFF)\<lparr>bas_brute_force := br\<rparr>) st = Some (Inr it, s', st')"
proof -
  let ?sys = "sample_sys 4096" and ?s = "(request_settings (sample_sys 4096) 4096 0 0x7FFFFFFF)\<lparr>bas_brute_force := br\<rparr>"
  have pl: "pl_build pl = Debug" "pl_target pl = \<lparr>tgt_os = Linux, tgt_arch = X86_64\<rparr>" "pl_sys pl = ?sys"
    "pl_linux pl = sample_linux" using assms by (simp_all add: sample_like_def)
  have s: "sanitize Debug \<lparr>tgt_os = Linux, tgt_arch = X86_64\<rparr> ?sys ?s = Some ?s"
    by (simp add: sanitize_def sample_granularity round_up_def arith_ok)
  have n: "nat (sint (bas_retry_count ?s)) = Suc 7" by (simp add: allocator_settings_new_def)
  have e: "get_free_regions ?sys [] = [memory_map_entry_new 0 0x7FFFFFFFFFFF]" by (simp add: get_free_regions_def sample_sys_def)
  have "linux_try_allocate_buffer Debug ?sys sample_linux (memory_map_entry_new 0 0x7FFFFFFFFFFF) ?s st
      = Some (Inr (locator_item_new 0x7FFFE000 4096), st)"
    by (simp add: linux_try_allocate_buffer_def sample_granularity sample_low_addresses) (simp add: sample_linux_def)
  then have "allocate_linux Debug ?sys sample_linux ?s st = Some (Inr (locator_item_new 0x7FFFE000 4096), st)"
    unfolding allocate_linux_def n linux_retry.simps by (simp add: sample_linux_free e)
  with s show ?thesis by (simp add: allocate_def allocate_os_def pl)
qed
text \<open>No buffer ends below address 10, so that all attempts are made.\<close>

lemma like_refuses:
  assumes "sample_like 4096 pl"
  shows "\<exists>r. allocate pl (request_settings (pl_sys pl) 100 0 10) st = Some r"
proof -
  let ?sys = "sample_sys 4096" and ?s = "request_settings (sample_sys 4096) 100 0 10"
  have pl: "pl_build pl = Debug" "pl_target pl = \<lparr>tgt_os = Linux, tgt_arch = X86_64\<rparr>" "pl_sys pl = ?sys"
    "pl_linux pl = sample_linux" using assms by (simp_all add: sample_like_def)
  let ?s1 = "?s\<lparr>bas_size := 4096\<rparr>"
  have s: "sanitize Debug \<lparr>tgt_os = Linux, tgt_arch = X86_64\<rparr> ?sys ?s = Some ?s1"
    by (simp add: sanitize_def sample_granularity round_up_def arith_ok)
  have e: "get_free_regions ?sys [] = [memory_map_entry_new 0 0x7FFFFFFFFFFF]" by (simp add: get_free_regions_def sample_sys_def)
  have "get_possible_buffer_addresses Debug 0 10 0 0x7FFFFFFFFFFF 4096 4096 = Some []"
    by (simp add: get_possible_buffer_addresses_def address_range_new_def address_range_contains_def
      address_range_overlaps_def point_in_range_def address_range_size_def round_up_def round_down_def arith_ok
      add_with_overflow_cap_def subtract_with_underflow_cap_def Let_def candidate_def)
  then have "linux_try_allocate_buffer Debug ?sys sample_linux (memory_map_entry_new 0 0x7FFFFFFFFFFF) ?s1 st
      = Some (Inl ''Failed to allocate buffer'', st)"
    by (simp add: linux_try_allocate_buffer_def sample_granularity)
  then have "\<exists>r. linux_retry Debug ?sys sample_linux ?s1 n st = Some r" for n
    by (induction n) (simp_all add: sample_linux_free e)
  then obtain r where "allocate_linux Debug ?sys sample_linux ?s1 st = Some r" unfolding allocate_linux_def by blast
  with s show ?thesis by (cases r) (simp add: allocate_def allocate_os_def pl)
qed

text \<open>It serves every request of up to 1 MiB from \<open>0x20000\<close> on.\<close>

lemma like_answers:
  assumes like: "sample_like 4096 pl" and "unat sz \<le> 0x100000" and mx: "0x7FFFFFFF \<le> unat mx" "unat mx < 2 ^ 63"
  shows "allocator_answers pl sz 0x20000 mx"
proof -
  have "buffer_fits 0x20000 mx 0 0x7FFFFFFFFFFF n 4096 0x20000" if "unat n \<le> 0x200000" for n
    using that mx by (simp add: buffer_fits_def)
  then have "\<exists>it s' st'. allocate pl ((request_settings (pl_sys pl) sz 0x20000 mx)\<lparr>bas_brute_force := True\<rparr>) st
      = Some (Inr it, s', st')" for st
    using assms by (intro like_serves [where c = "0x20000"]) simp_all
  moreover have "(request_settings (pl_sys pl) sz 0x20000 mx)\<lparr>bas_brute_force := True\<rparr>
      = request_settings (pl_sys pl) sz 0x20000 mx" by (simp add: allocator_settings_new_def)
  ultimately have "\<exists>r. allocate pl (request_settings (pl_sys pl) sz 0x20000 mx) st = Some r" for st by metis
  moreover have "layout_ok (granularity (pl_sys pl)) (ucast (ci_page_size (pl_sys pl)))"
    using like by (simp add: layout_ok_def sample_granularity sample_like_def)
  ultimately show ?thesis by (simp add: allocator_answers_def)
qed

lemma sample_answers: "unat sz \<le> 0x100000 \<Longrightarrow> allocator_answers (sample_platform 4096) sz 0x20000 0x7FFFFFFF"
  by (rule like_answers [OF sample_platform_like]) simp_all

lemma sample_open_path: "open_path sample_world 0x10000 [0x10000]"
  by (simp add: sample_world_def sample_header_def has_next_locator_def)

end
