(* ===== verification/C_Api.thy ===== *)
theory C_Api
  imports Buffer_Facts
begin

text \<open>
  The C interface: \<open>src-rust/src/c/buffers_c_buffers.rs\<close> and \<open>src-rust/src/c/buffers_c_locatoritem.rs\<close>.
  Its state is the library and the error strings that callers have not freed yet, by address.
  \<open>None\<close> stands also for behaviour that C callers must avoid: a null item, a string that is not
  one of the library's.
\<close>

record 'o c_state =
  cs_lib :: "'o library"
  cs_strings :: "usize \<rightharpoonup> string"

abbreviation c_world :: "'o c_state \<Rightarrow> 'o world" where
  "c_world c \<equiv> lib_world (cs_lib c)"

abbreviation put_c_world :: "'o world \<Rightarrow> 'o c_state \<Rightarrow> 'o c_state" where
  "put_c_world w c \<equiv> c\<lparr>cs_lib := (cs_lib c)\<lparr>lib_world := w\<rparr>\<rparr>"

text \<open>The result structs; \<open>None\<close> is the null pointer to an item, address 0 the null string.\<close>

record allocation_result =
  ar_is_ok :: bool
  ar_ok :: private_allocation
  ar_err :: usize

record get_buffer_result =
  gr_is_ok :: bool
  gr_ok :: "item_ptr option"
  gr_err :: usize

section \<open>Strings\<close>

text \<open>
  \<open>CString::new(text).unwrap().into_raw()\<close>: the text and its NUL in a block of the heap that now
  belongs to the caller.  A size above \<open>isize::MAX\<close> panics, and a heap that has no memory left aborts
  the process: \<open>no_room_for\<close>.
\<close>

definition no_room_for :: "'o platform \<Rightarrow> string \<Rightarrow> 'o c_state \<Rightarrow> bool" where
  "no_room_for pl txt c \<longleftrightarrow> 2 ^ 63 \<le> Suc (length txt) \<or>
     fst (pl_heap_alloc pl (of_nat (Suc (length txt))) 1 (w_os (c_world c))) = 0"

definition c_string_into_raw :: "'o platform \<Rightarrow> string \<Rightarrow> 'o c_state \<Rightarrow> (usize \<times> 'o c_state) option" where
  "c_string_into_raw pl txt c = do {
     s \<leftarrow> c_string txt;
     if no_room_for pl s c then None
     else do {
       let (addr, st) = pl_heap_alloc pl (of_nat (Suc (length s))) 1 (w_os (c_world c));
       Some (addr, (put_c_world (put_os st (c_world c)) c)\<lparr>cs_strings := (cs_strings c)(addr \<mapsto> s)\<rparr>)
     }
   }"

definition free_string :: "'o platform \<Rightarrow> usize \<Rightarrow> 'o c_state \<Rightarrow> 'o c_state option" where
  "free_string pl s c =
     (if s = 0 then Some c
      else do {
        txt \<leftarrow> cs_strings c s;
        let st = pl_heap_dealloc pl s (of_nat (Suc (length txt))) 1 (w_os (c_world c));
        Some ((put_c_world (put_os st (c_world c)) c)\<lparr>cs_strings := (cs_strings c)(s := None)\<rparr>)
      })"

section \<open>Buffers\<close>

definition buffers_allocate_private_memory ::
  "'o platform \<Rightarrow> buffer_allocator_settings \<Rightarrow> 'o c_state \<Rightarrow>
   (allocation_result \<times> buffer_allocator_settings \<times> 'o c_state) option" where
  "buffers_allocate_private_memory pl settings c = do {
     (result, settings', st) \<leftarrow> allocate_private_memory pl settings (w_os (c_world c));
     let c1 = put_c_world (put_os st (c_world c)) c;
     case result of
       Inr allocation \<Rightarrow> Some (\<lparr>ar_is_ok = True, ar_ok = allocation, ar_err = 0\<rparr>, settings', c1)
     | Inl err \<Rightarrow> do {
         (p, c2) \<leftarrow> c_string_into_raw pl (allocation_error_to_string (pl_text pl) err) c1;
         Some (\<lparr>ar_is_ok = False, ar_ok = private_allocation_null, ar_err = p\<rparr>, settings', c2)
       }
   }"

definition buffers_get_buffer_aligned ::
  "'o platform \<Rightarrow> ('o library \<Rightarrow> 'o library) \<Rightarrow> ('o world \<Rightarrow> 'o world) \<Rightarrow> buffer_search_settings \<Rightarrow> u32 \<Rightarrow>
   'o c_state \<Rightarrow> (get_buffer_result \<times> 'o c_state) option" where
  "buffers_get_buffer_aligned pl wait yield settings alignment c = do {
     (result, lib) \<leftarrow> get_buffer_aligned pl wait yield settings alignment (cs_lib c);
     let c1 = c\<lparr>cs_lib := lib\<rparr>;
     case result of
       Inr item \<Rightarrow> Some (\<lparr>gr_is_ok = True, gr_ok = Some item, gr_err = 0\<rparr>, c1)
     | Inl err \<Rightarrow> do {
         (p, c2) \<leftarrow> c_string_into_raw pl (search_error_to_string (pl_text pl) err) c1;
         Some (\<lparr>gr_is_ok = False, gr_ok = None, gr_err = p\<rparr>, c2)
       }
   }"

definition buffers_get_buffer ::
  "'o platform \<Rightarrow> ('o library \<Rightarrow> 'o library) \<Rightarrow> ('o world \<Rightarrow> 'o world) \<Rightarrow> buffer_search_settings \<Rightarrow>
   'o c_state \<Rightarrow> (get_buffer_result \<times> 'o c_state) option" where
  "buffers_get_buffer pl wait yield settings c = do {
     (result, lib) \<leftarrow> get_buffer pl wait yield settings (cs_lib c);
     let c1 = c\<lparr>cs_lib := lib\<rparr>;
     case result of
       Inr item \<Rightarrow> Some (\<lparr>gr_is_ok = True, gr_ok = Some item, gr_err = 0\<rparr>, c1)
     | Inl err \<Rightarrow> do {
         (p, c2) \<leftarrow> c_string_into_raw pl (search_error_to_string (pl_text pl) err) c1;
         Some (\<lparr>gr_is_ok = False, gr_ok = None, gr_err = p\<rparr>, c2)
       }
   }"

section \<open>Freeing\<close>

definition free_locator_item :: "item_ptr option \<Rightarrow> 'o c_state \<Rightarrow> 'o c_state option" where
  "free_locator_item item c = do {
     p \<leftarrow> item;
     Some (put_c_world (put_item p (item_unlock (item_at (c_world c) p)) (c_world c)) c)
   }"

definition free_private_allocation ::
  "'o platform \<Rightarrow> private_allocation \<Rightarrow> 'o c_state \<Rightarrow> 'o c_state option" where
  "free_private_allocation pl item c = do {
     st \<leftarrow> private_allocation_drop pl item (w_os (c_world c));
     Some (put_c_world (put_os st (c_world c)) c)
   }"

text \<open>
  A result struct is passed by value: when its \<open>is_ok\<close> is false, the null \<open>ok\<close> it carries is dropped
  at the end of the function like any value.
\<close>

definition free_allocation_result ::
  "'o platform \<Rightarrow> allocation_result \<Rightarrow> 'o c_state \<Rightarrow> 'o c_state option" where
  "free_allocation_result pl item c =
     (if ar_is_ok item then free_private_allocation pl (ar_ok item) c
      else do {
        c1 \<leftarrow> free_string pl (ar_err item) c;
        free_private_allocation pl (ar_ok item) c1
      })"

definition free_get_buffer_result ::
  "'o platform \<Rightarrow> get_buffer_result \<Rightarrow> 'o c_state \<Rightarrow> 'o c_state option" where
  "free_get_buffer_result pl item c =
     (if gr_is_ok item then free_locator_item (gr_ok item) c else free_string pl (gr_err item) c)"

section \<open>Settings and code\<close>

definition buffersearchsettings_from_proximity ::
  "usize \<Rightarrow> usize \<Rightarrow> usize \<Rightarrow> buffer_search_settings" where
  "buffersearchsettings_from_proximity proximity target sz = search_settings_from_proximity proximity target sz"

definition bufferallocatorsettings_from_proximity ::
  "cached \<Rightarrow> usize \<Rightarrow> usize \<Rightarrow> usize \<Rightarrow> buffer_allocator_settings" where
  "bufferallocatorsettings_from_proximity sys proximity target sz =
     allocator_settings_from_proximity sys proximity target sz"

definition utilities_clear_instruction_cache ::
  "'o platform \<Rightarrow> usize \<Rightarrow> usize \<Rightarrow> 'o machine \<Rightarrow> 'o machine option" where
  "utilities_clear_instruction_cache pl start fin m = do {
     st \<leftarrow> clear_instruction_cache (pl_build pl) (pl_target pl) (pl_code pl) start fin (os m);
     Some (m\<lparr>os := st\<rparr>)
   }"

text \<open>The exported \<open>overwrite_allocated_code\<close>: the end of the flushed range is computed from \<open>source\<close>.\<close>

definition c_overwrite_allocated_code ::
  "'o platform \<Rightarrow> usize \<Rightarrow> usize \<Rightarrow> usize \<Rightarrow> 'o machine \<Rightarrow> 'o machine option" where
  "c_overwrite_allocated_code pl source target sz m =
     (let m1 = m\<lparr>os := disable_write_xor_execute (pl_target pl) (pl_code pl) target sz (os m)\<rparr>;
          m2 = m1\<lparr>mem := copy_nonoverlapping source target sz (mem m1)\<rparr>;
          m3 = m2\<lparr>os := restore_write_xor_execute (pl_target pl) (pl_code pl) target sz (os m2)\<rparr>
      in utilities_clear_instruction_cache pl target (source + sz) m3)"

definition c_overwrite_allocated_code_ex ::
  "'o platform \<Rightarrow> usize \<Rightarrow> usize \<Rightarrow> usize \<Rightarrow> (usize \<Rightarrow> usize \<Rightarrow> usize \<Rightarrow> 'o machine \<Rightarrow> 'o machine) \<Rightarrow>
   'o machine \<Rightarrow> 'o machine option" where
  "c_overwrite_allocated_code_ex pl source target sz callback m =
     (let m1 = m\<lparr>os := disable_write_xor_execute (pl_target pl) (pl_code pl) target sz (os m)\<rparr>;
          m2 = callback source target sz m1;
          m3 = m2\<lparr>os := restore_write_xor_execute (pl_target pl) (pl_code pl) target sz (os m2)\<rparr>
      in utilities_clear_instruction_cache pl target (source + sz) m3)"

section \<open>Items\<close>

definition locatoritem_bytes_left :: "build \<Rightarrow> item_ptr \<Rightarrow> 'o world \<Rightarrow> u32 option" where
  "locatoritem_bytes_left b item w = bytes_left b (item_at w item)"

definition locatoritem_min_address :: "item_ptr \<Rightarrow> 'o world \<Rightarrow> usize" where
  "locatoritem_min_address item w = item_min_address (item_at w item)"

definition locatoritem_max_address :: "build \<Rightarrow> item_ptr \<Rightarrow> 'o world \<Rightarrow> usize option" where
  "locatoritem_max_address b item w = item_max_address b (item_at w item)"

definition locatoritem_is_allocated :: "item_ptr \<Rightarrow> 'o world \<Rightarrow> bool" where
  "locatoritem_is_allocated item w = is_allocated (item_at w item)"

definition locatoritem_is_taken :: "item_ptr \<Rightarrow> 'o world \<Rightarrow> bool" where
  "locatoritem_is_taken item w = item_is_taken (item_at w item)"

definition locatoritem_try_lock :: "item_ptr \<Rightarrow> 'o world \<Rightarrow> bool \<times> 'o world" where
  "locatoritem_try_lock item w = (let (ok, it) = item_try_lock (item_at w item) in (ok, put_item item it w))"

definition locatoritem_lock :: "('o world \<Rightarrow> 'o world) \<Rightarrow> item_ptr \<Rightarrow> 'o world \<Rightarrow> 'o world option" where
  "locatoritem_lock yield item w = spin_lock (locatoritem_try_lock item) yield w"

definition locatoritem_unlock :: "item_ptr \<Rightarrow> 'o world \<Rightarrow> 'o world" where
  "locatoritem_unlock item w = put_item item (item_unlock (item_at w item)) w"

definition locatoritem_can_use ::
  "build \<Rightarrow> item_ptr \<Rightarrow> u32 \<Rightarrow> usize \<Rightarrow> usize \<Rightarrow> 'o world \<Rightarrow> bool option" where
  "locatoritem_can_use b item sz min_address max_address w =
     can_use b (item_at w item) sz min_address max_address"

definition locatoritem_append_bytes ::
  "'o platform \<Rightarrow> item_ptr \<Rightarrow> usize \<Rightarrow> usize \<Rightarrow> 'o world \<Rightarrow> (usize \<times> 'o world) option" where
  "locatoritem_append_bytes pl item data data_len w = do {
     (address, it, m) \<leftarrow> append_bytes (pl_build pl) (pl_target pl) (pl_code pl)
       (read_bytes data (unat data_len) (mem (w_machine w))) (item_at w item) (w_machine w);
     Some (address, put_item item it (w\<lparr>w_machine := m\<rparr>))
   }"

section \<open>Facts\<close>

text \<open>Giving a block back to the heap leaves every other address in use.\<close>

definition dealloc_ok :: "'o platform \<Rightarrow> ('o \<Rightarrow> usize set) \<Rightarrow> bool" where
  "dealloc_ok pl used \<longleftrightarrow> (\<forall>a n al st x. x \<in> used st \<longrightarrow> \<not> (unat a \<le> unat x \<and> unat x < unat a + unat n) \<longrightarrow>
     x \<in> used (pl_heap_dealloc pl a n al st))"

text \<open>The strings that were not freed lie in memory that is in use.\<close>

definition strings_ok :: "('o \<Rightarrow> usize set) \<Rightarrow> 'o c_state \<Rightarrow> bool" where
  "strings_ok used c \<longleftrightarrow> dom (cs_strings c) \<subseteq> used (w_os (c_world c))"

text \<open>Other threads do not free the memory of these strings, and neither does a search.\<close>

definition strings_kept :: "('o \<Rightarrow> usize set) \<Rightarrow> ('o world \<Rightarrow> 'o world) \<Rightarrow> 'o c_state \<Rightarrow> bool" where
  "strings_kept used yield c \<longleftrightarrow>
     (\<forall>w. dom (cs_strings c) \<subseteq> used (w_os w) \<longrightarrow> dom (cs_strings c) \<subseteq> used (w_os (yield w)))"

lemma strings_ok_search:
  assumes "get_buffer_recursive pl yield s h (c_world c) = Some (r, w)"
    and "heap_ok pl used" "strings_ok used c" "strings_kept used yield c"
  shows "strings_ok used (put_c_world w c)"
proof -
  let ?P = "\<lambda>st. dom (cs_strings c) \<subseteq> used st"
  have grow: "used st \<subseteq> used (snd (pl_heap_alloc pl n al st))" for n al st
    using heap_okD(1) [OF assms(2)] by (metis prod.collapse)
  have "os_kept pl yield ?P"
    using assms(4) grow heap_ok_allocate [OF assms(2)] unfolding os_kept_def strings_kept_def by blast
  from get_buffer_recursive_os [OF assms(1) this] assms(3) show ?thesis by (simp add: strings_ok_def)
qed

lemma into_raw_returns:
  assumes "CHR 0x00 \<notin> set txt"
  shows "(\<exists>p c'. c_string_into_raw pl txt c = Some (p, c')) \<longleftrightarrow> \<not> no_room_for pl txt c"
  using assms by (auto simp: c_string_into_raw_def c_string_def split: prod.split)

text \<open>
  A string that was handed out and freed again: it is at a fresh address, reads back, and is gone
  afterwards; no other memory was given back.
\<close>

lemma into_raw_free:
  assumes ret: "c_string_into_raw pl txt c = Some (p, c1)"
    and heap: "heap_ok pl used" "dealloc_ok pl used" and str: "strings_ok used c"
  shows "p \<noteq> 0" and "cs_strings c p = None" and "cs_strings c1 = (cs_strings c)(p \<mapsto> txt)"
    and "\<exists>st. free_string pl p c1 =
        Some ((put_c_world (put_os st (c_world c)) c)\<lparr>cs_strings := cs_strings c\<rparr>) \<and>
      used (w_os (c_world c)) \<subseteq> used st"
proof -
  let ?st = "w_os (c_world c)" and ?n = "of_nat (Suc (length txt)) :: usize"
  obtain a st1 where al: "pl_heap_alloc pl ?n 1 ?st = (a, st1)" by fastforce
  from ret al have p: "p = a" "a \<noteq> 0" "CHR 0x00 \<notin> set txt" and len: "Suc (length txt) < 2 ^ 63"
    and c1: "c1 = (put_c_world (put_os st1 (c_world c)) c)\<lparr>cs_strings := (cs_strings c)(a \<mapsto> txt)\<rparr>"
    by (auto simp: c_string_into_raw_def no_room_for_def Option.bind_eq_Some_conv split: if_splits)
  note h = heap_okD [OF heap(1) al]
  have n: "unat ?n = Suc (length txt)" using len by (intro unat_of_nat_usize) simp
  have fresh: "x \<notin> used ?st" if "unat a \<le> unat x" "unat x < unat a + unat ?n" for x
    using h(3) [OF p(2) that] .
  then have "a \<notin> used ?st" using n by simp
  with str show none: "cs_strings c p = None" unfolding p(1) by (auto simp: strings_ok_def)
  show "p \<noteq> 0" "cs_strings c1 = (cs_strings c)(p \<mapsto> txt)" using p c1 by simp_all
  have old: "(cs_strings c)(a := None) = cs_strings c" using none p(1) by auto
  have "free_string pl p c1 =
      Some ((put_c_world (put_os (pl_heap_dealloc pl a ?n 1 st1) (c_world c)) c)\<lparr>cs_strings := cs_strings c\<rparr>)"
    using p by (simp add: free_string_def c1 old)
  moreover have "used ?st \<subseteq> used (pl_heap_dealloc pl a ?n 1 st1)"
  proof
    fix x assume x: "x \<in> used ?st"
    then have "x \<in> used st1" using h(1) by blast
    with x fresh heap(2) show "x \<in> used (pl_heap_dealloc pl a ?n 1 st1)" unfolding dealloc_ok_def by blast
  qed
  ultimately show "\<exists>st. free_string pl p c1 =
        Some ((put_c_world (put_os st (c_world c)) c)\<lparr>cs_strings := cs_strings c\<rparr>) \<and>
      used (w_os (c_world c)) \<subseteq> used st" by blast
qed

text \<open>Unlocking an item of the chain.\<close>

lemma unlock_granted:
  assumes g: "granted sz mn mx p w" and ok: "chain_ok used (insert (ip_header p) H) w"
  shows "chain_ok used H (put_item p (item_unlock (item_at w p)) w)"
    and "li_is_taken (item_at (put_item p (item_unlock (item_at w p)) w) p) = 0"
    and "held q w \<Longrightarrow> q \<noteq> p \<Longrightarrow> held q (put_item p (item_unlock (item_at w p)) w)"
proof -
  have hdr: "wf_header (w_headers w (ip_header p))" "ip_index p < unat (lh_num_items (w_headers w (ip_header p)))"
    using g by (simp_all add: granted_def)
  have slot: "wf_slot (item_unlock (item_at w p))"
    using wf_header_slot [OF hdr] by (simp add: item_at_def item_unlock_def wf_slot_def)
  have "chain_ok used (insert (ip_header p) H) (put_item (Item_Ptr (ip_header p) (ip_index p)) (item_unlock (item_at w p)) w)"
    using ok slot hdr(2) by (intro put_item_ok) simp_all
  then show "chain_ok used H (put_item p (item_unlock (item_at w p)) w)" by (simp add: chain_ok_mono subset_insertI)
  have "ip_index p < length (lh_items (w_headers w (ip_header p)))" using hdr by (simp add: wf_header_def)
  then show "li_is_taken (item_at (put_item p (item_unlock (item_at w p)) w) p) = 0"
    by (simp add: item_at_def put_item_def item_unlock_def Let_def)
  show "held q (put_item p (item_unlock (item_at w p)) w)" if "held q w" "q \<noteq> p"
    using that by (cases q; cases p) (auto simp: held_def item_at_def put_item_def Let_def)
qed

end
