(* ===== verification/C_Api_Properties.thy ===== *)
theory C_Api_Properties
  imports C_Api Samples
begin

text \<open>
  What the public functions that hand memory to a caller promise, seen from the C interface: the
  life of a buffer, of a private allocation and of an error text, and the overwriting of code.
\<close>

section \<open>Buffers and error texts\<close>

text \<open>
  C26 The life of a result of \<open>buffers_get_buffer\<close>.  On a consistent chain that is not locked the call
  returns, unless there is no memory for the text of an error.  A good result points at an item that
  is locked for the caller and held by nobody else; a bad one at a fresh C string with the text of an
  error for these settings.  \<open>free_get_buffer_result\<close> then returns: the item is free again or the
  string is gone, every other string and every held item is as before, and the chain is consistent.
\<close>

theorem c_get_buffer_lifecycle:
  assumes "lib_header_address (cs_lib c) = h" and "h \<noteq> 0" and "h \<in> H"
    and "world_ok used H Q (c_world c)" and "open_path (c_world c) h hs"
    and "allocator_answers pl (bss_size s) (bss_min_address s) (bss_max_address s)"
    and "search_ok pl used yield Q (bss_size s) (bss_max_address s)"
    and "dealloc_ok pl used" and "concatenates (pl_text pl)"
    and "strings_ok used c" and "strings_kept used yield c"
  shows "(\<exists>e lib'. get_buffer pl wait yield s (cs_lib c) = Some (Inl e, lib') \<and>
      no_room_for pl (search_error_to_string (pl_text pl) e) (c\<lparr>cs_lib := lib'\<rparr>)) \<or>
    (\<exists>res c' c''. buffers_get_buffer pl wait yield s c = Some (res, c') \<and>
      free_get_buffer_result pl res c' = Some c'' \<and> cs_strings c'' = cs_strings c \<and>
      chain_ok used H (c_world c'') \<and> (\<forall>q \<in> Q. held q (c_world c'')) \<and>
      (if gr_is_ok res
       then gr_err res = 0 \<and> cs_strings c' = cs_strings c \<and>
         (\<exists>p. gr_ok res = Some p \<and> p \<notin> Q \<and>
           granted (bss_size s) (bss_min_address s) (bss_max_address s) p (c_world c') \<and>
           li_is_taken (item_at (c_world c'') p) = 0)
       else gr_ok res = None \<and> gr_err res \<noteq> 0 \<and> cs_strings c (gr_err res) = None \<and>
         (\<exists>e. bse_settings e = s \<and>
           cs_strings c' = (cs_strings c)(gr_err res \<mapsto> search_error_to_string (pl_text pl) e))))"
proof -
  obtain r w where buf: "get_buffer pl wait yield s (cs_lib c) = Some (r, (cs_lib c)\<lparr>lib_world := w\<rparr>)"
    and ans: "search_answer used H Q s (r, w)"
    and rec: "get_buffer_recursive pl yield s h (c_world c) = Some (r, w)"
    using assms(1-7) by (rule get_buffer_found [where wait = wait])
  have heap: "heap_ok pl used" using assms(7) by (simp add: search_ok_def)
  show ?thesis
  proof (cases r)
    case (Inr p)
    note p = ans [unfolded Inr search_answer_def, simplified]
    note free = unlock_granted [of _ _ _ p w used H, OF p [THEN conjunct2, THEN conjunct2, THEN conjunct2,
      THEN conjunct1] p [THEN conjunct2, THEN conjunct2, THEN conjunct2, THEN conjunct2]]
    show ?thesis
      by (rule disjI2) (use buf Inr p free in \<open>auto simp: buffers_get_buffer_def free_get_buffer_result_def
        free_locator_item_def\<close>)
  next
    case (Inl e)
    let ?txt = "search_error_to_string (pl_text pl) e" and ?c = "put_c_world w c"
    from ans Inl have e: "bse_settings e = s" "CHR 0x00 \<notin> set (bse_text e)" "chain_ok used H w"
      "\<forall>q \<in> Q. held q w" by (simp_all add: search_answer_def)
    show ?thesis
    proof (cases "no_room_for pl ?txt ?c")
      case False
      then obtain a c' where raw: "c_string_into_raw pl ?txt ?c = Some (a, c')"
        using into_raw_returns [OF search_error_text_no_nul [OF assms(9) e(2)]] by blast
      from into_raw_free [OF raw heap assms(8) strings_ok_search [OF rec heap assms(10,11)]] obtain st where
        f: "a \<noteq> 0" "cs_strings c a = None" "cs_strings c' = (cs_strings c)(a \<mapsto> ?txt)"
        "free_string pl a c' = Some ((put_c_world (put_os st w) c)\<lparr>cs_strings := cs_strings c\<rparr>)"
        "used (w_os w) \<subseteq> used st" by auto
      have "chain_ok used H (put_os st w)" using e(3) f(5) by (rule chain_ok_os)
      moreover have "\<forall>q \<in> Q. held q (put_os st w)" using e(4) by (simp add: held_def item_at_def)
      ultimately show ?thesis
        by (intro disjI2) (use buf Inl raw f e(1) in \<open>auto simp: buffers_get_buffer_def free_get_buffer_result_def\<close>)
    qed (use buf Inl in auto)
  qed
qed

theorem c_get_buffer_lifecycle_witness:
  "\<exists>c. cs_strings c = Map.empty \<and>
    ((\<exists>e lib'. get_buffer (sample_platform 4096) (\<lambda>l. l) (\<lambda>w. w) sample_search (cs_lib c) = Some (Inl e, lib') \<and>
      no_room_for (sample_platform 4096) (search_error_to_string (pl_text (sample_platform 4096)) e)
        (c\<lparr>cs_lib := lib'\<rparr>)) \<or>
     (\<exists>res c' c''. buffers_get_buffer (sample_platform 4096) (\<lambda>l. l) (\<lambda>w. w) sample_search c = Some (res, c') \<and>
      free_get_buffer_result (sample_platform 4096) res c' = Some c'' \<and> cs_strings c'' = Map.empty))"
proof -
  let ?c = "\<lparr>cs_lib = sample_library, cs_strings = Map.empty\<rparr> :: usize c_state"
  have "dealloc_ok (sample_platform 4096) sample_used" by (simp add: dealloc_ok_def sample_platform_def platform_with_def)
  moreover have "concatenates (pl_text (sample_platform 4096))"
    by (simp add: concatenates_def sample_platform_def platform_with_def)
  moreover have "strings_ok sample_used ?c" "strings_kept sample_used (\<lambda>w. w) ?c"
    by (simp_all add: strings_ok_def strings_kept_def)
  moreover have "world_ok sample_used {0x10000} {} sample_world" by (simp add: world_ok_def sample_chain)
  moreover note sample_open_path sample_answers [of 4096] sample_search_ok [of "{}"]
  ultimately show ?thesis
    by (intro exI [of _ ?c] conjI, simp)
      (use c_get_buffer_lifecycle [of ?c "0x10000" "{0x10000}" sample_used "{}" "[0x10000]" "sample_platform 4096"
        sample_search "\<lambda>w. w" "\<lambda>l. l"] in \<open>auto simp add: sample_library_def simp del: open_path.simps\<close>)
qed

section \<open>Private memory\<close>

text \<open>
  C27 The life of a private allocation.  Whenever the allocator returns, \<open>allocate_private_memory\<close>
  returns too (its \<open>NonNull\<close> is never made from null): an error for the sanitized settings, or a
  block of at least the size asked for, inside the range, aligned to the granularity.  Dropping the
  block gives exactly it back to the system: on Windows in any case, on Linux and macOS when the
  settings named the own process; when they named another process nothing is given back there.
\<close>

theorem private_memory_lifecycle:
  assumes "allocate pl s st = Some (r, s', st')" and "honest_os pl"
    and "sane_request (pl_sys pl) (bas_size s) (bas_max_address s)"
  shows "\<exists>r'. allocate_private_memory pl s st = Some (r', s', st') \<and>
    (case r' of
       Inl e \<Rightarrow> error_for s' e
     | Inr a \<Rightarrow> base_address a \<noteq> 0 \<and> unat (granularity (pl_sys pl)) dvd unat (base_address a) \<and>
         unat (bas_size s) \<le> unat (allocation_size a) \<and> bas_min_address s \<le> base_address a \<and>
         unat (base_address a) + unat (allocation_size a) \<le> unat (bas_max_address s) \<and>
         (tgt_os (pl_target pl) = Windows \<longrightarrow> private_allocation_drop pl a st' =
           Some (snd (VirtualFree (pl_windows pl) (base_address a) 0 MEM_RELEASE st'))) \<and>
         (tgt_os (pl_target pl) = Linux \<longrightarrow> private_allocation_drop pl a st' =
           Some (if bas_target_process_id s = ci_this_process_id (pl_sys pl)
             then snd (munmap (pl_linux pl) (base_address a) (allocation_size a) st') else st')) \<and>
         (tgt_os (pl_target pl) = Macos \<longrightarrow> private_allocation_drop pl a st' =
           Some (if bas_target_process_id s = ci_this_process_id (pl_sys pl)
             then (let (task, st1) = mach_task_self (pl_mach pl) st'
               in snd (mach_vm_deallocate (pl_mach pl) task (base_address a) (allocation_size a) st1)) else st')))"
proof (cases r)
  case (Inl e)
  with assms(1) have "allocate_os pl s' st = Some (Inl e, st')"
    by (auto simp: allocate_def Option.bind_eq_Some_conv)
  then have "error_for s' e" by (rule os_allocator.alloc_error)
  with Inl assms(1) show ?thesis by (simp add: allocate_private_memory_def)
next
  case (Inr it)
  note it = allocate_fresh [OF assms(1) [unfolded Inr] assms(2,3)]
  have pid: "bas_target_process_id s' = bas_target_process_id s"
    using assms(1) by (auto simp: allocate_def sanitize_def Let_def Option.bind_eq_Some_conv)
  let ?a = "private_allocation_new (li_base_address it) (ucast (li_size it)) (bas_target_process_id s')"
  have "allocate_private_memory pl s st = Some (Inr ?a, s', st')"
    using it(1) Inr assms(1) by (simp add: allocate_private_memory_def serves_request_def)
  moreover have "unat (bas_size s) \<le> unat (li_size it)" "bas_min_address s \<le> li_base_address it"
    using it(1,2) by (simp_all add: serves_request_def free_bytes_def next_address_def)
  ultimately show ?thesis
    using it by (intro exI [of _ "Inr ?a"])
      (simp add: private_allocation_new_def private_allocation_drop_def drop_windows_def drop_unix_def
        drop_macos_def base_address_def allocation_size_def pid serves_request_def)
qed

theorem private_memory_lifecycle_witness:
  "\<exists>r st'. allocate_private_memory (sample_platform 4096)
      (request_settings (sample_sys 4096) 4096 0x20000 0x7FFFFFFF) 0 = Some (r, st') \<and>
    (\<forall>a. r = Inr a \<longrightarrow> base_address a \<noteq> 0 \<and> 4096 \<le> unat (allocation_size a))"
proof -
  obtain r s' st' where ret: "allocate (sample_platform 4096)
      (request_settings (sample_sys 4096) 4096 0x20000 0x7FFFFFFF) 0 = Some (r, s', st')"
    using sample_answers [of 4096] by (auto simp: allocator_answers_def) (metis prod_cases3)
  have "sane_request (pl_sys (sample_platform 4096))
      (bas_size (request_settings (sample_sys 4096) 4096 0x20000 0x7FFFFFFF))
      (bas_max_address (request_settings (sample_sys 4096) 4096 0x20000 0x7FFFFFFF))"
    using sample_request by simp
  from private_memory_lifecycle [OF ret sample_honest this] show ?thesis
  proof (elim exE conjE)
    fix r'
    assume "allocate_private_memory (sample_platform 4096)
        (request_settings (sample_sys 4096) 4096 0x20000 0x7FFFFFFF) 0 = Some (r', s', st')"
    then show ?thesis if "case r' of Inl e \<Rightarrow> P e | Inr a \<Rightarrow> base_address a \<noteq> 0 \<and> Q a \<and>
        unat (bas_size (request_settings (sample_sys 4096) 4096 0x20000 0x7FFFFFFF)) \<le> unat (allocation_size a) \<and> R a"
      for P Q R using that by (cases r') auto
  qed
qed

section \<open>Overwriting code\<close>

text \<open>
  \<open>overwrite_allocated_code\<close> returns when the target range ends inside the address space, leaves the
  bytes of the source at the target, and changes no byte elsewhere.
\<close>

lemma overwrite_copies:
  assumes "unat target + unat sz < 2 ^ 64"
  shows "\<exists>m'. overwrite_allocated_code pl source target sz m = Some m' \<and>
    read_bytes target (unat sz) (mem m') = read_bytes source (unat sz) (mem m) \<and>
    same_outside target (unat sz) (mem m) (mem m')"
proof -
  let ?data = "read_bytes source (unat sz) (mem m)"
  have "unat (target + sz) = unat target + unat sz" using assms by (intro unat_add_small) simp
  then have le: "target \<le> target + sz" by (simp add: word_le_nat_alt)
  define st where "st = restore_write_xor_execute (pl_target pl) (pl_code pl) target sz
    (disable_write_xor_execute (pl_target pl) (pl_code pl) target sz (os m))"
  obtain st' where "clear_instruction_cache (pl_build pl) (pl_target pl) (pl_code pl) target (target + sz) st = Some st'"
    using clear_instruction_cache_returns [OF le, of "pl_build pl" "pl_target pl" "pl_code pl" st] by blast
  then obtain m' where m': "overwrite_allocated_code pl source target sz m = Some m'"
    "mem m' = write_bytes target ?data (mem m)"
    by (simp add: overwrite_allocated_code_def copy_nonoverlapping_def Let_def st_def)
  have "same_outside target (length ?data) (mem m) (mem m')"
    unfolding m'(2) using assms by (intro same_outside_write) simp
  moreover have "read_bytes target (length ?data) (mem m') = ?data"
    unfolding m'(2) using assms by (intro read_write_same) simp
  ultimately show ?thesis using m'(1) by simp
qed



end
