(* ===== verification/Interleaving.thy ===== *)
theory Interleaving
  imports Header_Chain
begin

text \<open>
  Threads that work on one header at the same time: \<open>get_first_available_item_locked\<close>,
  \<open>try_allocate_item\<close>, and a client that appends to the item it got and drops it, cut into the steps
  between which another thread can run.  A step reads or writes the shared header once (steps are
  sequentially consistent); the operations on it are those of the sequential model.
\<close>

section \<open>Threads\<close>

text \<open>
  Where a thread is, with its request: about to test slot \<open>i\<close> of the \<open>n\<close> it saw when it started, about to
  lock it, before the lock of the header, waiting for it, holding it (after the second test, in
  \<open>allocate\<close>, about to write the slot, about to count it, about to unlock), with a locked item, or
  with an error.
\<close>

datatype pc =
    Idle
  | Scan buffer_search_settings nat nat
  | Trying buffer_search_settings nat nat
  | Check buffer_search_settings
  | Spinning buffer_search_settings
  | Recheck buffer_search_settings
  | Allocating buffer_search_settings
  | Storing buffer_search_settings locator_item
  | Counting buffer_search_settings nat
  | Unlocking buffer_search_settings "item_allocation_error + nat"
  | Holding buffer_search_settings nat
  | Failed item_allocation_error

abbreviation put_slot :: "nat \<Rightarrow> locator_item \<Rightarrow> locator_header \<Rightarrow> locator_header" where
  "put_slot i it hdr \<equiv> hdr\<lparr>lh_items := (lh_items hdr)[i := it]\<rparr>"

abbreviation serves_q :: "buffer_search_settings \<Rightarrow> locator_item \<Rightarrow> bool" where
  "serves_q q it \<equiv> serves_request (bss_size q) (bss_min_address q) (bss_max_address q) it"

inductive thread_step :: "build \<Rightarrow> locator_header \<Rightarrow> pc \<Rightarrow> locator_header \<Rightarrow> pc \<Rightarrow> bool" for b where
  enter: "thread_step b hdr Idle hdr (Scan q 0 (unat (lh_num_items hdr)))"
| scan_end: "\<not> i < n \<Longrightarrow> thread_step b hdr (Scan q i n) hdr (Check q)"
| scan_no: "i < n \<Longrightarrow>
    can_use b (lh_items hdr ! i) (bss_size q) (bss_min_address q) (bss_max_address q) = Some False \<Longrightarrow>
    thread_step b hdr (Scan q i n) hdr (Scan q (Suc i) n)"
| scan_yes: "i < n \<Longrightarrow>
    can_use b (lh_items hdr ! i) (bss_size q) (bss_min_address q) (bss_max_address q) = Some True \<Longrightarrow>
    thread_step b hdr (Scan q i n) hdr (Trying q i n)"
| try_ok: "item_try_lock (lh_items hdr ! i) = (True, it) \<Longrightarrow>
    thread_step b hdr (Trying q i n) (put_slot i it hdr) (Holding q i)"
| try_fail: "item_try_lock (lh_items hdr ! i) = (False, it) \<Longrightarrow>
    thread_step b hdr (Trying q i n) (put_slot i it hdr) (Scan q (Suc i) n)"
| check_full: "is_full hdr \<Longrightarrow> thread_step b hdr (Check q) hdr (Failed NoSpaceInHeader)"
| check_room: "\<not> is_full hdr \<Longrightarrow> thread_step b hdr (Check q) hdr (Spinning q)"
| spin_ok: "header_try_lock hdr = (True, hdr') \<Longrightarrow> thread_step b hdr (Spinning q) hdr' (Recheck q)"
| spin_fail: "header_try_lock hdr = (False, hdr') \<Longrightarrow> thread_step b hdr (Spinning q) hdr' (Spinning q)"
| recheck_full: "is_full hdr \<Longrightarrow> thread_step b hdr (Recheck q) hdr (Unlocking q (Inl NoSpaceInHeader))"
| recheck_room: "\<not> is_full hdr \<Longrightarrow> thread_step b hdr (Recheck q) hdr (Allocating q)"
| alloc_ok: "serves_q q it \<Longrightarrow> li_is_taken it = 0 \<Longrightarrow>
    item_lock (\<lambda>it. it) it = Some it' \<Longrightarrow>
    thread_step b hdr (Allocating q) hdr (Storing q it')"
| alloc_fail: "thread_step b hdr (Allocating q) hdr (Unlocking q (Inl CannotAllocateMemory))"
| store: "set_slot (unat (lh_num_items hdr)) it (lh_items hdr) = Some items \<Longrightarrow>
    thread_step b hdr (Storing q it) (hdr\<lparr>lh_items := items\<rparr>) (Counting q (unat (lh_num_items hdr)))"
| count: "wadd b (lh_num_items hdr) 1 = Some num_items \<Longrightarrow>
    thread_step b hdr (Counting q i) (hdr\<lparr>lh_num_items := num_items\<rparr>) (Unlocking q (Inr i))"
| unlock_ok: "header_unlock b hdr = Some hdr' \<Longrightarrow>
    thread_step b hdr (Unlocking q (Inr i)) hdr' (Holding q i)"
| unlock_error: "header_unlock b hdr = Some hdr' \<Longrightarrow>
    thread_step b hdr (Unlocking q (Inl e)) hdr' (Failed e)"
| append: "k \<le> free_bytes (lh_items hdr ! i) \<Longrightarrow>
    thread_step b hdr (Holding q i) (put_slot i (advance k (lh_items hdr ! i)) hdr) (Holding q i)"
| drop: "thread_step b hdr (Holding q i) (put_slot i (safe_drop (lh_items hdr ! i)) hdr) Idle"

inductive_cases scan_step: "thread_step b hdr (Scan q i n) hdr' pc'"
inductive_simps idle_step: "thread_step b hdr Idle hdr' pc'"

text \<open>Any thread may take the next step.\<close>

inductive reachable :: "build \<Rightarrow> locator_header \<Rightarrow> locator_header \<Rightarrow> (nat \<Rightarrow> pc) \<Rightarrow> bool" for b hdr0 where
  initial: "reachable b hdr0 hdr0 (\<lambda>_. Idle)"
| interleave: "reachable b hdr0 hdr T \<Longrightarrow> thread_step b hdr (T t) hdr' pc' \<Longrightarrow> reachable b hdr0 hdr' (T(t := pc'))"

section \<open>The invariant\<close>

text \<open>The threads that hold the lock of the header.\<close>

fun critical :: "pc \<Rightarrow> bool" where
  "critical (Recheck q) = True"
| "critical (Allocating q) = True"
| "critical (Storing q it) = True"
| "critical (Counting q i) = True"
| "critical (Unlocking q r) = True"
| "critical _ = False"

text \<open>The steps of such a thread before its \<open>unlock\<close>, at most.\<close>

fun steps_left :: "pc \<Rightarrow> nat" where
  "steps_left (Recheck q) = 4"
| "steps_left (Allocating q) = 3"
| "steps_left (Storing q it) = 2"
| "steps_left (Counting q i) = 1"
| "steps_left _ = 0"

text \<open>The slot whose item a thread has locked.\<close>

fun slot_of :: "pc \<Rightarrow> nat option" where
  "slot_of (Counting q i) = Some i"
| "slot_of (Unlocking q (Inr i)) = Some i"
| "slot_of (Holding q i) = Some i"
| "slot_of _ = None"

text \<open>What a thread relies on, given the number of registered items and the slots.\<close>

fun thread_ok :: "nat \<Rightarrow> locator_item list \<Rightarrow> pc \<Rightarrow> bool" where
  "thread_ok num items (Scan q i n) = (i \<le> n \<and> n \<le> num)"
| "thread_ok num items (Trying q i n) = (i < n \<and> n \<le> num)"
| "thread_ok num items (Allocating q) = (num < 203)"
| "thread_ok num items (Storing q it) = (num < 203 \<and> serves_q q it \<and> li_is_taken it = 1)"
| "thread_ok num items (Counting q i) = (num < 203 \<and> i = num \<and> serves_q q (items ! i) \<and> li_is_taken (items ! i) = 1)"
| "thread_ok num items (Unlocking q (Inr i)) = (i < num \<and> serves_q q (items ! i) \<and> li_is_taken (items ! i) = 1)"
| "thread_ok num items (Holding q i) = (i < num \<and> li_is_taken (items ! i) = 1)"
| "thread_ok num items _ = True"

definition threads_ok :: "locator_header \<Rightarrow> (nat \<Rightarrow> pc) \<Rightarrow> bool" where
  "threads_ok hdr T \<longleftrightarrow> wf_header hdr \<and>
     (\<forall>t. thread_ok (unat (lh_num_items hdr)) (lh_items hdr) (T t)) \<and>
     (\<forall>t u i. slot_of (T t) = Some i \<longrightarrow> slot_of (T u) = Some i \<longrightarrow> t = u) \<and>
     (\<forall>t u. critical (T t) \<longrightarrow> critical (T u) \<longrightarrow> t = u) \<and>
     (lh_is_locked hdr = 0 \<longleftrightarrow> (\<forall>t. \<not> critical (T t)))"

lemma thread_ok_frame:
  assumes "thread_ok num items p" and "num \<le> num'" and "critical p \<Longrightarrow> num' = num"
    and "\<And>i. slot_of p = Some i \<Longrightarrow> li_is_taken (items ! i) = 1 \<Longrightarrow> items' ! i = items ! i"
  shows "thread_ok num' items' p"
  using assms by (cases "(num, items, p)" rule: thread_ok.cases) auto

text \<open>A step of thread \<open>t\<close> keeps the invariant when it keeps the following.\<close>

lemma threads_okI:
  assumes ok: "threads_ok hdr T" and wf: "wf_header hdr'"
    and num: "unat (lh_num_items hdr) \<le> unat (lh_num_items hdr')"
      "lh_num_items hdr' \<noteq> lh_num_items hdr \<Longrightarrow> critical (T t)"
    and me: "thread_ok (unat (lh_num_items hdr')) (lh_items hdr') p"
    and slot: "slot_of p = None \<or> slot_of p = slot_of (T t) \<or>
      (\<forall>u. u \<noteq> t \<longrightarrow> slot_of (T u) \<noteq> slot_of p)"
    and items: "\<And>i. (\<forall>u. u \<noteq> t \<longrightarrow> slot_of (T u) \<noteq> Some i) \<or>
      (li_is_taken (lh_items hdr ! i) = 1 \<longrightarrow> lh_items hdr' ! i = lh_items hdr ! i)"
    and crit: "critical p \<Longrightarrow> critical (T t) \<or> lh_is_locked hdr = 0"
    and lock: "lh_is_locked hdr' = 0 \<longleftrightarrow> \<not> critical p \<and> (critical (T t) \<or> lh_is_locked hdr = 0)"
  shows "threads_ok hdr' (T(t := p))"
proof -
  from ok have old: "\<And>u. thread_ok (unat (lh_num_items hdr)) (lh_items hdr) (T u)"
    "\<And>u v i. slot_of (T u) = Some i \<Longrightarrow> slot_of (T v) = Some i \<Longrightarrow> u = v"
    "\<And>u v. critical (T u) \<Longrightarrow> critical (T v) \<Longrightarrow> u = v"
    "lh_is_locked hdr = 0 \<longleftrightarrow> (\<forall>u. \<not> critical (T u))" unfolding threads_ok_def by blast+
  have others: "thread_ok (unat (lh_num_items hdr')) (lh_items hdr') (T u)" if "u \<noteq> t" for u
  proof (rule thread_ok_frame [OF old(1) num(1)])
    show "unat (lh_num_items hdr') = unat (lh_num_items hdr)" if "critical (T u)"
      using num(2) old(3) that \<open>u \<noteq> t\<close> by metis
  qed (use items that in blast)+
  have mine: "slot_of p \<noteq> Some i" if "u \<noteq> t" "slot_of (T u) = Some i" for u i
    using slot
  proof (elim disjE)
    assume "slot_of p = slot_of (T t)"
    with old(2) [of u i t] that show ?thesis by auto
  qed (use that in auto)
  then have "slot_of ((T(t := p)) u) = Some i \<Longrightarrow> slot_of ((T(t := p)) v) = Some i \<Longrightarrow> u = v" for u v i
    using old(2) by (auto split: if_splits)
  note slots = this
  have other: "\<not> critical (T u)" if "u \<noteq> t" "critical (T t) \<or> lh_is_locked hdr = 0" for u
    using that old(3,4) by blast
  have crits: "critical ((T(t := p)) u) \<Longrightarrow> critical ((T(t := p)) v) \<Longrightarrow> u = v" for u v
    using crit other old(3) by (cases "u = t"; cases "v = t") auto
  have "lh_is_locked hdr' = 0 \<longleftrightarrow> (\<forall>u. \<not> critical ((T(t := p)) u))"
  proof
    assume "lh_is_locked hdr' = 0"
    with lock other show "\<forall>u. \<not> critical ((T(t := p)) u)" by simp
  next
    assume a: "\<forall>u. \<not> critical ((T(t := p)) u)"
    then have "\<not> critical p" "\<And>u. u \<noteq> t \<Longrightarrow> \<not> critical (T u)" by (auto dest: spec split: if_splits)
    note b = this
    have "critical (T t) \<or> \<not> critical (T u)" for u by (cases "u = t") (simp_all add: b(2))
    then have "critical (T t) \<or> lh_is_locked hdr = 0" unfolding old(4) by auto
    with lock b(1) show "lh_is_locked hdr' = 0" by simp
  qed
  moreover have "thread_ok (unat (lh_num_items hdr')) (lh_items hdr') ((T(t := p)) u)" for u
    using me others by (cases "u = t") simp_all
  ultimately show ?thesis unfolding threads_ok_def using wf slots crits by blast
qed

text \<open>Slots of registered items.\<close>

lemma put_slot_wf:
  assumes "wf_header hdr" "i < unat (lh_num_items hdr)" "wf_slot it"
  shows "wf_header (put_slot i it hdr)"
  using assms wf_header_update by blast

lemma slot_facts:
  assumes "wf_header hdr" "i < unat (lh_num_items hdr)"
  shows "wf_slot (lh_items hdr ! i)" "i < length (lh_items hdr)"
  using assms wf_header_slot by (auto simp: wf_header_def)

text \<open>The steps that leave the header alone.\<close>

lemma threads_ok_quiet:
  assumes ok: "threads_ok hdr T" and p: "thread_ok (unat (lh_num_items hdr)) (lh_items hdr) p"
    "slot_of p = None" "critical p = critical (T t)"
  shows "threads_ok hdr (T(t := p))"
proof -
  have "wf_header hdr" and lock: "critical (T t) \<Longrightarrow> lh_is_locked hdr \<noteq> 0"
    using ok unfolding threads_ok_def by blast+
  then show ?thesis using p lock by (intro threads_okI [OF ok]) auto
qed

text \<open>The steps that write the slot of a registered item: the thread holds it, or swaps its lock.\<close>

lemma threads_ok_slot:
  assumes ok: "threads_ok hdr T" and i: "i < unat (lh_num_items hdr)" and it: "wf_slot it"
    and crit: "\<not> critical (T t)" "\<not> critical p"
    and own: "slot_of (T t) = Some i \<or> it = (lh_items hdr ! i)\<lparr>li_is_taken := 1\<rparr>"
    and p: "p = Scan q j n \<and> j \<le> n \<and> n \<le> unat (lh_num_items hdr) \<or> p = Idle \<or>
      p = Holding q i \<and> li_is_taken it = 1 \<and> (slot_of (T t) = Some i \<or> li_is_taken (lh_items hdr ! i) = 0)"
  shows "threads_ok (put_slot i it hdr) (T(t := p))"
proof (rule threads_okI [OF ok])
  have wf: "wf_header hdr" and slots: "\<And>u i. slot_of (T t) = Some i \<Longrightarrow> u \<noteq> t \<Longrightarrow> slot_of (T u) \<noteq> Some i"
    and oks: "\<And>u. thread_ok (unat (lh_num_items hdr)) (lh_items hdr) (T u)"
    using ok unfolding threads_ok_def by blast+
  note f = slot_facts [OF wf i]
  show "wf_header (put_slot i it hdr)" using wf i it by (rule put_slot_wf)
  show "thread_ok (unat (lh_num_items (put_slot i it hdr))) (lh_items (put_slot i it hdr)) p"
    using p i f by auto
  have free: "slot_of (T u) \<noteq> Some i" if "li_is_taken (lh_items hdr ! i) = 0" for u
    using that oks [of u] by (cases "T u" rule: slot_of.cases) auto
  show "slot_of p = None \<or> slot_of p = slot_of (T t) \<or> (\<forall>u. u \<noteq> t \<longrightarrow> slot_of (T u) \<noteq> slot_of p)"
    using p free by auto
  show "(\<forall>u. u \<noteq> t \<longrightarrow> slot_of (T u) \<noteq> Some k) \<or>
    (li_is_taken (lh_items hdr ! k) = 1 \<longrightarrow> lh_items (put_slot i it hdr) ! k = lh_items hdr ! k)" for k
    using own f slots by (cases "k = i") auto
qed (use crit in auto)

text \<open>The two steps of a registration.\<close>

lemma threads_ok_store:
  assumes ok: "threads_ok hdr T" and t: "T t = Storing q it"
    and slot: "set_slot (unat (lh_num_items hdr)) it (lh_items hdr) = Some items"
  shows "threads_ok (hdr\<lparr>lh_items := items\<rparr>) (T(t := Counting q (unat (lh_num_items hdr))))"
proof -
  let ?n = "unat (lh_num_items hdr)"
  have wf: "wf_header hdr" and me: "thread_ok ?n (lh_items hdr) (Storing q it)"
    and lock: "critical (T t) \<Longrightarrow> lh_is_locked hdr \<noteq> 0"
    and oks: "\<And>u. thread_ok ?n (lh_items hdr) (T u)"
    using ok t unfolding threads_ok_def by metis+
  have n: "?n < 203" "serves_q q it" "li_is_taken it = 1" using me by simp_all
  have items: "items = (lh_items hdr)[?n := it]" "?n < length (lh_items hdr)"
    using slot by (auto simp: set_slot_def split: if_splits)
  have far: "slot_of (T u) \<noteq> Some ?n" if "u \<noteq> t" for u
  proof
    assume "slot_of (T u) = Some ?n"
    then have "critical (T u)" using oks [of u] by (cases "T u" rule: slot_of.cases) auto
    then show False using ok that t by (auto simp: threads_ok_def)
  qed
  show ?thesis
  proof (rule threads_okI [OF ok])
    show "wf_header (hdr\<lparr>lh_items := items\<rparr>)" using wf items by (simp add: wf_header_def)
  qed (use t items n far lock in \<open>auto simp: nth_list_update\<close>)
qed

lemma threads_ok_count:
  assumes ok: "threads_ok hdr T" and t: "T t = Counting q i" and num: "wadd b (lh_num_items hdr) 1 = Some num_items"
  shows "threads_ok (hdr\<lparr>lh_num_items := num_items\<rparr>) (T(t := Unlocking q (Inr i)))"
proof -
  have wf: "wf_header hdr" and me: "thread_ok (unat (lh_num_items hdr)) (lh_items hdr) (Counting q i)"
    and lock: "critical (T t) \<Longrightarrow> lh_is_locked hdr \<noteq> 0"
    using ok t unfolding threads_ok_def by metis+
  have n: "unat (lh_num_items hdr) < 203" "i = unat (lh_num_items hdr)" "serves_q q (lh_items hdr ! i)"
    "wf_item (lh_items hdr ! i)" "li_is_taken (lh_items hdr ! i) = 1"
    using me by (auto simp: serves_request_def)
  have "num_items = lh_num_items hdr + 1" using num by (auto dest: wadd_SomeD)
  then have Suc: "unat num_items = Suc i"
    using registered_num [of hdr] n(1,2) by (simp add: is_full_iff)
  have "take (Suc i) (lh_items hdr) = take i (lh_items hdr) @ [lh_items hdr ! i]"
    using wf n by (intro take_Suc_conv_app_nth) (simp add: wf_header_def)
  then have "wf_header (hdr\<lparr>lh_num_items := num_items\<rparr>)" using wf n Suc by (simp add: wf_header_def wf_slot_def)
  then show ?thesis by (rule threads_okI [OF ok]) (use t Suc n lock in auto)
qed

lemma threads_ok_step:
  assumes ok: "threads_ok hdr T" and step: "thread_step b hdr (T t) hdr' p"
  shows "threads_ok hdr' (T(t := p))"
proof -
  have wf: "wf_header hdr" and me: "thread_ok (unat (lh_num_items hdr)) (lh_items hdr) (T t)"
    and lock: "critical (T t) \<Longrightarrow> lh_is_locked hdr \<noteq> 0"
    using ok unfolding threads_ok_def by blast+
  have slot: "i < unat (lh_num_items hdr)" "wf_slot (lh_items hdr ! i)"
    if "T t = Trying q i n \<or> T t = Holding q i" for q i n
    using that me slot_facts [OF wf] by auto
  note writes = threads_ok_slot [OF ok] and swap = item_try_lock_def Let_def wf_slot_def
  show ?thesis
    using step
  proof cases
    case (try_ok i it q n)
    then show ?thesis using slot [of q i n] by (auto intro!: writes [where q = q] simp: swap)
  next
    case (try_fail i it q n)
    then show ?thesis using slot [of q i n] me by (auto intro!: writes [where q = q] simp: swap)
  next
    case (append k i q)
    then show ?thesis
      using slot [of q i] me advance_facts(3) [of "lh_items hdr ! i" k]
      by (auto intro!: writes [where q = q] simp: wf_slot_def)
  next
    case (drop q i)
    then show ?thesis using slot [of q i]
      by (auto intro!: writes [where q = q] simp: wf_slot_def safe_drop_def item_unlock_def)
  next
    case (store it items q)
    with threads_ok_store [OF ok store(1)] show ?thesis by simp
  next
    case (count num_items q i)
    with threads_ok_count [OF ok count(1)] show ?thesis by simp
  next
    case spin_fail
    then have "hdr' = hdr" by (simp add: header_try_lock_def split: if_splits)
    with spin_fail show ?thesis by (auto intro!: threads_ok_quiet [OF ok])
  qed (use me lock in \<open>auto intro!: threads_ok_quiet [OF ok] threads_okI [OF ok] simp: wf
      header_try_lock_def header_unlock_def Let_def is_full_iff item_lock_fresh split: if_splits\<close>)
qed

end
