(* ===== verification/Arena.thy ===== *)
theory Arena
  imports Buffer_Facts
begin

text \<open>
  The memory behind a chain of headers: the pages of the headers and the buffers they register are
  in use and do not overlap.  A search keeps it so, on systems whose allocation granularity is the
  page of one header (larger ones preallocate buffers that do overlap) and that hand out memory
  which is not in use.
\<close>

section \<open>Blocks of memory\<close>

definition item_block :: "locator_item \<Rightarrow> nat set" where
  "item_block it = {unat (li_base_address it) ..< unat (li_base_address it) + unat (li_size it)}"

definition page_block :: "usize \<Rightarrow> nat set" where
  "page_block h = {unat h ..< unat h + 4096}"

definition all_in :: "nat set \<Rightarrow> usize set \<Rightarrow> bool" where
  "all_in B U \<longleftrightarrow> (\<forall>x. unat x \<in> B \<longrightarrow> x \<in> U)"

definition none_in :: "nat set \<Rightarrow> usize set \<Rightarrow> bool" where
  "none_in B U \<longleftrightarrow> (\<forall>x. unat x \<in> B \<longrightarrow> x \<notin> U)"

lemma all_in_mono: "all_in B U \<Longrightarrow> U \<subseteq> V \<Longrightarrow> all_in B V"
  by (auto simp: all_in_def)

lemma none_in_disjoint:
  assumes "none_in B U" "all_in C U" and "\<And>n. n \<in> B \<Longrightarrow> n < 2 ^ 64"
  shows "B \<inter> C = {}"
proof -
  have False if "n \<in> B" "n \<in> C" for n
  proof -
    have "unat (of_nat n :: usize) = n" using assms(3) [OF that(1)] by (intro unat_of_nat_usize) simp
    with that have "unat (of_nat n :: usize) \<in> B" "unat (of_nat n :: usize) \<in> C" by simp_all
    with assms(1,2) show False unfolding all_in_def none_in_def by blast
  qed
  then show ?thesis by blast
qed

lemma item_block_lock [simp]: "item_block (it\<lparr>li_is_taken := x\<rparr>) = item_block it"
  by (simp add: item_block_def)

lemma item_block_bound: "wf_item it \<Longrightarrow> n \<in> item_block it \<Longrightarrow> n < 2 ^ 64"
  by (auto simp: item_block_def wf_item_def)

section \<open>The invariant\<close>

definition items_in :: "usize set \<Rightarrow> 'o world \<Rightarrow> item_ptr set" where
  "items_in K w = {p. ip_header p \<in> K \<and> ip_index p < unat (lh_num_items (w_headers w (ip_header p)))}"

abbreviation block_at :: "'o world \<Rightarrow> item_ptr \<Rightarrow> nat set" where
  "block_at w p \<equiv> item_block (item_at w p)"

definition apart :: "usize set \<Rightarrow> 'o world \<Rightarrow> bool" where
  "apart K w \<longleftrightarrow>
     (\<forall>p \<in> items_in K w. (\<forall>h \<in> K. block_at w p \<inter> page_block h = {}) \<and>
        (\<forall>q \<in> items_in K w. p \<noteq> q \<longrightarrow> block_at w p \<inter> block_at w q = {}))"

definition arena :: "('o \<Rightarrow> usize set) \<Rightarrow> usize set \<Rightarrow> 'o world \<Rightarrow> bool" where
  "arena used K w \<longleftrightarrow> 0 \<notin> K \<and> headers_ok K w \<and> apart K w \<and>
     (\<forall>h \<in> K. h \<in> used (w_os w) \<and> all_in (page_block h) (used (w_os w))) \<and>
     (\<forall>p \<in> items_in K w. all_in (block_at w p) (used (w_os w)))"

lemma arena_chain: "arena used K w \<Longrightarrow> chain_ok used K w"
  unfolding arena_def chain_ok_def by blast

lemma arena_os:
  assumes "arena used K w" and "used (w_os w) \<subseteq> used st"
  shows "arena used K (put_os st w)"
  using assms unfolding arena_def apart_def headers_ok_def items_in_def item_at_def
  by (auto intro: all_in_mono)

text \<open>The part of the state that searches only add to; the bytes of memory do not change.\<close>

definition extends :: "usize set \<Rightarrow> 'o world \<Rightarrow> usize set \<Rightarrow> 'o world \<Rightarrow> bool" where
  "extends K w K' w' \<longleftrightarrow> K \<subseteq> K' \<and> mem (w_machine w') = mem (w_machine w) \<and>
     (\<forall>p \<in> items_in K w. p \<in> items_in K' w' \<and>
        (\<exists>x. item_at w' p = (item_at w p)\<lparr>li_is_taken := x\<rparr>))"

lemma extends_refl: "extends K w K w"
proof -
  have "\<exists>x. it = it\<lparr>li_is_taken := x\<rparr>" for it :: locator_item
    by (rule exI [of _ "li_is_taken it"]) simp
  then show ?thesis by (simp add: extends_def)
qed

lemma extends_trans: "extends K w K' w' \<Longrightarrow> extends K' w' K'' w'' \<Longrightarrow> extends K w K'' w''"
  unfolding extends_def by (elim conjE, intro conjI ballI) fastforce+

text \<open>Rewriting a header without changing its count, its link or where its items are.\<close>

lemma arena_rewrite:
  assumes ar: "arena used K w" and h: "h \<in> K" and wf: "wf_header hdr"
    and same: "lh_next_locator_ptr hdr = lh_next_locator_ptr (w_headers w h)"
      "lh_num_items hdr = lh_num_items (w_headers w h)"
    and items: "\<And>i. i < unat (lh_num_items hdr) \<Longrightarrow>
      \<exists>x. lh_items hdr ! i = (lh_items (w_headers w h) ! i)\<lparr>li_is_taken := x\<rparr>"
  shows "arena used K (put_header h hdr w)" and "extends K w K (put_header h hdr w)"
proof -
  let ?w = "put_header h hdr w"
  have at: "\<exists>x. item_at ?w p = (item_at w p)\<lparr>li_is_taken := x\<rparr>" if "p \<in> items_in K w" for p
  proof (cases "ip_header p = h")
    case True
    with that items [of "ip_index p"] same show ?thesis by (simp add: items_in_def item_at_def)
  next
    case False
    then show ?thesis by (intro exI [of _ "li_is_taken (item_at w p)"]) (simp add: item_at_def)
  qed
  have its: "items_in K ?w = items_in K w" using same by (auto simp: items_in_def)
  show "extends K w K ?w" using at its by (simp add: extends_def)
  have blk: "block_at ?w p = block_at w p" if "p \<in> items_in K w" for p using at [OF that] by auto
  have "headers_ok K ?w" using ar wf same h by (auto simp: arena_def headers_ok_def has_next_locator_def wf_header_def)
  moreover have "apart K ?w" using ar blk unfolding arena_def apart_def its by simp
  ultimately show "arena used K ?w" using ar blk unfolding arena_def its by simp
qed

section \<open>The operations on a header\<close>

text \<open>
  What the theory assumes of the system: memory that an allocation hands out was not in use before.
\<close>

definition fresh_memory :: "'o platform \<Rightarrow> ('o \<Rightarrow> usize set) \<Rightarrow> bool" where
  "fresh_memory pl used \<longleftrightarrow> (\<forall>s st it s' st'. allocate pl s st = Some (Inr it, s', st') \<longrightarrow>
     none_in (item_block it) (used st) \<and> all_in (item_block it) (used st'))"

lemma arena_search:
  assumes ret: "get_first_available_item_locked pl h sz mn mx w = Some (r, w')"
    and ar: "arena used K w" "h \<in> K"
  shows "arena used K w'" and "extends K w K w'"
proof -
  have wf: "wf_header (w_headers w h)" using chain_ok_wf [OF arena_chain [OF ar(1)] ar(2)] .
  have "arena used K w' \<and> extends K w K w'"
    using search_header [OF wf, of pl sz mn mx]
  proof (elim disjE exE conjE, goal_cases)
    case 1
    with ret ar show ?case by (simp add: extends_refl)
  next
    case (2 i)
    let ?hdr = "(w_headers w h)\<lparr>lh_items := (lh_items (w_headers w h))[i := (lh_items (w_headers w h) ! i)\<lparr>li_is_taken := 1\<rparr>]\<rparr>"
    from 2 ret have w': "w' = put_header h ?hdr w" by (simp add: put_item_def Let_def)
    have wf': "wf_header ?hdr"
      using 2 by (intro wf_header_update wf_slot_take wf_header_slot wf) simp_all
    have "\<exists>x. lh_items ?hdr ! j = (lh_items (w_headers w h) ! j)\<lparr>li_is_taken := x\<rparr>"
      if "j < unat (lh_num_items ?hdr)" for j
    proof (cases "j = i")
      case True
      have "j < length (lh_items (w_headers w h))" using that wf by (simp add: wf_header_def)
      with True show ?thesis by auto
    next
      case False
      then show ?thesis by (intro exI [of _ "li_is_taken (lh_items (w_headers w h) ! j)"]) simp
    qed
    then show ?case unfolding w' using arena_rewrite [OF ar wf'] by simp
  qed
  then show "arena used K w'" "extends K w K w'" by simp_all
qed

text \<open>With nobody else running, a lock that is returned was free.\<close>

lemma lock_at_alone:
  assumes "lock_at (\<lambda>w. w) h w = Some w1"
  shows "lh_is_locked (w_headers w h) = 0"
    and "w1 = put_header h ((w_headers w h)\<lparr>lh_is_locked := 1\<rparr>) w"
proof -
  show free: "lh_is_locked (w_headers w h) = 0"
  proof (rule ccontr)
    assume h: "lh_is_locked (w_headers w h) \<noteq> 0"
    then have "failed_turn (try_lock_at h) (\<lambda>w. w) w = w"
      by (simp add: failed_turn_def try_lock_at_def header_try_lock_def)
    then have "(failed_turn (try_lock_at h) (\<lambda>w. w) ^^ k) w = w" for k by (induction k) simp_all
    with h lock_at.spin_end_free [OF assms [unfolded lock_at_def]] show False by simp
  qed
  from lock_at_free [OF this, of "\<lambda>w. w"] assms
  show "w1 = put_header h ((w_headers w h)\<lparr>lh_is_locked := 1\<rparr>) w" by simp
qed

lemma arena_lock:
  assumes "arena used K w" "h \<in> K"
  shows "arena used K (put_header h ((w_headers w h)\<lparr>lh_is_locked := x\<rparr>) w)"
    and "extends K w K (put_header h ((w_headers w h)\<lparr>lh_is_locked := x\<rparr>) w)"
proof -
  have wf: "wf_header ((w_headers w h)\<lparr>lh_is_locked := x\<rparr>)"
    using chain_ok_wf [OF arena_chain [OF assms(1)] assms(2)] by simp
  have "\<exists>y. lh_items ((w_headers w h)\<lparr>lh_is_locked := x\<rparr>) ! i = (lh_items (w_headers w h) ! i)\<lparr>li_is_taken := y\<rparr>" for i
    by (rule exI [of _ "li_is_taken (lh_items (w_headers w h) ! i)"]) simp
  then show "arena used K (put_header h ((w_headers w h)\<lparr>lh_is_locked := x\<rparr>) w)"
    "extends K w K (put_header h ((w_headers w h)\<lparr>lh_is_locked := x\<rparr>) w)"
    using arena_rewrite [OF assms wf] by simp_all
qed

lemma extends_os: "extends K w K (put_os st w)"
  using extends_refl [of K w] by (simp add: extends_def items_in_def item_at_def)

text \<open>Registering an item over memory that was not in use.\<close>

lemma arena_register:
  assumes ar: "arena used K w" "h \<in> K" and nf: "\<not> is_full (w_headers w h)"
    and it: "wf_item it" "none_in (item_block it) (used (w_os w))" "all_in (item_block it) (used st)"
    and grow: "used (w_os w) \<subseteq> used st"
    and w': "w' = put_header h (registered it (w_headers w h)) (put_os st w)"
  shows "arena used K w'" and "extends K w K w'"
    and "Item_Ptr h (unat (lh_num_items (w_headers w h))) \<in> items_in K w'"
  unfolding w'
proof -
  let ?w = "put_header h (registered it (w_headers w h)) (put_os st w)"
  let ?hdr = "w_headers w h" and ?n = "unat (lh_num_items (w_headers w h))"
  let ?p = "Item_Ptr h ?n"
  have wf: "wf_header ?hdr" using chain_ok_wf [OF arena_chain [OF ar(1)] ar(2)] .
  have n: "?n < length (lh_items ?hdr)" using wf nf by (simp add: wf_header_def is_full_iff)
  have num: "unat (lh_num_items (registered it ?hdr)) = Suc ?n" using registered_num [OF nf] by (simp add: registered_def)
  have its: "items_in K ?w = insert ?p (items_in K w)"
  proof (rule set_eqI)
    fix p show "p \<in> items_in K ?w \<longleftrightarrow> p \<in> insert ?p (items_in K w)"
      using num ar(2) by (cases p) (auto simp: items_in_def)
  qed
  show "?p \<in> items_in K ?w" using its by simp
  have notin: "?p \<notin> items_in K w" by (simp add: items_in_def)
  have new: "item_at ?w ?p = it\<lparr>li_is_taken := 1\<rparr>" using n by (simp add: item_at_def registered_def)
  have old: "item_at ?w p = item_at w p" if "p \<in> items_in K w" for p
    using that by (cases p) (auto simp: item_at_def registered_def items_in_def)
  have keep: "\<exists>x. item_at w p = (item_at w p)\<lparr>li_is_taken := x\<rparr>" for p
    by (rule exI [of _ "li_is_taken (item_at w p)"]) simp
  show "extends K w K ?w" using its old keep by (simp add: extends_def)
  note bound = item_block_bound [OF it(1)]
  have pages: "item_block it \<inter> page_block x = {}" if "x \<in> K" for x
    using that ar(1) by (intro none_in_disjoint [OF it(2)] bound) (simp_all add: arena_def)
  have blocks: "item_block it \<inter> block_at w q = {}" if "q \<in> items_in K w" for q
    using that ar(1) by (intro none_in_disjoint [OF it(2)] bound) (simp_all add: arena_def)
  have sym: "block_at w q \<inter> item_block it = {}" if "q \<in> items_in K w" for q
    using blocks [OF that] by blast
  have "headers_ok K ?w"
    using ar wf_registered [OF wf nf it(1)] n
    by (auto simp: arena_def headers_ok_def registered_def has_next_locator_def)
  moreover have "apart K ?w"
    using ar(1) pages blocks sym new old notin unfolding arena_def apart_def its by auto
  moreover have "\<forall>p \<in> items_in K ?w. all_in (block_at ?w p) (used st)"
    using ar(1) new old it(3) grow unfolding its by (auto simp: arena_def intro: all_in_mono)
  ultimately show "arena used K ?w" using ar(1) grow by (auto simp: arena_def intro: all_in_mono)
qed

lemma arena_try_allocate:
  assumes ret: "try_allocate_item pl (\<lambda>w. w) h sz mn mx w = Some (r, w')"
    and ar: "arena used K w" "h \<in> K"
    and req: "honest_os pl" "sane_request (pl_sys pl) sz mx" "heap_ok pl used" "fresh_memory pl used"
  shows "arena used K w'" and "extends K w K w'" and "r = Inr p \<Longrightarrow> p \<in> items_in K w'"
proof -
  have y: "yield_ok used (\<lambda>w. w)" by (simp add: yield_ok_def)
  let ?w1 = "put_header h ((w_headers w h)\<lparr>lh_is_locked := 1\<rparr>) w"
  note ar1 = arena_lock [OF ar, of 1]
  have unlocked: "arena used K (put_header h ((w_headers ?w1 h)\<lparr>lh_is_locked := 0\<rparr>) (put_os st ?w1)) \<and>
      extends K w K (put_header h ((w_headers ?w1 h)\<lparr>lh_is_locked := 0\<rparr>) (put_os st ?w1))"
    if "used (w_os w) \<subseteq> used st" for st
  proof -
    have ar2: "arena used K (put_os st ?w1)" using that by (intro arena_os ar1(1)) simp
    show ?thesis
      using arena_lock [OF ar2 ar(2), of 0] extends_trans [OF extends_trans [OF ar1(2) extends_os]] by simp
  qed
  have "arena used K w' \<and> extends K w K w' \<and> (\<forall>p. r = Inr p \<longrightarrow> p \<in> items_in K w')"
    using ret arena_chain [OF ar(1)] ar(2) y req(1-3)
  proof (cases rule: try_allocate_item_cases)
    case full
    with ar show ?thesis by (simp add: extends_refl)
  next
    case (filled w1)
    with unlocked [of "w_os w"] lock_at_alone(2) [OF filled(1)] show ?thesis by simp
  next
    case (no_memory w1 st)
    with unlocked [of st] lock_at_alone(2) [OF no_memory(1)] show ?thesis by simp
  next
    case (registers w1 it st)
    have w1: "w1 = ?w1" using registers(1) by (rule lock_at_alone(2))
    have it: "wf_item it" using registers(3) by (simp add: serves_request_def)
    have fr: "none_in (item_block it) (used (w_os w1))" "all_in (item_block it) (used st)"
      using registers(7) req(4) unfolding fresh_memory_def by blast+
    have "arena used K w1" "extends K w K w1" using ar1 w1 by simp_all
    with arena_register [OF _ ar(2) registers(2) it fr registers(4,6)] registers(5) extends_trans
    show ?thesis by blast
  qed
  then show "arena used K w'" "extends K w K w'" "r = Inr p \<Longrightarrow> p \<in> items_in K w'" by simp_all
qed

text \<open>A new header of one page: no item is registered in it.\<close>

lemma initialize_page:
  assumes "length (lh_items (w_headers w a)) = 203"
  shows "initialize pl a HEADER_LENGTH w = Some (put_header a (set_default_values a (w_headers w a)) w)"
proof -
  have "wsub (pl_build pl) HEADER_LENGTH HEADER_LENGTH = Some (0 :: usize)" by (simp add: arith_ok)
  moreover have "initialize_remaining_space_as_headers a 0 w' = w'" for w' :: "'a world"
    by (subst initialize_remaining_space_as_headers.simps) (simp add: HEADER_LENGTH_def)
  moreover have "fill_buffers b x 0 0 0 items = Some (0, items)" for b x items
    by (subst fill_buffers.simps) simp
  ultimately show ?thesis
    by (simp add: initialize_def initialize_remaining_space_as_buffers_def Let_def set_default_values_def)
qed

lemma arena_link:
  assumes ar: "arena used K w" "h \<in> K" and a: "a \<noteq> 0"
    and page: "none_in (page_block a) (used (w_os w))" "all_in (page_block a) (used st)" "unat a + 4096 < 2 ^ 64"
    and grow: "used (w_os w) \<subseteq> used st"
    and w': "w' = put_header h ((w_headers w h)\<lparr>lh_next_locator_ptr := a, lh_is_locked := x\<rparr>)
      (put_header a (set_default_values a (w_headers w a)) (put_os st w))"
  shows "arena used (insert a K) w'" and "extends K w (insert a K) w'"
proof -
  have apage: "unat a \<in> page_block a" by (simp add: page_block_def)
  have aK: "a \<notin> K" using ar(1) page(1) apage by (auto simp: arena_def none_in_def)
  then have ah: "a \<noteq> h" using ar(2) by blast
  have its: "items_in (insert a K) w' = items_in K w"
    using aK ah by (auto simp: w' items_in_def set_default_values_def)
  have at: "item_at w' p = item_at w p" if "p \<in> items_in K w" for p
    using that aK by (auto simp: w' item_at_def items_in_def)
  have keep: "\<exists>x. item_at w p = (item_at w p)\<lparr>li_is_taken := x\<rparr>" for p
    by (rule exI [of _ "li_is_taken (item_at w p)"]) simp
  show "extends K w (insert a K) w'" using its at keep by (auto simp: extends_def w')
  have "page_block a \<inter> block_at w p = {}" if "p \<in> items_in K w" for p
    using that ar(1) page(3) by (intro none_in_disjoint [OF page(1)]) (auto simp: arena_def page_block_def)
  then have "apart (insert a K) w'"
    using ar(1) at unfolding arena_def apart_def its by (simp add: Int_commute)
  moreover have "headers_ok (insert a K) w'"
    using ar aK by (auto simp: w' arena_def headers_ok_def has_next_locator_def set_default_values_def wf_header_def)
  moreover have "a \<in> used st" using page(2) apage by (simp add: all_in_def)
  moreover have "w_os w' = st" by (simp add: w')
  ultimately show "arena used (insert a K) w'"
    using ar(1) at a page(2) grow unfolding arena_def its by (auto intro: all_in_mono)
qed

lemma arena_next:
  assumes ret: "get_next_locator pl (\<lambda>w. w) h w = Some (r, w')"
    and ar: "arena used K w" "h \<in> K"
    and page: "granularity (pl_sys pl) = HEADER_LENGTH" and heap: "heap_ok pl used"
  shows "\<exists>K'. arena used K' w' \<and> extends K w K' w' \<and> (\<forall>h'. r = Inr h' \<longrightarrow> h' \<in> K')"
proof (cases "has_next_locator (w_headers w h)")
  case True
  with ret ar show ?thesis
    by (intro exI [of _ K]) (auto simp: get_next_locator_def extends_refl arena_def headers_ok_def)
next
  case none: False
  let ?w1 = "put_header h ((w_headers w h)\<lparr>lh_is_locked := 1\<rparr>) w"
  from none ret have lock: "lock_at (\<lambda>w. w) h w = Some ?w1"
    by (cases "lock_at (\<lambda>w. w) h w") (auto simp: get_next_locator_def lock_at_alone(2))
  have none1: "\<not> has_next_locator (w_headers ?w1 h)" using none by (simp add: has_next_locator_def)
  obtain a st where al: "pl_heap_alloc pl HEADER_LENGTH (ucast (ci_page_size (pl_sys pl))) (w_os w) = (a, st)"
    by fastforce
  note hp = heap_okD [OF heap al]
  note ar1 = arena_lock [OF ar, of 1]
  show ?thesis
  proof (cases "a = 0")
    case True
    with ret none none1 lock al page have w': "w' = put_header h ((w_headers ?w1 h)\<lparr>lh_is_locked := 0\<rparr>) (put_os st ?w1)"
      and r: "\<And>h'. r \<noteq> Inr h'"
      by (auto simp: get_next_locator_def Let_def unlock_at_held split: if_splits)
    have ar2: "arena used K (put_os st ?w1)" using hp(1) by (intro arena_os ar1(1)) simp
    show ?thesis
      using arena_lock [OF ar2 ar(2), of 0] extends_trans [OF extends_trans [OF ar1(2) extends_os]] w' r
      by (intro exI [of _ K]) simp
  next
    case False
    have slots: "length (lh_items (w_headers w a)) = 203" using ar(1) by (simp add: arena_def headers_ok_def)
    have pg: "none_in (page_block a) (used (w_os w))" "all_in (page_block a) (used st)" "unat a + 4096 < 2 ^ 64"
      using hp(2-4) [OF False] by (auto simp: none_in_def all_in_def page_block_def HEADER_LENGTH_def)
    have "a \<noteq> h" using pg(1) ar by (auto simp: arena_def none_in_def page_block_def)
    with False ret none none1 lock al page slots have r: "r = Inr a"
      and w': "w' = put_header h ((w_headers w h)\<lparr>lh_next_locator_ptr := a, lh_is_locked := 0\<rparr>)
        (put_header a (set_default_values a (w_headers w a)) (put_os st w))"
      by (auto simp: get_next_locator_def Let_def unlock_at_held initialize_page fun_upd_twist split: if_splits)
    from arena_link [OF ar False pg hp(1) w'] r show ?thesis by (intro exI [of _ "insert a K"]) simp
  qed
qed

section \<open>The search\<close>

lemma arena_get_buffer:
  assumes ret: "get_buffer_recursive pl (\<lambda>w. w) s h w = Some (r, w')"
    and ar: "arena used K w" "h \<in> K"
    and req: "honest_os pl" "sane_request (pl_sys pl) (bss_size s) (bss_max_address s)"
      "heap_ok pl used" "fresh_memory pl used" "granularity (pl_sys pl) = HEADER_LENGTH"
  shows "\<exists>K'. arena used K' w' \<and> extends K w K' w' \<and> (\<forall>p. r = Inr p \<longrightarrow> ip_header p \<in> K')"
proof -
  let ?I = "\<lambda>h w'. \<exists>K'. h \<in> K' \<and> arena used K' w' \<and> extends K w K' w'"
  let ?R = "\<lambda>r w'. \<exists>K'. arena used K' w' \<and> extends K w K' w' \<and> (\<forall>p. r = Inr p \<longrightarrow> ip_header p \<in> K')"
  show ?thesis
  proof (rule get_buffer_recursive_rule [where I = ?I and R = ?R, OF ret])
    show "?I h w" using ar extends_refl by blast
  next
    fix h w1 item w2
    assume "?I h w1" and first: "get_first_available_item_locked pl h (bss_size s)
      (bss_min_address s) (bss_max_address s) w1 = Some (item, w2)"
    then obtain K' where K': "h \<in> K'" "arena used K' w1" "extends K w K' w1" by blast
    note ok = arena_search [OF first K'(2,1)]
    have "item = Some p \<Longrightarrow> ip_header p = h" for p
      using first by (auto simp: get_first_available_item_locked_def Let_def Option.bind_eq_Some_conv)
    with ok K'(1) extends_trans [OF K'(3) ok(2)]
    show "case item of Some p \<Rightarrow> ?R (Inr p) w2 | None \<Rightarrow> ?I h w2" by (cases item) auto
  next
    fix h w1 res w2
    assume "?I h w1" and new: "try_allocate_item pl (\<lambda>w. w) h (bss_size s)
      (bss_min_address s) (bss_max_address s) w1 = Some (res, w2)"
    then obtain K' where K': "h \<in> K'" "arena used K' w1" "extends K w K' w1" by blast
    note ok = arena_try_allocate [OF new K'(2,1) req(1-4)]
    from ok K'(1) extends_trans [OF K'(3) ok(2)]
    show "case res of Inr p \<Rightarrow> ?R (Inr p) w2
      | Inl e \<Rightarrow> ?I h w2 \<and> ?R (Inl (search_error_new s (item_allocation_error_as_string e))) w2"
      by (cases res) (auto simp: items_in_def)
  next
    fix h w1 nxt w2
    assume "?I h w1" and follow: "get_next_locator pl (\<lambda>w. w) h w1 = Some (nxt, w2)"
    then obtain K' where K': "h \<in> K'" "arena used K' w1" "extends K w K' w1" by blast
    from arena_next [OF follow K'(2,1) req(5,3)] obtain K'' where K'': "arena used K'' w2" "extends K' w1 K'' w2"
      "\<forall>h'. nxt = Inr h' \<longrightarrow> h' \<in> K''" by blast
    with extends_trans [OF K'(3) K''(2)]
    show "case nxt of Inr h' \<Rightarrow> ?I h' w2 | Inl m \<Rightarrow> ?R (Inl (search_error_new s m)) w2" by (cases nxt) auto
  qed
qed

section \<open>Changes to one item\<close>

text \<open>An item may be locked, unlocked or filled further where it is.\<close>

lemma arena_put_item:
  assumes ar: "arena used K w" and p: "p \<in> items_in K w" and wf: "wf_slot it"
    and same: "li_base_address it = li_base_address (item_at w p)" "li_size it = li_size (item_at w p)"
  shows "arena used K (put_item p it w)" and "items_in K (put_item p it w) = items_in K w"
    and "item_at (put_item p it w) p = it"
    and "q \<noteq> p \<Longrightarrow> item_at (put_item p it w) q = item_at w q"
proof -
  let ?w = "put_item p it w"
  have h: "ip_header p \<in> K" "ip_index p < unat (lh_num_items (w_headers w (ip_header p)))"
    using p by (simp_all add: items_in_def)
  have wfh: "wf_header (w_headers w (ip_header p))" using chain_ok_wf [OF arena_chain [OF ar] h(1)] .
  have idx: "ip_index p < length (lh_items (w_headers w (ip_header p)))" using h(2) wfh by (simp add: wf_header_def)
  show its: "items_in K ?w = items_in K w" by (auto simp: items_in_def put_item_def Let_def)
  show new: "item_at ?w p = it" using idx by (simp add: item_at_def put_item_def Let_def)
  show old: "item_at ?w q = item_at w q" if "q \<noteq> p" for q
    using that by (cases q; cases p) (auto simp: item_at_def put_item_def Let_def)
  have blk: "block_at ?w q = block_at w q" for q
    using new old same by (cases "q = p") (simp_all add: item_block_def)
  have wfh': "wf_header ((w_headers w (ip_header p))\<lparr>lh_items := (lh_items (w_headers w (ip_header p)))[ip_index p := it]\<rparr>)"
    using wfh wf h(2) by (rule wf_header_update)
  have "headers_ok K ?w"
    using ar wfh' by (auto simp: arena_def headers_ok_def put_item_def Let_def has_next_locator_def)
  moreover have "w_os ?w = w_os w" by (simp add: put_item_def Let_def)
  ultimately show "arena used K ?w" using ar unfolding arena_def apart_def its blk by simp
qed

end
