(* ===== verification/Sessions.thy ===== *)
theory Sessions
  imports Arena
begin

text \<open>
  Clients of the library over time: any number of them ask for buffers, append to the ones they
  hold and drop them, one operation after another.  The abstract side is a ledger that knows only
  which buffers are owned and what was written; the main lemma is that every session is a run of the
  ledger, and that all data of the ledger is in memory.
\<close>

section \<open>The abstract specification\<close>

datatype event =
    Acquired item_ptr
  | Refused
  | Appended item_ptr usize "u8 list"
  | Released item_ptr

record ledger =
  owned :: "item_ptr list"
  written :: "(usize \<times> u8 list) list"

definition new_ledger :: ledger where
  "new_ledger = \<lparr>owned = [], written = []\<rparr>"

text \<open>The bytes of two pieces of data do not overlap (an empty piece overlaps nothing).\<close>

definition clear_of :: "usize \<Rightarrow> u8 list \<Rightarrow> usize \<times> u8 list \<Rightarrow> bool" where
  "clear_of a d e \<longleftrightarrow> d = [] \<or> snd e = [] \<or>
     unat a + length d \<le> unat (fst e) \<or> unat (fst e) + length (snd e) \<le> unat a"

text \<open>
  What the ledger allows: a buffer is given out only while nobody owns it, data is appended only to
  an owned buffer and never over data that was written before, and only an owned buffer is released.
\<close>

fun ledger_step :: "event \<Rightarrow> ledger \<Rightarrow> ledger option" where
  "ledger_step (Acquired p) L = (if p \<in> set (owned L) then None else Some (L\<lparr>owned := p # owned L\<rparr>))"
| "ledger_step Refused L = Some L"
| "ledger_step (Appended p a d) L =
     (if p \<in> set (owned L) \<and> list_all (clear_of a d) (written L)
      then Some (L\<lparr>written := (a, d) # written L\<rparr>) else None)"
| "ledger_step (Released p) L =
     (if p \<in> set (owned L) then Some (L\<lparr>owned := removeAll p (owned L)\<rparr>) else None)"

fun run_ledger :: "event list \<Rightarrow> ledger \<Rightarrow> ledger option" where
  "run_ledger [] L = Some L"
| "run_ledger (e # es) L = do { L' \<leftarrow> ledger_step e L; run_ledger es L' }"

lemma run_ledger_snoc: "run_ledger (es @ [e]) L = do { L' \<leftarrow> run_ledger es L; ledger_step e L' }"
proof (induction es arbitrary: L)
  case Nil
  then show ?case by (cases "ledger_step e L") simp_all
next
  case (Cons f es)
  then show ?case by (cases "ledger_step f L") simp_all
qed

section \<open>Sessions\<close>

text \<open>
  One operation of a client on the library, with the event it is seen as: \<open>Buffers::get_buffer\<close>,
  \<open>Buffers::get_buffer_aligned\<close>, the appends of \<open>SafeLocatorItem\<close> and its \<open>drop\<close>.  The discipline of the
  clients is in the premises: they ask for sizes that can be rounded up in 32 bits, append to
  buffers they own and only what fits, and drop what they own.  Operations do not overlap in time.
\<close>

abbreviation lib_put :: "item_ptr \<Rightarrow> locator_item \<Rightarrow> 'o machine \<Rightarrow> 'o library \<Rightarrow> 'o library" where
  "lib_put p it m lib \<equiv> lib\<lparr>lib_world := put_item p it ((lib_world lib)\<lparr>w_machine := m\<rparr>)\<rparr>"

inductive client_step :: "'o platform \<Rightarrow> ledger \<Rightarrow> 'o library \<Rightarrow> event \<Rightarrow> 'o library \<Rightarrow> bool"
  for pl L where
  get: "sane_request (pl_sys pl) (bss_size s) (bss_max_address s) \<Longrightarrow>
    get_buffer pl (\<lambda>l. l) (\<lambda>w. w) s lib = Some (Inr p, lib') \<Longrightarrow>
    client_step pl L lib (Acquired p) lib'"
| get_error: "sane_request (pl_sys pl) (bss_size s) (bss_max_address s) \<Longrightarrow>
    get_buffer pl (\<lambda>l. l) (\<lambda>w. w) s lib = Some (Inl e, lib') \<Longrightarrow>
    client_step pl L lib Refused lib'"
| aligned: "al \<noteq> 0 \<Longrightarrow> unat (bss_size s) + (unat al - 1) < 2 ^ 32 \<Longrightarrow>
    sane_request (pl_sys pl) (bss_size s + (al - 1)) (bss_max_address s) \<Longrightarrow>
    get_buffer_aligned pl (\<lambda>l. l) (\<lambda>w. w) s al lib = Some (Inr p, lib') \<Longrightarrow>
    client_step pl L lib (Acquired p) lib'"
| bytes: "p \<in> set (owned L) \<Longrightarrow> length d \<le> free_bytes (item_at (lib_world lib) p) \<Longrightarrow>
    safe_append_bytes (pl_build pl) (pl_target pl) (pl_code pl) d (item_at (lib_world lib) p)
      (w_machine (lib_world lib)) = Some (a, it, m) \<Longrightarrow>
    client_step pl L lib (Appended p a d) (lib_put p it m lib)"
| code: "p \<in> set (owned L) \<Longrightarrow> length d \<le> free_bytes (item_at (lib_world lib) p) \<Longrightarrow>
    safe_append_code (pl_build pl) (pl_target pl) (pl_code pl) d (item_at (lib_world lib) p)
      (w_machine (lib_world lib)) = Some (a, it, m) \<Longrightarrow>
    client_step pl L lib (Appended p a d) (lib_put p it m lib)"
| drop: "p \<in> set (owned L) \<Longrightarrow>
    client_step pl L lib (Released p)
      (lib\<lparr>lib_world := put_item p (safe_drop (item_at (lib_world lib) p)) (lib_world lib)\<rparr>)"

inductive session :: "'o platform \<Rightarrow> 'o library \<Rightarrow> event list \<Rightarrow> 'o library \<Rightarrow> bool"
  for pl lib0 where
  start: "session pl lib0 [] lib0"
| step: "session pl lib0 es lib \<Longrightarrow> run_ledger es new_ledger = Some L \<Longrightarrow> client_step pl L lib e lib' \<Longrightarrow>
    session pl lib0 (es @ [e]) lib'"

section \<open>The relation between ledger and library\<close>

text \<open>Changing the protection of pages and flushing caches unmaps nothing.\<close>

definition code_keeps :: "'o code_api \<Rightarrow> ('o \<Rightarrow> usize set) \<Rightarrow> bool" where
  "code_keeps api used \<longleftrightarrow>
     (\<forall>a n p st. used st \<subseteq> used (mach_vm_protect_code api a n p st)) \<and>
     (\<forall>a b st. used st \<subseteq> used (cache_line_flush_with_ptr api a b st)) \<and>
     (\<forall>a n st. used st \<subseteq> used (FlushInstructionCache api a n st))"

text \<open>Data that lies in the used part of a registered buffer and reads back.\<close>

definition stored :: "usize set \<Rightarrow> 'o world \<Rightarrow> usize \<times> u8 list \<Rightarrow> bool" where
  "stored K w e \<longleftrightarrow> (\<exists>p \<in> items_in K w.
     unat (li_base_address (item_at w p)) \<le> unat (fst e) \<and>
     unat (fst e) + length (snd e) \<le> unat (next_address (item_at w p))) \<and>
     read_bytes (fst e) (length (snd e)) (mem (w_machine w)) = snd e"

definition reflects :: "('o \<Rightarrow> usize set) \<Rightarrow> usize \<Rightarrow> ledger \<Rightarrow> 'o library \<Rightarrow> bool" where
  "reflects used h L lib \<longleftrightarrow> lib_header_address lib = h \<and> (\<exists>K. h \<in> K \<and> arena used K (lib_world lib) \<and>
     (\<forall>p \<in> set (owned L). p \<in> items_in K (lib_world lib) \<and> li_is_taken (item_at (lib_world lib) p) = 1) \<and>
     (\<forall>e \<in> set (written L). stored K (lib_world lib) e))"

lemma stored_extends:
  assumes "stored K w e" and "extends K w K' w'"
  shows "stored K' w' e"
proof -
  from assms(1) obtain p where p: "p \<in> items_in K w"
    "unat (li_base_address (item_at w p)) \<le> unat (fst e)"
    "unat (fst e) + length (snd e) \<le> unat (next_address (item_at w p))"
    and data: "read_bytes (fst e) (length (snd e)) (mem (w_machine w)) = snd e" by (auto simp: stored_def)
  from assms(2) p(1) obtain x where "p \<in> items_in K' w'" "item_at w' p = (item_at w p)\<lparr>li_is_taken := x\<rparr>"
    and "mem (w_machine w') = mem (w_machine w)" by (auto simp: extends_def)
  with p data show ?thesis unfolding stored_def by (intro conjI bexI [of _ p]) (simp_all add: next_address_def)
qed

section \<open>Filling an item further\<close>

text \<open>
  The used part of an item grows by \<open>n\<close> bytes, and memory changes at most there: what was stored
  before, in this buffer or another, is still stored.
\<close>

lemma next_in_block:
  assumes "wf_item it"
  shows "unat (li_base_address it) \<le> unat (next_address it)"
    and "unat (next_address it) + free_bytes it = unat (li_base_address it) + unat (li_size it)"
  using unat_next_address(2) [OF assms] assms by (simp_all add: free_bytes_def wf_item_def word_le_nat_alt)

lemma stored_apart:
  assumes ar: "arena used K w" and p: "p \<in> items_in K w" and st: "stored K w e"
    and x: "unat (fst e) \<le> x" "x < unat (fst e) + length (snd e)"
  shows "x \<notin> {unat (next_address (item_at w p)) ..< unat (li_base_address (item_at w p)) + unat (li_size (item_at w p))}"
proof -
  from st obtain q where q: "q \<in> items_in K w" "unat (li_base_address (item_at w q)) \<le> unat (fst e)"
    "unat (fst e) + length (snd e) \<le> unat (next_address (item_at w q))" by (auto simp: stored_def)
  have wf: "wf_item (item_at w r)" if "r \<in> items_in K w" for r
    using that chain_ok_wf [OF arena_chain [OF ar]] wf_header_slot
    by (fastforce simp: items_in_def item_at_def wf_slot_def)
  show ?thesis
  proof (cases "q = p")
    case True
    with x q(3) show ?thesis by auto
  next
    case False
    then have "block_at w q \<inter> block_at w p = {}" using ar p q(1) by (simp add: arena_def apart_def)
    moreover have "x \<in> block_at w q" using x q(2,3) next_in_block(2) [OF wf [OF q(1)]] by (simp add: item_block_def)
    ultimately show ?thesis using next_in_block(1) [OF wf [OF p]] by (auto simp: item_block_def)
  qed
qed

lemma stored_grow:
  assumes ar: "arena used K w" and p: "p \<in> items_in K w" and n: "n \<le> free_bytes (item_at w p)"
    and m: "same_outside (next_address (item_at w p)) n (mem (w_machine w)) (mem m)"
    and os: "used (w_os w) \<subseteq> used (os m)" and st: "stored K w e"
    and w': "w' = put_item p (advance n (item_at w p)) (w\<lparr>w_machine := m\<rparr>)"
  shows "stored K w' e"
proof -
  let ?it = "item_at w p" and ?w = "w\<lparr>w_machine := m\<rparr>"
  have same: "item_at ?w r = item_at w r" "items_in K ?w = items_in K w" for r
    by (simp_all add: item_at_def items_in_def)
  have wf: "wf_slot ?it"
    using p chain_ok_wf [OF arena_chain [OF ar]] wf_header_slot by (fastforce simp: items_in_def item_at_def)
  then have wfi: "wf_item ?it" by (simp add: wf_slot_def)
  note adv = advance_facts [OF wfi n]
  have wf': "wf_slot (advance n ?it)" using wf adv(3) by (simp add: wf_slot_def)
  have "arena used K (put_os (os m) w)" using ar os by (rule arena_os)
  then have ar': "arena used K ?w"
    unfolding arena_def apart_def headers_ok_def items_in_def item_at_def by simp
  note put = arena_put_item [OF ar' _ wf', unfolded same, OF p]
  from st obtain q where q: "q \<in> items_in K w" "unat (li_base_address (item_at w q)) \<le> unat (fst e)"
    "unat (fst e) + length (snd e) \<le> unat (next_address (item_at w q))"
    and data: "read_bytes (fst e) (length (snd e)) (mem (w_machine w)) = snd e" by (auto simp: stored_def)
  have q': "q \<in> items_in K w'" "unat (li_base_address (item_at w' q)) \<le> unat (fst e)"
    "unat (fst e) + length (snd e) \<le> unat (next_address (item_at w' q))"
    using q put(2-4) adv(5) unfolding w' by (cases "q = p"; simp add: same)+
  have "mem m (fst e + of_nat i) = mem (w_machine w) (fst e + of_nat i)" if i: "i < length (snd e)" for i
  proof -
    have "unat (fst e) + i < 2 ^ 64" using q(3) i unat_usize_lt [of "next_address (item_at w q)"] by simp
    then have a: "unat (fst e + of_nat i) = unat (fst e) + i"
      by (subst unat_add_small) (simp_all add: unat_of_nat_usize)
    have "unat (fst e) + i \<notin> {unat (next_address ?it) ..< unat (li_base_address ?it) + unat (li_size ?it)}"
      using i by (intro stored_apart [OF ar p st]) simp_all
    then have "unat (fst e) + i < unat (next_address ?it) \<or> unat (next_address ?it) + n \<le> unat (fst e) + i"
      using next_in_block(2) [OF wfi] n by auto
    then have "unat (fst e + of_nat i) < unat (next_address ?it) \<or>
        unat (next_address ?it) + n \<le> unat (fst e + of_nat i)" by (simp only: a)
    with m show ?thesis unfolding same_outside_def by blast
  qed
  then have "read_bytes (fst e) (length (snd e)) (mem m) = read_bytes (fst e) (length (snd e)) (mem (w_machine w))"
    by (simp add: read_bytes_def)
  then have "read_bytes (fst e) (length (snd e)) (mem m) = snd e" using data by simp
  moreover have "mem (w_machine w') = mem m" by (simp add: w' put_item_def Let_def)
  ultimately show ?thesis unfolding stored_def using q' by auto
qed

lemma reflects_grow:
  assumes rf: "reflects used h L lib" and p: "p \<in> set (owned L)"
    and n: "n \<le> free_bytes (item_at (lib_world lib) p)"
    and m: "same_outside (next_address (item_at (lib_world lib) p)) n (mem (w_machine (lib_world lib))) (mem m)"
    and os: "used (w_os (lib_world lib)) \<subseteq> used (os m)"
  shows "reflects used h L (lib_put p (advance n (item_at (lib_world lib) p)) m lib)"
proof -
  let ?w = "lib_world lib"
  let ?it = "item_at ?w p"
  from rf obtain K where K: "h \<in> K" "arena used K ?w" and own: "\<forall>p \<in> set (owned L). p \<in> items_in K ?w \<and>
      li_is_taken (item_at ?w p) = 1" and wr: "\<forall>e \<in> set (written L). stored K ?w e"
    by (auto simp: reflects_def)
  have pK: "p \<in> items_in K ?w" using own p by blast
  have wf: "wf_slot ?it"
    using pK chain_ok_wf [OF arena_chain [OF K(2)]] wf_header_slot by (fastforce simp: items_in_def item_at_def)
  have wf': "wf_slot (advance n ?it)" using wf advance_facts(3) [OF _ n] by (simp add: wf_slot_def)
  have "arena used K (put_os (os m) ?w)" using K(2) os by (rule arena_os)
  then have ar: "arena used K (?w\<lparr>w_machine := m\<rparr>)"
    unfolding arena_def apart_def headers_ok_def items_in_def item_at_def by simp
  have same: "item_at (?w\<lparr>w_machine := m\<rparr>) r = item_at ?w r" "items_in K (?w\<lparr>w_machine := m\<rparr>) = items_in K ?w" for r
    by (simp_all add: item_at_def items_in_def)
  note put = arena_put_item [OF ar _ wf', unfolded same, OF pK]
  have "li_is_taken (item_at (put_item p (advance n ?it) (?w\<lparr>w_machine := m\<rparr>)) q) = 1" if "q \<in> set (owned L)" for q
    using that own put(3,4) by (cases "q = p") (simp_all add: same)
  then show ?thesis
    using K(1) put(1,2) own wr stored_grow [OF K(2) pK n m os] rf unfolding reflects_def
    by (auto intro!: exI [of _ K])
qed

text \<open>What the append operations do to the system.\<close>

lemma wx_keeps:
  assumes "code_keeps api used"
  shows "used st \<subseteq> used (disable_write_xor_execute t api a n st)"
    and "used st \<subseteq> used (restore_write_xor_execute t api a n st)"
    and "clear_instruction_cache b t api a e st = Some st' \<Longrightarrow> used st \<subseteq> used st'"
proof -
  have k: "\<And>a n p. used st \<subseteq> used (mach_vm_protect_code api a n p st)"
    "\<And>a b. used st \<subseteq> used (cache_line_flush_with_ptr api a b st)"
    "\<And>a n. used st \<subseteq> used (FlushInstructionCache api a n st)"
    using assms by (simp_all add: code_keeps_def)
  show "used st \<subseteq> used (disable_write_xor_execute t api a n st)"
    "used st \<subseteq> used (restore_write_xor_execute t api a n st)"
    using k(1) by (simp_all add: disable_write_xor_execute_def restore_write_xor_execute_def)
  show "used st \<subseteq> used st'" if "clear_instruction_cache b t api a e st = Some st'"
  proof -
    from that consider "st' = st" | l where "st' = FlushInstructionCache api a l st"
      | "st' = cache_line_flush_with_ptr api a e st"
      by (auto simp: clear_instruction_cache_def Option.bind_eq_Some_conv split: if_splits)
    then show ?thesis using k(2,3) by cases simp_all
  qed
qed

lemma append_keeps:
  assumes "code_keeps api used"
  shows "append_bytes b t api d it m = Some (a, it', m') \<Longrightarrow> used (os m) \<subseteq> used (os m')"
    and "append_code b t api d it m = Some (a, it', m') \<Longrightarrow> used (os m) \<subseteq> used (os m')"
  using wx_keeps [OF assms]
  by (auto simp: append_bytes_def append_code_def Let_def Option.bind_eq_Some_conv) blast+

section \<open>Every operation is a step of the ledger\<close>

text \<open>The systems that are considered: one page per header, memory that is not handed out twice.\<close>

definition system_ok :: "'o platform \<Rightarrow> ('o \<Rightarrow> usize set) \<Rightarrow> bool" where
  "system_ok pl used \<longleftrightarrow> honest_os pl \<and> sane_page (pl_sys pl) \<and> granularity (pl_sys pl) = HEADER_LENGTH \<and>
     heap_ok pl used \<and> fresh_memory pl used \<and> code_keeps (pl_code pl) used"

lemma reflects_get:
  assumes sys: "system_ok pl used" and rf: "reflects used h L lib"
    and req: "sane_request (pl_sys pl) (bss_size s) (bss_max_address s)"
    and ret: "get_buffer pl (\<lambda>l. l) (\<lambda>w. w) s lib = Some (r, lib')"
  shows "r = Inl e \<Longrightarrow> reflects used h L lib'"
    and "r = Inr p \<Longrightarrow> p \<notin> set (owned L) \<and> reflects used h (L\<lparr>owned := p # owned L\<rparr>) lib' \<and>
      granted (bss_size s) (bss_min_address s) (bss_max_address s) p (lib_world lib')"
proof -
  from sys have e: "honest_os pl" "sane_page (pl_sys pl)" "granularity (pl_sys pl) = HEADER_LENGTH"
    "heap_ok pl used" "fresh_memory pl used" by (simp_all add: system_ok_def)
  from rf obtain K where K: "h \<in> K" "arena used K (lib_world lib)" and h: "lib_header_address lib = h"
    and own: "\<And>p. p \<in> set (owned L) \<Longrightarrow> p \<in> items_in K (lib_world lib) \<and> li_is_taken (item_at (lib_world lib) p) = 1"
    and wr: "\<And>e. e \<in> set (written L) \<Longrightarrow> stored K (lib_world lib) e"
    by (auto simp: reflects_def)
  have "h \<noteq> 0" using K by (auto simp: arena_def)
  with ret h obtain w where rec: "get_buffer_recursive pl (\<lambda>w. w) s h (lib_world lib) = Some (r, w)"
    and lib': "lib' = lib\<lparr>lib_world := w\<rparr>"
    by (auto simp: get_buffer_def find_header_def Option.bind_eq_Some_conv)
  have "world_ok used K (set (owned L)) (lib_world lib)"
    using arena_chain [OF K(2)] own by (auto simp: world_ok_def held_def items_in_def)
  moreover have "search_ok pl used (\<lambda>w. w) (set (owned L)) (bss_size s) (bss_max_address s)"
    using e req by (simp add: search_ok_def yield_ok_def)
  ultimately have ans: "search_answer used K (set (owned L)) s (r, w)"
    using get_buffer_recursive_answer [OF rec _ _ K(1)] by blast
  obtain K' where K': "arena used K' w" "extends K (lib_world lib) K' w" "\<And>p. r = Inr p \<Longrightarrow> ip_header p \<in> K'"
    using arena_get_buffer [OF rec K(2,1) e(1) req e(4,5,3)] by blast
  have own': "p \<in> items_in K' w \<and> li_is_taken (item_at w p) = 1" if "p \<in> set (owned L)" for p
    using ans K'(2) own [OF that] that by (auto simp: search_answer_def held_def extends_def)
  have wr': "stored K' w e" if "e \<in> set (written L)" for e using stored_extends [OF wr [OF that] K'(2)] .
  have "h \<in> K'" using K(1) K'(2) by (auto simp: extends_def)
  then have base: "reflects used h L lib'" using h K'(1) own' wr' by (auto simp: reflects_def lib')
  then show "r = Inl e \<Longrightarrow> reflects used h L lib'" by simp
  show "p \<notin> set (owned L) \<and> reflects used h (L\<lparr>owned := p # owned L\<rparr>) lib' \<and>
      granted (bss_size s) (bss_min_address s) (bss_max_address s) p (lib_world lib')" if "r = Inr p"
  proof -
    from ans that have p: "p \<notin> set (owned L)" "granted (bss_size s) (bss_min_address s) (bss_max_address s) p w"
      by (simp_all add: search_answer_def)
    then have "p \<in> items_in K' w" "li_is_taken (item_at w p) = 1"
      using K'(3) [OF that] by (simp_all add: granted_def items_in_def)
    then show ?thesis
      using p h K'(1) own' wr' \<open>h \<in> K'\<close> by (auto simp: reflects_def lib' intro!: exI [of _ K'])
  qed
qed

lemma reflects_aligned:
  assumes sys: "system_ok pl used" and rf: "reflects used h L lib"
    and al: "al \<noteq> 0" "unat (bss_size s) + (unat al - 1) < 2 ^ 32"
    and req: "sane_request (pl_sys pl) (bss_size s + (al - 1)) (bss_max_address s)"
    and ret: "get_buffer_aligned pl (\<lambda>l. l) (\<lambda>w. w) s al lib = Some (Inr p, lib')"
  shows "p \<notin> set (owned L) \<and> reflects used h (L\<lparr>owned := p # owned L\<rparr>) lib'"
proof -
  let ?s = "s\<lparr>bss_size := bss_size s + (al - 1)\<rparr>"
  have one: "unat (al - 1) = unat al - 1" using al(1) by (rule unat_minus_one)
  have sz: "unat (bss_size ?s) = unat (bss_size s) + (unat al - 1)" using al(2) one by (simp add: unat_add_small)
  from ret al(1) obtain lib1 it where buf: "get_buffer pl (\<lambda>l. l) (\<lambda>w. w) ?s lib = Some (Inr p, lib1)"
    and it: "align_item (pl_build pl) al (item_at (lib_world lib1) p) = Some it"
    and lib': "lib' = lib1\<lparr>lib_world := put_item p it (lib_world lib1)\<rparr>"
    using wadd_SomeD by (fastforce simp: get_buffer_aligned_def Let_def result_cases)
  have req': "sane_request (pl_sys pl) (bss_size ?s) (bss_max_address ?s)" using req by simp
  note got = reflects_get(2) [OF sys rf req' buf refl]
  then have gr: "serves_request (bss_size ?s) (bss_min_address s) (bss_max_address s) (item_at (lib_world lib1) p)"
    by (simp add: granted_def)
  have "below_top (bss_max_address s)" using req by (simp add: sane_request_def)
  with gr sz al(1) have "\<exists>d. align_item (pl_build pl) al (item_at (lib_world lib1) p)
      = Some (advance d (item_at (lib_world lib1) p)) \<and> d \<le> free_bytes (item_at (lib_world lib1) p)"
    using align_item_advances [of "item_at (lib_world lib1) p" al "unat (bss_size s)" "pl_build pl"]
    by (auto simp: serves_request_def below_top_def)
  then obtain d where d: "it = advance d (item_at (lib_world lib1) p)" "d \<le> free_bytes (item_at (lib_world lib1) p)"
    using it by auto
  have "reflects used h (L\<lparr>owned := p # owned L\<rparr>)
      (lib_put p (advance d (item_at (lib_world lib1) p)) (w_machine (lib_world lib1)) lib1)"
    using got d(2) by (intro reflects_grow) (simp_all add: same_outside_def)
  then show ?thesis using got by (simp add: lib' d(1))
qed

lemma owned_item:
  assumes "reflects used h L lib" and "p \<in> set (owned L)"
  obtains K where "arena used K (lib_world lib)" "h \<in> K" "p \<in> items_in K (lib_world lib)"
    "wf_slot (item_at (lib_world lib) p)" "\<And>e. e \<in> set (written L) \<Longrightarrow> stored K (lib_world lib) e"
proof -
  from assms obtain K where K: "arena used K (lib_world lib)" "h \<in> K" "p \<in> items_in K (lib_world lib)"
    "\<forall>e \<in> set (written L). stored K (lib_world lib) e" by (auto simp: reflects_def)
  moreover have "wf_slot (item_at (lib_world lib) p)"
    using K(3) chain_ok_wf [OF arena_chain [OF K(1)]] wf_header_slot by (fastforce simp: items_in_def item_at_def)
  ultimately show ?thesis using that by blast
qed

text \<open>New data goes where nothing was written before.\<close>

lemma fresh_data_clear:
  assumes ar: "arena used K w" "p \<in> items_in K w" and wf: "wf_item (item_at w p)"
    and room: "length d \<le> free_bytes (item_at w p)" and st: "stored K w e"
  shows "clear_of (next_address (item_at w p)) d e"
proof (rule ccontr)
  let ?a = "unat (next_address (item_at w p))" and ?f = "unat (fst e)"
  assume "\<not> ?thesis"
  then have ov: "?f < ?a + length d" "?a < ?f + length (snd e)" "d \<noteq> []" "snd e \<noteq> []"
    by (auto simp: clear_of_def)
  then have "?f \<le> max ?a ?f" "max ?a ?f < ?f + length (snd e)" by auto
  from stored_apart [OF ar st this] have "max ?a ?f \<notin>
    {?a ..< unat (li_base_address (item_at w p)) + unat (li_size (item_at w p))}" .
  moreover have "max ?a ?f < ?a + length d" using ov(1,3) by (cases d) auto
  moreover have "?a \<le> max ?a ?f" by simp
  ultimately show False
    using next_in_block(2) [OF wf] room unfolding atLeastLessThan_iff by linarith
qed

lemma reflects_append:
  assumes rf: "reflects used h L lib" and p: "p \<in> set (owned L)"
    and room: "length d \<le> free_bytes (item_at (lib_world lib) p)"
    and app: "a = next_address (item_at (lib_world lib) p)"
      "it = advance (length d) (item_at (lib_world lib) p)"
      "mem m = write_bytes a d (mem (w_machine (lib_world lib)))"
    and os: "used (w_os (lib_world lib)) \<subseteq> used (os m)"
  shows "list_all (clear_of a d) (written L)"
    and "reflects used h (L\<lparr>written := (a, d) # written L\<rparr>) (lib_put p it m lib)"
proof -
  let ?w = "lib_world lib"
  let ?it = "item_at ?w p"
  from rf p obtain K where K: "arena used K ?w" "h \<in> K" "p \<in> items_in K ?w" "wf_slot ?it"
    "\<And>e. e \<in> set (written L) \<Longrightarrow> stored K ?w e" by (rule owned_item) blast
  have wf: "wf_item ?it" using K(4) by (simp add: wf_slot_def)
  show "list_all (clear_of a d) (written L)"
    using fresh_data_clear [OF K(1,3) wf room K(5)] by (simp add: list_all_iff app(1))
  have in_mem: "unat a + length d < 2 ^ 64" unfolding app(1) by (rule room_in_memory [OF wf room])
  have so: "same_outside (next_address ?it) (length d) (mem (w_machine ?w)) (mem m)"
    using in_mem unfolding app(1) [symmetric] app(3) by (intro same_outside_write) simp
  let ?w' = "put_item p it (?w\<lparr>w_machine := m\<rparr>)"
  have "reflects used h L (lib_put p it m lib)" unfolding app(2) by (rule reflects_grow [OF rf p room so os])
  then obtain K' where K': "h \<in> K'" "arena used K' ?w'"
    "\<forall>q \<in> set (owned L). q \<in> items_in K' ?w' \<and> li_is_taken (item_at ?w' q) = 1"
    "\<forall>e \<in> set (written L). stored K' ?w' e"
    and h: "lib_header_address lib = h" by (auto simp: reflects_def)
  have at: "item_at ?w' p = it"
  proof -
    have "ip_index p < length (lh_items (w_headers ?w (ip_header p)))"
      using K(3) chain_ok_wf [OF arena_chain [OF K(1)]] by (fastforce simp: items_in_def wf_header_def)
    then show ?thesis by (simp add: item_at_def put_item_def Let_def)
  qed
  have m: "mem (w_machine ?w') = mem m" by (simp add: put_item_def Let_def)
  have "read_bytes a (length d) (mem m) = d" unfolding app(3) using in_mem by (intro read_write_same) simp
  moreover have "unat (next_address it) = unat a + length d"
    using advance_facts(5) [OF wf room] by (simp add: app(1,2))
  moreover have "unat (li_base_address it) \<le> unat a"
    using next_in_block(1) [OF wf] by (simp add: app(1,2))
  ultimately have "stored K' ?w' (a, d)"
    using K'(3) p unfolding stored_def m by (intro conjI bexI [of _ p]) (simp_all add: at)
  with K' h show "reflects used h (L\<lparr>written := (a, d) # written L\<rparr>) (lib_put p it m lib)"
    by (auto simp: reflects_def)
qed

lemma reflects_drop:
  assumes rf: "reflects used h L lib" and p: "p \<in> set (owned L)"
  shows "reflects used h (L\<lparr>owned := removeAll p (owned L)\<rparr>)
    (lib\<lparr>lib_world := put_item p (safe_drop (item_at (lib_world lib) p)) (lib_world lib)\<rparr>)"
proof -
  let ?w = "lib_world lib"
  let ?it = "safe_drop (item_at ?w p)"
  let ?w' = "put_item p ?it ?w"
  from rf obtain K where K: "h \<in> K" "arena used K ?w" "lib_header_address lib = h"
    and own: "\<And>p. p \<in> set (owned L) \<Longrightarrow> p \<in> items_in K ?w \<and> li_is_taken (item_at ?w p) = 1"
    and wr: "\<And>e. e \<in> set (written L) \<Longrightarrow> stored K ?w e" by (auto simp: reflects_def)
  have pK: "p \<in> items_in K ?w" using own p by blast
  have "wf_slot (item_at ?w p)"
    using pK chain_ok_wf [OF arena_chain [OF K(2)]] wf_header_slot by (fastforce simp: items_in_def item_at_def)
  then have wf: "wf_slot ?it" by (simp add: wf_slot_def safe_drop_def item_unlock_def)
  note put = arena_put_item [OF K(2) pK wf]
  have drop: "li_base_address ?it = li_base_address (item_at ?w p)" "li_size ?it = li_size (item_at ?w p)"
    "next_address ?it = next_address (item_at ?w p)"
    by (simp_all add: safe_drop_def item_unlock_def next_address_def)
  have "extends K ?w K ?w'"
  proof -
    have "\<exists>x. item_at ?w' q = (item_at ?w q)\<lparr>li_is_taken := x\<rparr>" for q
    proof (cases "q = p")
      case True
      then show ?thesis using put(3) drop by (intro exI [of _ 0]) (simp add: safe_drop_def item_unlock_def)
    next
      case False
      then show ?thesis using put(4) drop by (intro exI [of _ "li_is_taken (item_at ?w q)"]) simp
    qed
    then show ?thesis using put(2) drop by (simp add: extends_def) (simp add: put_item_def Let_def)
  qed
  then have "stored K ?w' e" if "e \<in> set (written L)" for e using stored_extends wr [OF that] by blast
  then show ?thesis
    using K put(1,2,4) drop own by (auto simp: reflects_def intro!: exI [of _ K])
qed

lemma client_step_ledger:
  assumes sys: "system_ok pl used" and rf: "reflects used h L lib" and step: "client_step pl L lib e lib'"
  shows "\<exists>L'. ledger_step e L = Some L' \<and> reflects used h L' lib'"
  using step
proof cases
  case (get s p)
  with reflects_get(2) [OF sys rf get(2,3) refl] show ?thesis by simp
next
  case (get_error s e')
  with reflects_get(1) [OF sys rf get_error(2,3) refl] show ?thesis by simp
next
  case (aligned al s p)
  with reflects_aligned [OF sys rf aligned(2-5)] show ?thesis by simp
next
  case (bytes p d a it m)
  have "wf_item (item_at (lib_world lib) p)"
    using rf bytes(3) by (rule owned_item) (simp add: wf_slot_def)
  from append_bytes_writes [OF this bytes(4), of "pl_build pl" "pl_target pl" "pl_code pl" "w_machine (lib_world lib)"]
    bytes(5) have
    app: "a = next_address (item_at (lib_world lib) p)" "it = advance (length d) (item_at (lib_world lib) p)"
      "mem m = write_bytes a d (mem (w_machine (lib_world lib)))"
    by (auto simp: safe_append_bytes_def)
  have "used (w_os (lib_world lib)) \<subseteq> used (os m)"
    using append_keeps(1) bytes(5) sys by (fastforce simp: safe_append_bytes_def system_ok_def)
  from reflects_append [OF rf bytes(3,4) app this] bytes show ?thesis by simp
next
  case (code p d a it m)
  have "wf_item (item_at (lib_world lib) p)"
    using rf code(3) by (rule owned_item) (simp add: wf_slot_def)
  from append_code_writes [OF this code(4), of "pl_build pl" "pl_target pl" "pl_code pl" "w_machine (lib_world lib)"]
    code(5) have
    app: "a = next_address (item_at (lib_world lib) p)" "it = advance (length d) (item_at (lib_world lib) p)"
      "mem m = write_bytes a d (mem (w_machine (lib_world lib)))"
    by (auto simp: safe_append_code_def)
  have "used (w_os (lib_world lib)) \<subseteq> used (os m)"
    using append_keeps(2) code(5) sys by (fastforce simp: safe_append_code_def system_ok_def)
  from reflects_append [OF rf code(3,4) app this] code show ?thesis by simp
next
  case (drop p)
  with reflects_drop [OF rf drop(3)] show ?thesis by simp
qed

lemma session_ledger:
  assumes "session pl lib0 es lib" and sys: "system_ok pl used" and "reflects used h new_ledger lib0"
  shows "\<exists>L. run_ledger es new_ledger = Some L \<and> reflects used h L lib"
  using assms(1)
proof induction
  case start
  then show ?case using assms(3) by simp
next
  case (step es lib L e lib')
  then have "reflects used h L lib" by simp
  from client_step_ledger [OF sys this step.hyps(3)] step.hyps(2) show ?case by (simp add: run_ledger_snoc)
qed

text \<open>A header of the chain over which no data was written yet.\<close>

lemma reflects_new:
  assumes "lib_header_address lib = h" and "h \<in> K" and "arena used K (lib_world lib)"
  shows "reflects used h new_ledger lib"
  using assms by (auto simp: reflects_def new_ledger_def)

text \<open>What the ledger says of the state, for sessions that start from a consistent chain.\<close>

lemma session_safe:
  assumes "session pl lib0 es lib" and "system_ok pl used"
    and "lib_header_address lib0 \<in> K" and "arena used K (lib_world lib0)"
  shows "\<exists>L. run_ledger es new_ledger = Some L \<and> (\<forall>p \<in> set (owned L). held p (lib_world lib)) \<and>
    (\<forall>(a, d) \<in> set (written L). read_bytes a (length d) (mem (w_machine (lib_world lib))) = d)"
proof -
  from session_ledger [OF assms(1,2) reflects_new [OF refl assms(3,4)]] obtain L where
    "run_ledger es new_ledger = Some L" "reflects used (lib_header_address lib0) L lib" by blast
  then show ?thesis by (fastforce simp: reflects_def held_def items_in_def stored_def)
qed

end
