(* ===== verification/Linux_Memory.thy ===== *)
theory Linux_Memory
  imports Sessions
begin

text \<open>
  Memory on Linux: from what the kernel documents of \<open>mmap\<close> with \<open>MAP_FIXED_NOREPLACE\<close>, \<open>munmap\<close> and the
  file calls, the allocator hands out only memory that was not in use.
\<close>

section \<open>The kernel\<close>

abbreviation range_of :: "usize \<Rightarrow> usize \<Rightarrow> nat set" where
  "range_of a n \<equiv> {unat a ..< unat a + unat n}"

text \<open>
  A mapping that must not replace another is made over addresses that were not in use; no mapping
  takes addresses out of use; \<open>munmap\<close> takes only its range, and does nothing at the address -1 (the
  failure value of \<open>mmap\<close>), which is not the start of a page; reading files unmaps nothing.
\<close>

definition mmap_fresh :: "'o linux_api \<Rightarrow> ('o \<Rightarrow> usize set) \<Rightarrow> bool" where
  "mmap_fresh api used \<longleftrightarrow>
     (\<forall>a n p f fd off st r st'. mmap api a n p f fd off st = (r, st') \<longrightarrow> used st \<subseteq> used st' \<and>
        (MAP_FIXED_NOREPLACE \<in> set f \<and> r \<noteq> MAP_FAILED \<longrightarrow>
           none_in (range_of r n) (used st) \<and> all_in (range_of r n) (used st')))"

definition munmap_exact :: "'o linux_api \<Rightarrow> ('o \<Rightarrow> usize set) \<Rightarrow> bool" where
  "munmap_exact api used \<longleftrightarrow>
     (\<forall>a n st r st'. munmap api a n st = (r, st') \<longrightarrow>
        (\<forall>x \<in> used st. unat x \<notin> range_of a n \<or> a = MAP_FAILED \<longrightarrow> x \<in> used st'))"

definition files_keep :: "'o linux_api \<Rightarrow> ('o \<Rightarrow> usize set) \<Rightarrow> bool" where
  "files_keep api used \<longleftrightarrow>
     (\<forall>path st r st'. open_rdonly api path st = (r, st') \<longrightarrow> used st \<subseteq> used st') \<and>
     (\<forall>fd n st r st'. read_fd api fd n st = (r, st') \<longrightarrow> used st \<subseteq> used st') \<and>
     (\<forall>fd st. used st \<subseteq> used (close_fd api fd st))"

definition linux_kernel :: "'o linux_api \<Rightarrow> ('o \<Rightarrow> usize set) \<Rightarrow> bool" where
  "linux_kernel api used \<longleftrightarrow> mmap_fresh api used \<and> munmap_exact api used \<and> files_keep api used"

lemma linux_kernelD:
  assumes "linux_kernel api used"
  shows "mmap api a n p f fd off st = (r, st') \<Longrightarrow> used st \<subseteq> used st'"
    and "mmap api a n p f fd off st = (r, st') \<Longrightarrow> MAP_FIXED_NOREPLACE \<in> set f \<Longrightarrow> r \<noteq> MAP_FAILED \<Longrightarrow>
      none_in (range_of r n) (used st) \<and> all_in (range_of r n) (used st')"
    and "munmap api a n st = (r', st') \<Longrightarrow> x \<in> used st \<Longrightarrow> unat x \<notin> range_of a n \<or> a = MAP_FAILED \<Longrightarrow> x \<in> used st'"
    and "open_rdonly api path st = (r'', st') \<Longrightarrow> used st \<subseteq> used st'"
    and "read_fd api fd n st = (t, st') \<Longrightarrow> used st \<subseteq> used st'"
    and "used st \<subseteq> used (close_fd api fd st)"
proof -
  from assms have m: "mmap_fresh api used" and u: "munmap_exact api used" and f: "files_keep api used"
    by (simp_all add: linux_kernel_def)
  show "mmap api a n p f fd off st = (r, st') \<Longrightarrow> used st \<subseteq> used st'"
    using m unfolding mmap_fresh_def by meson
  show "mmap api a n p f fd off st = (r, st') \<Longrightarrow> MAP_FIXED_NOREPLACE \<in> set f \<Longrightarrow> r \<noteq> MAP_FAILED \<Longrightarrow>
      none_in (range_of r n) (used st) \<and> all_in (range_of r n) (used st')"
    using m unfolding mmap_fresh_def by meson
  show "munmap api a n st = (r', st') \<Longrightarrow> x \<in> used st \<Longrightarrow> unat x \<notin> range_of a n \<or> a = MAP_FAILED \<Longrightarrow> x \<in> used st'"
    using u unfolding munmap_exact_def by blast
  show "open_rdonly api path st = (r'', st') \<Longrightarrow> used st \<subseteq> used st'"
    "read_fd api fd n st = (t, st') \<Longrightarrow> used st \<subseteq> used st'" "used st \<subseteq> used (close_fd api fd st)"
    using f unfolding files_keep_def by meson+
qed

section \<open>The loops of the allocator\<close>

lemma try_addresses_fresh:
  assumes k: "linux_kernel api used"
    and "linux_try_addresses api s addrs st = (r, st')"
    and "\<And>a. a \<in> set addrs \<Longrightarrow> a \<noteq> MAP_FAILED"
  shows "used st \<subseteq> used st' \<and>
    (\<forall>it. r = Inr it \<longrightarrow> none_in (item_block it) (used st) \<and> all_in (item_block it) (used st'))"
  using assms(2,3)
proof (induction addrs arbitrary: st)
  case (Cons addr addrs)
  let ?n = "ucast (bas_size s) :: usize"
  obtain a st1 where m: "mmap api addr ?n [PROT_READ, PROT_WRITE, PROT_EXEC]
      [MAP_PRIVATE, MAP_ANONYMOUS, MAP_FIXED_NOREPLACE] (- 1) 0 st = (a, st1)" by fastforce
  note grow = linux_kernelD(1) [OF k m]
  have fresh: "none_in (range_of a ?n) (used st) \<and> all_in (range_of a ?n) (used st1)" if "a \<noteq> MAP_FAILED"
    using linux_kernelD(2) [OF k m] that by simp
  have rest: ?case if "linux_try_addresses api s addrs st2 = (r, st')" "used st \<subseteq> used st2" for st2
    using Cons.IH [OF that(1)] Cons.prems(2) that(2) by (fastforce simp: none_in_def)
  show ?case
  proof (cases "a = 0")
    case True
    with Cons.prems(1) m have "linux_try_addresses api s addrs st1 = (r, st')" by simp
    then show ?thesis using grow by (rule rest)
  next
    case nz: False
    show ?thesis
    proof (cases "a = addr")
      case True
      with nz m Cons.prems fresh grow show ?thesis by (auto simp: item_block_def)
    next
      case False
      obtain u st2 where un: "munmap api a ?n st1 = (u, st2)" by fastforce
      have "used st \<subseteq> used st2"
      proof
        fix x assume x: "x \<in> used st"
        then have "unat x \<notin> range_of a ?n \<or> a = MAP_FAILED" using fresh unfolding none_in_def by blast
        with linux_kernelD(3) [OF k un] grow x show "x \<in> used st2" by blast
      qed
      moreover have "linux_try_addresses api s addrs st2 = (r, st')" using Cons.prems(1) m un nz False by simp
      ultimately show ?thesis by (rule rest [rotated])
    qed
  qed
qed auto

lemma read_loop_keeps:
  assumes k: "linux_kernel api used" and ret: "read_loop api fd content cap st = Some (r, st')"
  shows "used st \<subseteq> used st'"
proof -
  let ?P = "\<lambda>api' fd content cap st x. api' = api \<longrightarrow> used st \<subseteq> used (snd x)"
  have "?P api fd content cap st (r, st')"
  proof (rule read_loop.raw_induct [where P = ?P, OF _ ret], intro impI, goal_cases)
    case (1 rec api' fd content cap st x)
    obtain b st1 where rd: "read_fd api fd (of_nat (cap - length content)) st = (b, st1)" by fastforce
    note grow = linux_kernelD(5) [OF k rd]
    show ?case
    proof (cases b)
      case None
      with 1(2,3) rd show ?thesis by (simp add: Let_def)
    next
      case (Some bytes)
      with 1(2,3) rd grow 1(1) [of api fd "content @ bytes" "string_reserve cap (length content) BUFFER_SIZE" st1 x]
      show ?thesis by (auto simp: Let_def split: if_splits)
    qed
  qed
  then show ?thesis by simp
qed

lemma free_regions_keeps:
  assumes k: "linux_kernel api used" and ret: "get_free_regions_from_process_id sys api pid st = Some (r, st')"
  shows "used st \<subseteq> used st'"
proof -
  obtain fd st1 where op: "open_rdonly api (''/proc/'' @ itoa api pid @ ''/maps'') st = (fd, st1)" by fastforce
  with ret obtain content st2 where rd: "read_loop api fd [] BUFFER_SIZE st1 = Some (content, st2)"
    and st': "st' = close_fd api fd st2"
    by (auto simp: get_free_regions_from_process_id_def parse_memory_map_from_process_id_def read_to_string_def
        Option.bind_eq_Some_conv split: if_splits)
  from linux_kernelD(4) [OF k op] read_loop_keeps [OF k rd] linux_kernelD(6) [OF k, of st2 fd] st'
  show ?thesis by blast
qed

text \<open>
  Free regions end before the last address, so none of the candidates is the failure value of \<open>mmap\<close>.
\<close>

lemma free_regions_loop_below_top:
  assumes "\<And>q. q \<in> set acc \<Longrightarrow> below_top (end_address q)"
    and "free_regions_loop lo acc regions = (hi, free)" and "q \<in> set free"
  shows "below_top (end_address q)"
  using assms
proof (induction regions arbitrary: lo acc)
  case (Cons e regions)
  have "below_top (start_address e - 1)" if "lo < start_address e"
  proof -
    have "start_address e \<noteq> 0" using that by auto
    then have "unat (start_address e - 1) = unat (start_address e) - 1" "0 < unat (start_address e)"
      by (simp_all add: unat_minus_one unat_gt_0)
    then show ?thesis using unat_usize_lt [of "start_address e"] by (simp add: below_top_def)
  qed
  then have "below_top (end_address q)" if "q \<in> set (if lo < start_address e
      then acc @ [memory_map_entry_new lo (start_address e - 1)] else acc)" for q
    using that Cons.prems(1) by (auto simp: memory_map_entry_new_def split: if_splits)
  from Cons.IH [OF this] Cons.prems(2,3) show ?case by (simp add: Let_def)
qed simp

lemma free_regions_below_top:
  assumes "sane_sys sys" and "q \<in> set (get_free_regions sys regions)"
  shows "below_top (end_address q)"
proof -
  obtain hi free where loop: "free_regions_loop 0 [] regions = (hi, free)" by fastforce
  have "below_top (end_address x)" if "x \<in> set free" for x
    using free_regions_loop_below_top [OF _ loop that] by simp
  then show ?thesis
    using assms loop by (auto simp: get_free_regions_def sane_sys_def memory_map_entry_new_def split: if_splits)
qed

lemma try_allocate_fresh:
  assumes k: "linux_kernel api used" and g: "granularity sys \<noteq> 0" "below_top (end_address entry)"
    and ret: "linux_try_allocate_buffer b sys api entry s st = Some (r, st')"
  shows "used st \<subseteq> used st' \<and>
    (\<forall>it. r = Inr it \<longrightarrow> none_in (item_block it) (used st) \<and> all_in (item_block it) (used st'))"
proof -
  from ret obtain addrs where
    addrs: "get_possible_buffer_addresses b (bas_min_address s) (bas_max_address s)
      (start_address entry) (end_address entry) (ucast (bas_size s)) (granularity sys) = Some addrs"
    and tried: "linux_try_addresses api s addrs st = (r, st')"
    by (auto simp: linux_try_allocate_buffer_def Option.bind_eq_Some_conv)
  have "a \<noteq> MAP_FAILED" if "a \<in> set addrs" for a
  proof
    assume a: "a = MAP_FAILED"
    have "unat (- 1 :: usize) = 18446744073709551615" by (simp add: unsigned_minus_1_eq_mask mask_eq_exp_minus_1)
    with get_possible_sound [OF addrs that g(1)] g(2) a show False
      by (simp add: buffer_fits_def below_top_def MAP_FAILED_def)
  qed
  from try_addresses_fresh [OF k tried this] show ?thesis .
qed

lemma try_regions_fresh:
  assumes k: "linux_kernel api used" and g: "granularity sys \<noteq> 0"
    and "\<And>q. q \<in> set regions \<Longrightarrow> below_top (end_address q)"
    and "linux_try_regions b sys api s regions st = Some (r, st')"
  shows "used st \<subseteq> used st' \<and>
    (\<forall>it. r = Some it \<longrightarrow> none_in (item_block it) (used st) \<and> all_in (item_block it) (used st'))"
  using assms(3,4)
proof (induction regions arbitrary: st)
  case (Cons q qs)
  show ?case
  proof (cases "start_address q > bas_max_address s")
    case False
    with Cons.prems(2) obtain x st1 where t: "linux_try_allocate_buffer b sys api q s st = Some (x, st1)"
      by (auto simp: Option.bind_eq_Some_conv)
    have "below_top (end_address q)" using Cons.prems(1) by simp
    note f = try_allocate_fresh [OF k g this t]
    show ?thesis
    proof (cases x)
      case (Inl m)
      with False Cons.prems(2) t have "linux_try_regions b sys api s qs st1 = Some (r, st')" by simp
      from Cons.IH [OF _ this] Cons.prems(1) f show ?thesis by (fastforce simp: none_in_def)
    next
      case (Inr it)
      with False Cons.prems(2) t f show ?thesis by auto
    qed
  qed (use Cons.prems in auto)
qed simp

lemma retry_fresh:
  assumes k: "linux_kernel api used" and sys: "sane_sys sys"
    and "linux_retry b sys api s n st = Some (r, st')"
  shows "used st \<subseteq> used st' \<and>
    (\<forall>it. r = Inr it \<longrightarrow> none_in (item_block it) (used st) \<and> all_in (item_block it) (used st'))"
  using assms(3)
proof (induction n arbitrary: st)
  case (Suc n)
  then obtain regions st1 x st2 where
    f: "get_free_regions_from_process_id sys api (bas_target_process_id s) st = Some (regions, st1)"
    and t: "linux_try_regions b sys api s regions st1 = Some (x, st2)"
    by (auto simp: Option.bind_eq_Some_conv)
  from f have "\<And>q. q \<in> set regions \<Longrightarrow> below_top (end_address q)"
    using free_regions_below_top [OF sys] by (auto simp: get_free_regions_from_process_id_def Option.bind_eq_Some_conv)
  note grow = free_regions_keeps [OF k f]
    and fresh = try_regions_fresh [OF k sane_granularity(1) [OF sys] this t]
  show ?case
  proof (cases x)
    case None
    with Suc.prems f t have "linux_retry b sys api s n st2 = Some (r, st')" by simp
    from Suc.IH [OF this] grow fresh show ?thesis by (fastforce simp: none_in_def)
  next
    case (Some it)
    with Suc.prems f t grow fresh show ?thesis by (fastforce simp: none_in_def)
  qed
qed auto

text \<open>The allocator of the library on Linux.\<close>

lemma linux_allocate_fresh:
  assumes k: "linux_kernel (pl_linux pl) used" and "tgt_os (pl_target pl) = Linux"
    and "sane_sys (pl_sys pl)" and ret: "allocate pl s st = Some (r, s', st')"
  shows "used st \<subseteq> used st'"
    and "r = Inr it \<Longrightarrow> none_in (item_block it) (used st) \<and> all_in (item_block it) (used st')"
proof -
  from ret obtain s1 where
    al: "linux_retry (pl_build pl) (pl_sys pl) (pl_linux pl) s1 (nat (sint (bas_retry_count s1))) st = Some (r, st')"
    using assms(2) by (auto simp: allocate_def allocate_os_def allocate_linux_def Option.bind_eq_Some_conv)
  from retry_fresh [OF k assms(3) al]
  show "used st \<subseteq> used st'" "r = Inr it \<Longrightarrow> none_in (item_block it) (used st) \<and> all_in (item_block it) (used st')"
    by blast+
qed

section \<open>Sessions on Linux\<close>

text \<open>What the global allocator documents: a block it hands out is not in use before, and is afterwards.\<close>

definition global_heap :: "'o platform \<Rightarrow> ('o \<Rightarrow> usize set) \<Rightarrow> bool" where
  "global_heap pl used \<longleftrightarrow>
     (\<forall>n al st a st'. pl_heap_alloc pl n al st = (a, st') \<longrightarrow> used st \<subseteq> used st' \<and>
        (a \<noteq> 0 \<longrightarrow> unat a + unat n < 2 ^ 64 \<and> none_in (range_of a n) (used st) \<and> all_in (range_of a n) (used st')))"

lemma linux_system_ok:
  assumes "tgt_os (pl_target pl) = Linux" and "sane_sys (pl_sys pl)"
    and "granularity (pl_sys pl) = HEADER_LENGTH" and k: "linux_kernel (pl_linux pl) used"
    and heap: "global_heap pl used" and "code_keeps (pl_code pl) used"
  shows "system_ok pl used"
proof -
  note al = linux_allocate_fresh [OF k assms(1,2)]
  have "heap_ok pl used"
    unfolding heap_ok_def
  proof (intro conjI allI impI)
    fix n alg st a st' assume "pl_heap_alloc pl n alg st = (a, st')"
    with heap have h: "used st \<subseteq> used st'" "a \<noteq> 0 \<Longrightarrow> unat a + unat n < 2 ^ 64"
      "a \<noteq> 0 \<Longrightarrow> none_in (range_of a n) (used st)" "a \<noteq> 0 \<Longrightarrow> all_in (range_of a n) (used st')"
      unfolding global_heap_def by meson+
    show "used st \<subseteq> used st'" by (rule h)
    show "unat a + unat n < 2 ^ 64" if "a \<noteq> 0" using h(2) that .
    show "x \<notin> used st" "x \<in> used st'" if "a \<noteq> 0" "unat a \<le> unat x \<and> unat x < unat a + unat n" for x
      using h(3,4) that by (simp_all add: none_in_def all_in_def)
  qed (rule al(1))
  moreover have "fresh_memory pl used" unfolding fresh_memory_def using al(2) by blast
  moreover have "sane_page (pl_sys pl)" using assms(2,3) by (simp add: sane_page_def HEADER_LENGTH_def)
  ultimately show ?thesis using assms by (simp add: system_ok_def honest_os_def)
qed

end
