(* ===== verification/Session_Properties.thy ===== *)
theory Session_Properties
  imports Linux_Memory Samples
begin

text \<open>
  The guarantee of the library to its clients over time, on Linux, and a concrete session.
\<close>

section \<open>A system that keeps account of its memory\<close>

text \<open>
  The heap lies below \<open>0x2000000\<close>; mappings are made above it, where no other mapping is.  The state is
  the top of the heap and the mappings.
\<close>

type_synonym paged = "usize \<times> (usize \<times> usize) list"

definition paged_used :: "paged \<Rightarrow> usize set" where
  "paged_used st = {x. unat x < unat (fst st) \<or> (\<exists>(a, n) \<in> set (snd st). unat x \<in> range_of a n)}"

definition paged_free :: "usize \<Rightarrow> usize \<Rightarrow> paged \<Rightarrow> bool" where
  "paged_free a n st \<longleftrightarrow> unat (fst st) \<le> unat a \<and> 0x2000000 \<le> unat a \<and>
     list_all (\<lambda>(b, m). unat a + unat n \<le> unat b \<or> unat b + unat m \<le> unat a) (snd st)"

definition paged_linux :: "paged linux_api" where
  "paged_linux = sample_linux
     \<lparr>mmap := (\<lambda>a n p f fd off st. if paged_free a n st then (a, (fst st, (a, n) # snd st)) else (MAP_FAILED, st))\<rparr>"

definition paged_heap :: "usize \<Rightarrow> usize \<Rightarrow> paged \<Rightarrow> usize \<times> paged" where
  "paged_heap n align st =
     (if fst st \<noteq> 0 \<and> unat (fst st) + unat n \<le> 0x2000000 \<and>
        list_all (\<lambda>(b, m). unat (fst st) + unat n \<le> unat b \<or> unat b + unat m \<le> unat (fst st)) (snd st)
      then (fst st, (fst st + n, snd st)) else (0, st))"

definition paged_platform :: "paged platform" where
  "paged_platform = platform_with 4096 paged_linux paged_heap"

text \<open>A header at \<open>0x10000\<close> with one free buffer of 4 KiB at \<open>0x3000000\<close>.\<close>

definition paged_header :: locator_header where
  "paged_header =
     \<lparr>lh_this_address = 0x10000, lh_next_locator_ptr = 0, lh_is_locked = 0, lh_flags = 0,
      lh_num_items = 1, lh_items = replicate 203 (locator_item_new 0x3000000 4096)\<rparr>"

definition paged_library :: "paged library" where
  "paged_library = \<lparr>lib_header_address = 0x10000, lib_mmf = None,
     lib_world = \<lparr>w_headers = (\<lambda>_. paged_header),
       w_machine = \<lparr>mem = (\<lambda>_. 0), os = (0x100000, [(0x3000000, 0x1000)])\<rparr>\<rparr>\<rparr>"

lemma ranges_apart:
  "unat a + unat n \<le> unat b \<or> unat b + unat m \<le> unat a \<Longrightarrow> x \<in> range_of a n \<Longrightarrow> x \<notin> range_of b m"
  by auto

lemma paged_free_none: "paged_free a n st \<Longrightarrow> none_in (range_of a n) (paged_used st)"
  unfolding none_in_def paged_used_def paged_free_def list_all_iff
  by (auto dest: bspec)

lemma paged_kernel: "linux_kernel paged_linux paged_used"
proof -
  have "mmap_fresh paged_linux paged_used"
    unfolding mmap_fresh_def using paged_free_none
    by (auto simp: paged_linux_def all_in_def paged_used_def split: if_splits)
  moreover have "munmap_exact paged_linux paged_used" "files_keep paged_linux paged_used"
    by (auto simp: munmap_exact_def files_keep_def paged_linux_def sample_linux_def)
  ultimately show ?thesis by (simp add: linux_kernel_def)
qed

lemma paged_heap_global: "global_heap paged_platform paged_used"
proof -
  have "unat (t + n) = unat t + unat n" if "unat t + unat n \<le> 0x2000000" for t n :: usize
    using that by (intro unat_add_small) simp
  then show ?thesis
    by (auto simp: global_heap_def paged_platform_def platform_with_def paged_heap_def paged_used_def none_in_def
        all_in_def list_all_iff split: if_splits)
qed

lemma paged_arena: "arena paged_used {0x10000} (lib_world paged_library)"
proof -
  have its: "items_in {0x10000} (lib_world paged_library) = {Item_Ptr 0x10000 0}"
    by (auto simp: items_in_def paged_library_def paged_header_def intro: item_ptr.expand)
  have at: "item_at (lib_world paged_library) (Item_Ptr 0x10000 0) = locator_item_new 0x3000000 4096"
    by (simp add: item_at_def paged_library_def paged_header_def)
  have "headers_ok {0x10000} (lib_world paged_library)"
    by (simp add: headers_ok_def paged_library_def paged_header_def wf_header_def wf_slot_def wf_item_def
        has_next_locator_def list_all_length)
  moreover have "all_in (page_block 0x10000) (paged_used (w_os (lib_world paged_library)))"
    "all_in (item_block (locator_item_new 0x3000000 4096)) (paged_used (w_os (lib_world paged_library)))"
    by (auto simp: all_in_def page_block_def item_block_def paged_library_def paged_used_def)
  moreover have "item_block (locator_item_new 0x3000000 4096) \<inter> page_block 0x10000 = {}"
    by (auto simp: item_block_def page_block_def)
  ultimately show ?thesis
    unfolding arena_def apart_def its
    by (simp add: at) (simp add: paged_library_def paged_used_def)
qed

abbreviation paged_search :: buffer_search_settings where
  "paged_search \<equiv> \<lparr>bss_min_address = 0x3000000, bss_max_address = 0x7FFFFFFF, bss_size = 16\<rparr>"

abbreviation paged_item :: item_ptr where
  "paged_item \<equiv> Item_Ptr 0x10000 0"

lemma paged_get:
  "get_buffer paged_platform (\<lambda>l. l) (\<lambda>w. w) paged_search paged_library = Some (Inr paged_item,
     paged_library\<lparr>lib_world := put_item paged_item ((locator_item_new 0x3000000 4096)\<lparr>li_is_taken := 1\<rparr>)
       (lib_world paged_library)\<rparr>)"
proof -
  let ?w = "lib_world paged_library"
  have wf: "wf_header (w_headers ?w 0x10000)"
    using chain_ok_wf [OF arena_chain [OF paged_arena]] by simp
  have it: "lh_items (w_headers ?w 0x10000) ! 0 = locator_item_new 0x3000000 4096"
    by (simp add: paged_library_def paged_header_def)
  have "available 16 0x3000000 0x7FFFFFFF (locator_item_new 0x3000000 4096)"
    by (simp add: available_def serves_request_def wf_item_def free_bytes_def next_address_def)
  then have "get_first_available_item_locked paged_platform 0x10000 16 0x3000000 0x7FFFFFFF ?w
      = Some (Some paged_item, put_item paged_item ((locator_item_new 0x3000000 4096)\<lparr>li_is_taken := 1\<rparr>) ?w)"
    using search_finds [OF wf, of 0 16 "0x3000000" "0x7FFFFFFF" paged_platform] it
    by (simp add: paged_library_def paged_header_def)
  then have "get_buffer_recursive paged_platform (\<lambda>w. w) paged_search 0x10000 ?w
      = Some (Inr paged_item, put_item paged_item ((locator_item_new 0x3000000 4096)\<lparr>li_is_taken := 1\<rparr>) ?w)"
    by (subst get_buffer_recursive.simps) simp
  moreover have "lib_header_address paged_library = 0x10000" by (simp add: paged_library_def)
  ultimately show ?thesis by (simp add: get_buffer_def find_header_def)
qed

lemma paged_session:
  "\<exists>lib. session paged_platform paged_library
    [Acquired paged_item, Appended paged_item 0x3000000 [1, 2, 3], Released paged_item] lib"
proof -
  let ?lib = "paged_library\<lparr>lib_world := put_item paged_item ((locator_item_new 0x3000000 4096)\<lparr>li_is_taken := 1\<rparr>)
    (lib_world paged_library)\<rparr>"
  have at: "item_at (lib_world ?lib) paged_item = (locator_item_new 0x3000000 4096)\<lparr>li_is_taken := 1\<rparr>"
    by (simp add: item_at_def put_item_def paged_library_def paged_header_def Let_def)
  have req: "sane_request (pl_sys paged_platform) (bss_size paged_search) (bss_max_address paged_search)"
    by (simp add: paged_platform_def platform_with_def sane_request_def sample_sane sample_granularity below_top_def)
  let ?L = "\<lparr>owned = [paged_item], written = []\<rparr>"
  have "client_step paged_platform new_ledger paged_library (Acquired paged_item) ?lib"
    using req paged_get by (rule client_step.get)
  then have s1: "session paged_platform paged_library [Acquired paged_item] ?lib"
    using session.step [OF session.start, of new_ledger] by simp
  have wf: "wf_item ((locator_item_new 0x3000000 4096)\<lparr>li_is_taken := 1\<rparr>)" by (simp add: wf_item_def)
  have room: "length [1, 2, 3 :: u8] \<le> free_bytes ((locator_item_new 0x3000000 4096)\<lparr>li_is_taken := 1\<rparr>)"
    by (simp add: free_bytes_def)
  obtain it m where app: "safe_append_bytes (pl_build paged_platform) (pl_target paged_platform) (pl_code paged_platform)
      [1, 2, 3] (item_at (lib_world ?lib) paged_item) (w_machine (lib_world ?lib)) = Some (0x3000000, it, m)"
    using append_bytes_writes [OF wf room, of "pl_build paged_platform" "pl_target paged_platform"
        "pl_code paged_platform" "w_machine (lib_world ?lib)"] at
    by (auto simp: safe_append_bytes_def next_address_def)
  have "client_step paged_platform ?L ?lib (Appended paged_item 0x3000000 [1, 2, 3]) (lib_put paged_item it m ?lib)"
    using app at room by (intro client_step.bytes) simp_all
  then have s2: "session paged_platform paged_library
      ([Acquired paged_item] @ [Appended paged_item 0x3000000 [1, 2, 3]]) (lib_put paged_item it m ?lib)"
    by (intro session.step [OF s1]) (simp_all add: new_ledger_def)
  have "client_step paged_platform (?L\<lparr>written := [(0x3000000, [1, 2, 3])]\<rparr>) (lib_put paged_item it m ?lib)
      (Released paged_item) ((lib_put paged_item it m ?lib)\<lparr>lib_world := put_item paged_item
        (safe_drop (item_at (lib_world (lib_put paged_item it m ?lib)) paged_item))
        (lib_world (lib_put paged_item it m ?lib))\<rparr>)"
    by (rule client_step.drop) simp
  from session.step [OF s2 _ this] show ?thesis by (auto simp: new_ledger_def)
qed

section \<open>Properties\<close>

text \<open>
  Sessions refine the ledger, on Linux with pages of 4 KiB.  Let any clients get buffers (aligned
  or not), append to them and drop them, in any order, starting from a consistent chain.  Then the
  history is one the ledger allows: no buffer is given out while somebody owns it, and no data is
  written over data that was written before, in any buffer.  At every point the owned buffers are
  locked, and everything that was ever appended is still in memory at the address its append
  returned.
\<close>

lemma linux_sessions_refine_ledger:
  assumes "session pl lib0 es lib"
    and "lib_header_address lib0 \<in> K" and "arena used K (lib_world lib0)"
    and "tgt_os (pl_target pl) = Linux" and "sane_sys (pl_sys pl)"
    and "granularity (pl_sys pl) = HEADER_LENGTH"
    and "linux_kernel (pl_linux pl) used" and "global_heap pl used" and "code_keeps (pl_code pl) used"
  shows "\<exists>L. run_ledger es new_ledger = Some L \<and> (\<forall>p \<in> set (owned L). held p (lib_world lib)) \<and>
    (\<forall>(a, d) \<in> set (written L). read_bytes a (length d) (mem (w_machine (lib_world lib))) = d)"
proof -
  have "system_ok pl used" using assms(4-9) by (rule linux_system_ok)
  with assms(1) show ?thesis using assms(2,3) by (rule session_safe)
qed

end
