(* ===== verification/Interleaving_Properties.thy ===== *)
theory Interleaving_Properties
  imports Interleaving Session_Properties
begin

text \<open>
  What holds of one header however its threads are interleaved, what the sequential operations are
  in terms of the steps, and a trace on which the test before an item's lock is out of date.
\<close>

section \<open>Facts about the steps\<close>

lemma reachable_ok:
  assumes "reachable b hdr0 hdr T" "wf_header hdr0" "lh_is_locked hdr0 = 0"
  shows "threads_ok hdr T"
  using assms
proof (induction rule: reachable.induct)
  case initial
  then show ?case by (simp add: threads_ok_def)
qed (auto intro: threads_ok_step)

lemma retake_slot: "li_is_taken (items ! i) = 1 \<Longrightarrow> items[j := (items ! j)\<lparr>li_is_taken := 1\<rparr>] ! i = items ! i"
  by (cases "i = j"; cases "i < length items") (simp_all add: retake list_update_beyond)

text \<open>An item that a thread has locked is out of reach of the others.\<close>

lemma others_keep_slot:
  assumes ok: "threads_ok hdr T" and mine: "slot_of (T t) = Some i" and other: "u \<noteq> t"
    and step: "thread_step b hdr (T u) hdr' p"
  shows "lh_items hdr' ! i = lh_items hdr ! i"
proof -
  let ?n = "unat (lh_num_items hdr)"
  have slots: "slot_of (T u) \<noteq> Some i" and crit: "critical (T t) \<Longrightarrow> critical (T u) \<Longrightarrow> False"
    and me: "thread_ok ?n (lh_items hdr) (T t)"
    using ok mine other unfolding threads_ok_def by blast+
  have taken: "li_is_taken (lh_items hdr ! i) = 1" and i: "i < ?n \<or> critical (T t)"
    using me mine by (cases "T t" rule: slot_of.cases; simp)+
  from step show ?thesis
  proof cases
    case (store it items q)
    with crit i have "i < ?n" by auto
    with store show ?thesis by (auto simp: set_slot_def split: if_splits)
  qed (use slots taken in \<open>auto simp: item_try_lock_def header_try_lock_def header_unlock_def Let_def
      nth_list_update_neq retake_slot split: if_splits\<close>)
qed

text \<open>No operation of a thread panics or writes out of bounds.\<close>

lemma thread_can_step:
  assumes ok: "threads_ok hdr T" and "\<And>e. T t \<noteq> Failed e"
  shows "\<exists>hdr' p. thread_step b hdr (T t) hdr' p"
proof -
  let ?n = "unat (lh_num_items hdr)"
  have wf: "wf_header hdr" and me: "thread_ok ?n (lh_items hdr) (T t)"
    and lock: "critical (T t) \<Longrightarrow> lh_is_locked hdr \<noteq> 0" using ok unfolding threads_ok_def by blast+
  show ?thesis
  proof (cases "T t")
    case (Scan q i n)
    show ?thesis
    proof (cases "i < n")
      case True
      then have "wf_item (lh_items hdr ! i)" using me Scan slot_facts [OF wf, of i] by (simp add: wf_slot_def)
      then have "can_use b (lh_items hdr ! i) (bss_size q) (bss_min_address q) (bss_max_address q)
          = Some (serves_q q (lh_items hdr ! i))" by (rule can_use_serves)
      with Scan True show ?thesis
        by (cases "serves_q q (lh_items hdr ! i)") (auto intro: scan_yes scan_no)
    qed (use Scan in \<open>auto intro: scan_end\<close>)
  next
    case (Trying q i n)
    then show ?thesis by (cases "item_try_lock (lh_items hdr ! i)"; cases "fst (item_try_lock (lh_items hdr ! i))")
      (auto intro: try_ok try_fail)
  next
    case (Spinning q)
    then show ?thesis by (cases "header_try_lock hdr"; cases "fst (header_try_lock hdr)") (auto intro: spin_ok spin_fail)
  next
    case (Check q)
    then show ?thesis by (cases "is_full hdr") (auto intro: check_full check_room)
  next
    case (Recheck q)
    then show ?thesis by (cases "is_full hdr") (auto intro: recheck_full recheck_room)
  next
    case (Storing q it)
    then show ?thesis using me wf by (auto intro!: exI thread_step.store simp: set_slot_def wf_header_def)
  next
    case (Counting q i)
    then show ?thesis using me by (auto intro!: exI thread_step.count simp: arith_ok)
  next
    case (Unlocking q r)
    with lock have "header_unlock b hdr = Some (hdr\<lparr>lh_is_locked := 0\<rparr>)" by (simp add: header_unlock_def)
    with Unlocking show ?thesis by (cases r) (auto intro: unlock_ok unlock_error)
  qed (use assms(2) in \<open>auto intro: thread_step.intros\<close>)
qed

section \<open>The operations as runs of one thread\<close>

abbreviation available_q :: "buffer_search_settings \<Rightarrow> locator_item \<Rightarrow> bool" where
  "available_q q it \<equiv> available (bss_size q) (bss_min_address q) (bss_max_address q) it"

inductive_cases unlock_step: "thread_step b hdr (Unlocking q (Inr i)) hdr' p"

lemma reachable_step:
  "reachable b hdr0 hdr T \<Longrightarrow> thread_step b hdr p hdr' p' \<Longrightarrow> T t = p \<Longrightarrow> reachable b hdr0 hdr' (T(t := p'))"
  using interleave by blast

text \<open>A run of one thread that does not go through \<open>Idle\<close>.\<close>

inductive thread_run :: "build \<Rightarrow> locator_header \<Rightarrow> pc \<Rightarrow> locator_header \<Rightarrow> pc \<Rightarrow> bool" for b where
  finished: "thread_run b hdr p hdr p"
| goes_on: "thread_step b hdr p hdr1 p1 \<Longrightarrow> p1 \<noteq> Idle \<Longrightarrow> thread_run b hdr1 p1 hdr' p' \<Longrightarrow> thread_run b hdr p hdr' p'"

lemma thread_run_trans:
  "thread_run b hdr p hdr1 p1 \<Longrightarrow> thread_run b hdr1 p1 hdr' p' \<Longrightarrow> thread_run b hdr p hdr' p'"
  by (induction rule: thread_run.induct) (auto intro: goes_on)

text \<open>The scan passes over an item that is in use or does not serve the request.\<close>

lemma scan_passes:
  assumes "wf_slot (lh_items hdr ! i)" "\<not> available_q q (lh_items hdr ! i)"
    "i < n"
  shows "thread_run b hdr (Scan q i n) hdr (Scan q (Suc i) n)"
proof -
  let ?it = "lh_items hdr ! i"
  have use: "can_use b ?it (bss_size q) (bss_min_address q) (bss_max_address q) = Some (serves_q q ?it)"
    using assms(1) by (simp add: wf_slot_def can_use_serves)
  show ?thesis
  proof (cases "serves_q q ?it")
    case False
    with use assms(3) show ?thesis by (auto intro: goes_on [OF scan_no _ finished])
  next
    case True
    with assms(1,2) have "li_is_taken ?it = 1" by (auto simp: available_def wf_slot_def)
    then have "item_try_lock ?it = (False, ?it)" by (simp add: item_try_lock_def Let_def retake)
    then have "thread_step b hdr (Trying q i n) (put_slot i ?it hdr) (Scan q (Suc i) n)" by (rule try_fail)
    with True use assms(3) show ?thesis by (auto intro: goes_on [OF scan_yes _ goes_on [OF _ _ finished]])
  qed
qed

lemma scan_up_to:
  assumes "wf_header hdr" "n = unat (lh_num_items hdr)" "k \<le> n"
    "\<And>j. j < k \<Longrightarrow> \<not> available_q q (lh_items hdr ! j)"
  shows "thread_run b hdr (Scan q 0 n) hdr (Scan q k n)"
  using assms(3,4)
proof (induction k)
  case (Suc k)
  then show ?case
    using assms(1,2) by (intro thread_run_trans [OF Suc.IH scan_passes]) (auto intro: wf_header_slot)
qed (simp add: finished)

lemma search_runs:
  assumes wf: "wf_header (w_headers w h)"
    and ret: "get_first_available_item_locked pl h (bss_size q) (bss_min_address q) (bss_max_address q) w = Some (r, w')"
  shows "thread_run b (w_headers w h) (Scan q 0 (unat (lh_num_items (w_headers w h)))) (w_headers w' h)
    (case r of Some p \<Rightarrow> Holding q (ip_index p) | None \<Rightarrow> Check q)"
    and "w' = put_header h (w_headers w' h) w"
proof -
  let ?hdr = "w_headers w h" and ?n = "unat (lh_num_items (w_headers w h))"
  let ?search = "get_first_available_item_locked pl h (bss_size q) (bss_min_address q) (bss_max_address q) w"
  consider (none) "?search = Some (None, w)" "\<And>j. j < ?n \<Longrightarrow> \<not> available_q q (lh_items ?hdr ! j)"
    | (found) i where "i < ?n" "available_q q (lh_items ?hdr ! i)" "\<And>j. j < i \<Longrightarrow> \<not> available_q q (lh_items ?hdr ! j)"
      "?search = Some (Some (Item_Ptr h i), put_item (Item_Ptr h i) ((lh_items ?hdr ! i)\<lparr>li_is_taken := 1\<rparr>) w)"
    using search_header [OF wf, of pl "bss_size q" "bss_min_address q" "bss_max_address q"] by auto
  note result = this
  show "w' = put_header h (w_headers w' h) w" using result ret by cases (auto simp: put_item_def Let_def)
  from result show "thread_run b (w_headers w h) (Scan q 0 (unat (lh_num_items (w_headers w h)))) (w_headers w' h)
    (case r of Some p \<Rightarrow> Holding q (ip_index p) | None \<Rightarrow> Check q)"
  proof cases
    case none
    have run: "thread_run b ?hdr (Scan q 0 ?n) ?hdr (Scan q ?n ?n)" by (rule scan_up_to [OF wf]) (use none in auto)
    have "thread_step b ?hdr (Scan q ?n ?n) ?hdr (Check q)" by (rule scan_end) simp
    with none ret thread_run_trans [OF run goes_on [OF _ _ finished]] show ?thesis by simp
  next
    case (found i)
    let ?it = "lh_items ?hdr ! i"
    have run: "thread_run b ?hdr (Scan q 0 ?n) ?hdr (Scan q i ?n)" by (rule scan_up_to [OF wf]) (use found in auto)
    have yes: "thread_step b ?hdr (Scan q i ?n) ?hdr (Trying q i ?n)"
      using found wf_header_slot [OF wf found(1)]
      by (intro scan_yes) (simp_all add: can_use_serves wf_slot_def available_def)
    have "thread_step b ?hdr (Trying q i ?n) (put_slot i (?it\<lparr>li_is_taken := 1\<rparr>) ?hdr) (Holding q i)"
      using found by (intro try_ok) (simp add: item_try_lock_def available_def)
    from thread_run_trans [OF run goes_on [OF yes _ goes_on [OF this _ finished]]] found ret
    show ?thesis by (simp add: put_item_def Let_def)
  qed
qed

text \<open>The registration, by a thread that finds the lock of the header free.\<close>

lemma registration_runs:
  assumes locked: "lh_is_locked hdr = 0" and wf: "wf_header hdr" and room: "\<not> is_full hdr"
    and it: "serves_q q it" "li_is_taken it = 0"
  shows "thread_run b hdr (Check q) (registered it hdr) (Holding q (unat (lh_num_items hdr)))"
proof -
  let ?n = "unat (lh_num_items hdr)" and ?hdr1 = "hdr\<lparr>lh_is_locked := 1\<rparr>" and ?it = "it\<lparr>li_is_taken := 1\<rparr>"
  let ?hdr2 = "?hdr1\<lparr>lh_items := (lh_items hdr)[?n := ?it]\<rparr>"
  let ?hdr3 = "?hdr2\<lparr>lh_num_items := lh_num_items hdr + 1\<rparr>"
  have "thread_step b hdr (Check q) hdr (Spinning q)" using room by (rule check_room)
  moreover have "thread_step b hdr (Spinning q) ?hdr1 (Recheck q)"
    using locked by (intro spin_ok) (simp add: header_try_lock_def)
  moreover have "thread_step b ?hdr1 (Recheck q) ?hdr1 (Allocating q)" using room by (intro recheck_room) simp
  moreover have "thread_step b ?hdr1 (Allocating q) ?hdr1 (Storing q ?it)"
    by (rule alloc_ok [OF it item_lock_fresh [OF it(2)]])
  moreover have "thread_step b ?hdr1 (Storing q ?it) ?hdr2 (Counting q ?n)"
    using thread_step.store [of ?hdr1 ?it "(lh_items hdr)[?n := ?it]" b q] wf room
    by (simp add: set_slot_def wf_header_def is_full_iff)
  moreover have "thread_step b ?hdr2 (Counting q ?n) ?hdr3 (Unlocking q (Inr ?n))"
    using thread_step.count [of b ?hdr2 "lh_num_items hdr + 1" q ?n] room by (simp add: arith_ok is_full_iff)
  moreover have "thread_step b ?hdr3 (Unlocking q (Inr ?n)) (registered it hdr) (Holding q ?n)"
    by (rule unlock_ok) (simp add: header_unlock_def registered_def)
  ultimately show ?thesis by (meson goes_on finished pc.distinct)
qed

lemma refusal_runs:
  assumes locked: "lh_is_locked hdr = 0" and room: "\<not> is_full hdr"
  shows "thread_run b hdr (Check q) (hdr\<lparr>lh_is_locked := 0\<rparr>) (Failed CannotAllocateMemory)"
proof -
  let ?hdr1 = "hdr\<lparr>lh_is_locked := 1\<rparr>"
  have "thread_step b hdr (Check q) hdr (Spinning q)" using room by (rule check_room)
  moreover have "thread_step b hdr (Spinning q) ?hdr1 (Recheck q)"
    using locked by (intro spin_ok) (simp add: header_try_lock_def)
  moreover have "thread_step b ?hdr1 (Recheck q) ?hdr1 (Allocating q)" using room by (intro recheck_room) simp
  moreover have "thread_step b ?hdr1 (Allocating q) ?hdr1 (Unlocking q (Inl CannotAllocateMemory))" by (rule alloc_fail)
  moreover have "thread_step b ?hdr1 (Unlocking q (Inl CannotAllocateMemory)) (hdr\<lparr>lh_is_locked := 0\<rparr>)
      (Failed CannotAllocateMemory)" by (rule unlock_error) (simp add: header_unlock_def)
  ultimately show ?thesis by (meson goes_on finished pc.distinct)
qed

lemma try_allocate_runs:
  assumes ret: "try_allocate_item pl (\<lambda>w. w) h (bss_size q) (bss_min_address q) (bss_max_address q) w = Some (r, w')"
    and ok: "chain_ok used H w" "h \<in> H"
    and req: "honest_os pl" "sane_request (pl_sys pl) (bss_size q) (bss_max_address q)" "heap_ok pl used"
  shows "thread_run b (w_headers w h) (Check q) (w_headers w' h)
    (case r of Inr p \<Rightarrow> Holding q (ip_index p) | Inl e \<Rightarrow> Failed e)"
proof -
  have yield: "yield_ok used (\<lambda>w. w)" by (simp add: yield_ok_def)
  note wf = chain_ok_wf [OF ok] and alone = lock_at_alone
  show ?thesis
    using ret ok yield req
  proof (cases rule: try_allocate_item_cases)
    case full
    then show ?thesis by (auto intro: goes_on [OF check_full _ finished])
  next
    case (filled w1)
    then show ?thesis using alone [OF filled(1)] ret
      by (auto simp: try_allocate_item_def intro: goes_on [OF check_full _ finished])
  next
    case (no_memory w1 st)
    note free = alone [OF no_memory(1)]
    have "\<not> is_full (w_headers w h)" using ret no_memory by (auto simp: try_allocate_item_def)
    with refusal_runs [OF free(1) this] no_memory free show ?thesis by simp
  next
    case (registers w1 it st)
    note free = alone [OF registers(1)]
    from registers(7) obtain s' where "allocate pl (request_settings (pl_sys pl) (bss_size q) (bss_min_address q)
      (bss_max_address q)) (w_os w1) = Some (Inr it, s', st)" by blast
    then have "li_is_taken it = 0" using allocate_fresh(3) [OF _ req(1)] req(2) by simp
    with registration_runs [OF free(1) wf _ registers(3)] registers free show ?thesis
      by (simp add: registered_def)
  qed
qed

section \<open>Two threads on the sample header\<close>

abbreviation locked_slot :: locator_header where
  "locked_slot \<equiv> put_slot 0 ((locator_item_new 0x3000000 4096)\<lparr>li_is_taken := 1\<rparr>) paged_header"

lemma paged_items: "lh_num_items paged_header = 1" "lh_items paged_header ! 0 = locator_item_new 0x3000000 4096"
  "length (lh_items paged_header) = 203" "lh_is_locked paged_header = 0" "\<not> is_full paged_header"
  by (simp_all add: paged_header_def is_full_iff)

lemma paged_header_wf: "wf_header paged_header"
  by (simp add: wf_header_def paged_items paged_header_def wf_slot_def wf_item_def)

lemma paged_can_use:
  "can_use Debug (locator_item_new 0x3000000 4096) 4096 0x20000 0x7FFFFFFF = Some True"
  by (simp add: can_use_serves serves_request_def wf_item_def free_bytes_def next_address_def)

text \<open>Both threads have tested the item; thread 1 has locked it.\<close>

lemma paged_race:
  "reachable Debug paged_header locked_slot ((\<lambda>_. Idle)(0 := Trying sample_search 0 1, 1 := Holding sample_search 0))"
proof -
  let ?scan = "Scan sample_search 0 1" and ?probe = "Trying sample_search 0 1"
  have 1: "thread_step Debug paged_header Idle paged_header ?scan"
    using enter [of Debug paged_header sample_search] by (simp add: paged_items)
  have 2: "thread_step Debug paged_header ?scan paged_header ?probe"
    by (rule scan_yes) (simp_all add: paged_items paged_can_use)
  have 3: "thread_step Debug paged_header ?probe locked_slot (Holding sample_search 0)"
    by (rule try_ok) (simp add: paged_items item_try_lock_def)
  have "reachable Debug paged_header paged_header ((\<lambda>_. Idle)(0 := ?scan))"
    using reachable_step [OF initial 1] by simp
  from reachable_step [OF this 2, of 0] have "reachable Debug paged_header paged_header ((\<lambda>_. Idle)(0 := ?probe))" by simp
  from reachable_step [OF this 1, of 1]
  have "reachable Debug paged_header paged_header ((\<lambda>_. Idle)(0 := ?probe, 1 := ?scan))" by simp
  from reachable_step [OF this 2, of 1]
  have "reachable Debug paged_header paged_header ((\<lambda>_. Idle)(0 := ?probe, 1 := ?probe))" by simp
  from reachable_step [OF this 3, of 1] show ?thesis by simp
qed

section \<open>The guarantees\<close>

text \<open>
  Mutual exclusion on one header, for any number of threads and any interleaving of their steps:
  no two threads hold the same item, no two are inside the lock of the header, an item that a thread
  holds is marked as taken and no step of another thread changes it, and an item that was just
  registered still serves the request it was made for when its maker gets it.
\<close>

lemma item_mutual_exclusion:
  assumes "wf_header hdr0" and "lh_is_locked hdr0 = 0" and "reachable b hdr0 hdr T"
  shows "wf_header hdr \<and>
    (t \<noteq> u \<and> slot_of (T t) = Some i \<longrightarrow> slot_of (T u) \<noteq> Some i \<and> li_is_taken (lh_items hdr ! i) = 1 \<and>
      (thread_step b hdr (T u) hdr' p \<longrightarrow> lh_items hdr' ! i = lh_items hdr ! i)) \<and>
    (t \<noteq> u \<and> critical (T t) \<longrightarrow> \<not> critical (T u)) \<and>
    (T t = Unlocking q (Inr i) \<and> thread_step b hdr (T t) hdr' p \<longrightarrow> p = Holding q i \<and> serves_q q (lh_items hdr' ! i))"
proof (intro conjI impI; (elim conjE)?)
  note ok = reachable_ok [OF assms(3,1,2)]
  have me: "thread_ok (unat (lh_num_items hdr)) (lh_items hdr) (T t)" using ok by (simp add: threads_ok_def)
  show "wf_header hdr" using ok by (simp add: threads_ok_def)
  show "slot_of (T u) \<noteq> Some i" if "t \<noteq> u" "slot_of (T t) = Some i" using ok that unfolding threads_ok_def by blast
  show "li_is_taken (lh_items hdr ! i) = 1" if "slot_of (T t) = Some i"
    using me that by (cases "T t" rule: slot_of.cases) auto
  show "lh_items hdr' ! i = lh_items hdr ! i"
    if "t \<noteq> u" "slot_of (T t) = Some i" "thread_step b hdr (T u) hdr' p"
    using others_keep_slot [OF ok that(2) _ that(3)] that(1) by blast
  show "\<not> critical (T u)" if "t \<noteq> u" "critical (T t)" using ok that unfolding threads_ok_def by blast
  show "p = Holding q i" "serves_q q (lh_items hdr' ! i)"
    if "T t = Unlocking q (Inr i)" "thread_step b hdr (T t) hdr' p"
    using that me by (auto elim!: unlock_step simp: header_unlock_def Let_def split: if_splits)
qed

text \<open>
  \<open>get_first_available_item_locked\<close> tests \<open>can_use\<close> before it takes the lock of the item, and does
  not test again: a thread can be handed a locked item that another thread has filled in between.
\<close>

lemma stale_item_reachable:
  "\<exists>hdr T. reachable Debug paged_header hdr T \<and> T 0 = Holding sample_search 0 \<and>
     free_bytes (lh_items hdr ! 0) < unat (bss_size sample_search)"
proof -
  let ?it = "(locator_item_new 0x3000000 4096)\<lparr>li_is_taken := 1\<rparr>"
  let ?full = "advance 4096 ?it" and ?hold = "Holding sample_search 0"
  have slot: "lh_items locked_slot ! 0 = ?it" "length (lh_items locked_slot) = 203" by (simp_all add: paged_items)
  have 1: "thread_step Debug locked_slot ?hold (put_slot 0 ?full locked_slot) ?hold"
    using thread_step.append [of 4096 locked_slot 0 Debug sample_search] slot by (simp add: free_bytes_def paged_items)
  have 2: "thread_step Debug (put_slot 0 ?full locked_slot) ?hold (put_slot 0 (safe_drop ?full) locked_slot) Idle"
    using thread_step.drop [of Debug "put_slot 0 ?full locked_slot" sample_search 0] by (simp add: paged_items)
  have 3: "thread_step Debug (put_slot 0 (safe_drop ?full) locked_slot) (Trying sample_search 0 1)
      (put_slot 0 ?full locked_slot) ?hold"
    using try_ok [of "put_slot 0 (safe_drop ?full) locked_slot" 0 ?full Debug sample_search 1]
    by (simp add: paged_items item_try_lock_def safe_drop_def item_unlock_def advance_def)
  from reachable_step [OF reachable_step [OF reachable_step [OF paged_race 1, of 1] 2, of 1] 3, of 0]
  have "reachable Debug paged_header (put_slot 0 ?full locked_slot) ((\<lambda>_. Idle)(0 := ?hold))"
    by (simp add: fun_upd_twist fun_upd_idem)
  then show ?thesis by (force simp: paged_items free_bytes_def advance_def)
qed

end
