(* ===== verification/Finder_Facts.thy ===== *)
theory Finder_Facts
  imports Buffer_Facts
begin

text \<open>
  How a copy of the library finds the first header of its process on Unix: the laws of the file
  system the search relies on, the clean-up, and the search in a process that has no header yet and
  in one that has.
\<close>

section \<open>The laws of the file system\<close>

text \<open>
  What a state of the system means: the paths of its files, the memory in use, whether a mapping of
  a length can still be made, the entries that \<open>readdir\<close> has still to report, and the working
  directory.
\<close>

record 'o system_view =
  v_files :: "'o \<Rightarrow> string set"
  v_used :: "'o \<Rightarrow> usize set"
  v_room :: "usize \<Rightarrow> 'o \<Rightarrow> bool"
  v_entries :: "'o \<Rightarrow> nat"
  v_cwd :: string

definition undisturbed :: "'o system_view \<Rightarrow> 'o \<Rightarrow> 'o \<Rightarrow> bool" where
  "undisturbed v st st' \<longleftrightarrow> v_files v st \<subseteq> v_files v st' \<and> v_used v st \<subseteq> v_used v st' \<and>
     (\<forall>n. v_room v n st \<longrightarrow> v_room v n st') \<and> v_entries v st' \<le> v_entries v st"

text \<open>A path that is not absolute is relative to the working directory.\<close>

definition resolve :: "string \<Rightarrow> string \<Rightarrow> string" where
  "resolve dir p = (if take 1 p = ''/'' then p else dir @ ''/'' @ p)"

text \<open>Calls that open, inspect and list files leave the files and the memory as they are.\<close>

definition calls_keep :: "'o system_view \<Rightarrow> 'o unix_api \<Rightarrow> bool" where
  "calls_keep v api \<longleftrightarrow>
     (\<forall>p st. undisturbed v st (snd (open_rdwr api p st))) \<and>
     (\<forall>p st. undisturbed v st (snd (stat_dir api p st))) \<and>
     (\<forall>p st. undisturbed v st (snd (mkdir api p st))) \<and>
     (\<forall>p st. undisturbed v st (snd (kill_0 api p st))) \<and>
     (\<forall>fd n st. undisturbed v st (ftruncate api fd n st)) \<and>
     (\<forall>fd st. undisturbed v st (close_file api fd st)) \<and>
     (\<forall>d st. undisturbed v st (closedir api d st)) \<and>
     (\<forall>d st. undisturbed v st (snd (readdir api d st)))"

text \<open>
  \<open>open\<close> without \<open>O_CREAT\<close> opens the files that exist, with it it makes them; \<open>unlink\<close> removes the file
  the path names and no other.  The stream that \<open>opendir\<close> starts is finite and reports names without
  a slash.
\<close>

definition files_law :: "'o system_view \<Rightarrow> 'o unix_api \<Rightarrow> bool" where
  "files_law v api \<longleftrightarrow>
     (\<forall>p st fd st'. open_rdwr api p st = (fd, st') \<longrightarrow> (fd = - 1 \<longleftrightarrow> p \<notin> v_files v st)) \<and>
     (\<forall>p st fd st'. open_creat api p st = (fd, st') \<longrightarrow> fd \<noteq> - 1 \<and> p \<in> v_files v st' \<and> undisturbed v st st') \<and>
     (\<forall>p st. v_files v st - {resolve (v_cwd v) p} \<subseteq> v_files v (unlink api p st) \<and>
        v_used v st \<subseteq> v_used v (unlink api p st) \<and> v_entries v (unlink api p st) \<le> v_entries v st) \<and>
     (\<forall>p st d st'. opendir api p st = (d, st') \<longrightarrow> v_files v st \<subseteq> v_files v st' \<and> v_used v st \<subseteq> v_used v st') \<and>
     (\<forall>d st f st'. readdir api d st = (Some f, st') \<longrightarrow> CHR ''/'' \<notin> set f \<and> v_entries v st' < v_entries v st)"

text \<open>
  A shared mapping is made when there is room, of memory that was not in use; unmapping gives back
  the range it is called with and nothing else.
\<close>

definition mappings_law :: "'o system_view \<Rightarrow> 'o unix_api \<Rightarrow> bool" where
  "mappings_law v api \<longleftrightarrow>
     (\<forall>n fd st a st'. mmap_shared api n fd st = (a, st') \<longrightarrow>
        v_files v st \<subseteq> v_files v st' \<and> v_used v st \<subseteq> v_used v st' \<and>
        (v_room v n st \<longrightarrow> a \<noteq> MAP_FAILED) \<and>
        (a \<noteq> MAP_FAILED \<longrightarrow> a \<noteq> 0 \<and> unat a + unat n < 2 ^ 64 \<and>
          (\<forall>x. unat a \<le> unat x \<and> unat x < unat a + unat n \<longrightarrow> x \<notin> v_used v st \<and> x \<in> v_used v st'))) \<and>
     (\<forall>a n st. v_files v st \<subseteq> v_files v (munmap_shared api a n st) \<and>
        v_used v st - {x. unat a \<le> unat x \<and> unat x < unat a + unat n} \<subseteq> v_used v (munmap_shared api a n st))"

text \<open>The process itself is running, and \<open>itoa\<close> prints decimal numbers.\<close>

definition process_law :: "'o unix_api \<Rightarrow> u32 \<Rightarrow> bool" where
  "process_law api pid \<longleftrightarrow> (\<forall>st. fst (fst (kill_0 api (ucast pid) st)) = 0) \<and> (\<forall>n. itoa_u32 api n = show_word n)"

definition shared_files :: "'o platform \<Rightarrow> 'o system_view \<Rightarrow> bool" where
  "shared_files pl v \<longleftrightarrow> calls_keep v (pl_unix pl) \<and> files_law v (pl_unix pl) \<and> mappings_law v (pl_unix pl) \<and>
     process_law (pl_unix pl) (ci_this_process_id (pl_sys pl))"

text \<open>The file of a process.\<close>

definition own_name :: "'o platform \<Rightarrow> string" where
  "own_name pl = MEMORY_MAPPED_FILE_PREFIX @ show_word (ci_this_process_id (pl_sys pl))"

definition own_path :: "'o platform \<Rightarrow> string" where
  "own_path pl = BASE_DIR (pl_target pl) @ ''/'' @ own_name pl"

section \<open>Facts\<close>

lemma undisturbed_refl: "undisturbed v st st"
  by (simp add: undisturbed_def)

lemma undisturbed_trans: "undisturbed v st st1 \<Longrightarrow> undisturbed v st1 st2 \<Longrightarrow> undisturbed v st st2"
  by (auto simp: undisturbed_def)

lemma undisturbedD:
  assumes "undisturbed v st st'"
  shows "p \<in> v_files v st \<Longrightarrow> p \<in> v_files v st'" and "v_used v st \<subseteq> v_used v st'"
    and "v_room v n st \<Longrightarrow> v_room v n st'" and "v_entries v st' \<le> v_entries v st"
  using assms by (auto simp: undisturbed_def)

lemma calls_keepD:
  assumes "calls_keep v api"
  shows "open_rdwr api p st = (fd, st') \<Longrightarrow> undisturbed v st st'"
    and "stat_dir api p st = (r, st') \<Longrightarrow> undisturbed v st st'"
    and "mkdir api p st = (made, st') \<Longrightarrow> undisturbed v st st'"
    and "kill_0 api pid st = (k, st') \<Longrightarrow> undisturbed v st st'"
    and "readdir api d st = (e, st') \<Longrightarrow> undisturbed v st st'"
    and "undisturbed v st (ftruncate api fd n st)"
    and "undisturbed v st (close_file api fd st)"
    and "undisturbed v st (closedir api d st)"
  using assms unfolding calls_keep_def by (metis snd_conv)+

lemma files_lawD:
  assumes law: "files_law v api"
  shows "open_rdwr api p st = (fd, st') \<Longrightarrow> fd = - 1 \<longleftrightarrow> p \<notin> v_files v st"
    and "open_creat api p st = (fd, st') \<Longrightarrow> fd \<noteq> - 1 \<and> p \<in> v_files v st' \<and> undisturbed v st st'"
    and "v_files v st - {resolve (v_cwd v) p} \<subseteq> v_files v (unlink api p st)"
    and "v_used v st \<subseteq> v_used v (unlink api p st)" and "v_entries v (unlink api p st) \<le> v_entries v st"
    and "opendir api p st = (d, st') \<Longrightarrow> v_files v st \<subseteq> v_files v st' \<and> v_used v st \<subseteq> v_used v st'"
    and "readdir api d st = (Some f, st') \<Longrightarrow> CHR ''/'' \<notin> set f \<and> v_entries v st' < v_entries v st"
  using law [unfolded files_law_def] by (elim conjE; simp)+

lemma mappings_lawD:
  assumes law: "mappings_law v api" and "mmap_shared api n fd st = (a, st')"
  shows "v_files v st \<subseteq> v_files v st'" and "v_used v st \<subseteq> v_used v st'" and "v_room v n st \<Longrightarrow> a \<noteq> MAP_FAILED"
    and "a \<noteq> MAP_FAILED \<Longrightarrow> a \<noteq> 0 \<and> unat a + unat n < 2 ^ 64"
    and "a \<noteq> MAP_FAILED \<Longrightarrow> unat a \<le> unat x \<Longrightarrow> unat x < unat a + unat n \<Longrightarrow> x \<notin> v_used v st \<and> x \<in> v_used v st'"
  using law [unfolded mappings_law_def] assms(2) by (elim conjE; simp)+

lemma create_dirs_keeps:
  assumes "calls_keep v api"
  shows "create_dirs api path components st = Some st' \<Longrightarrow> undisturbed v st st'"
proof (induction components arbitrary: path st)
  case (Cons c cs)
  show ?case
  proof (cases "c = []")
    case False
    obtain r st1 where stat: "stat_dir api (path @ c) st = (r, st1)" by fastforce
    obtain made st2 where mk: "mkdir api (path @ c) st1 = (made, st2)" by fastforce
    note keeps = calls_keepD(2) [OF assms stat] calls_keepD(3) [OF assms mk]
    from Cons.prems False stat mk keeps show ?thesis
      by (auto simp: Let_def Option.bind_eq_Some_conv split: option.splits if_splits
          dest!: Cons.IH intro: undisturbed_trans)
  qed (use Cons in simp)
qed (simp add: undisturbed_refl)

section \<open>The clean-up\<close>

text \<open>What stands behind the last slash of a path.\<close>

lemma last_component:
  assumes "CHR ''/'' \<notin> set x" "CHR ''/'' \<notin> set y" "a @ ''/'' @ x = b @ ''/'' @ y"
  shows "x = y"
proof -
  have name: "rev (takeWhile (\<lambda>c. c \<noteq> CHR ''/'') (rev (d @ ''/'' @ z))) = z" if "CHR ''/'' \<notin> set z" for d z
  proof -
    have "takeWhile (\<lambda>c. c \<noteq> CHR ''/'') (rev z @ CHR ''/'' # rev d) = rev z"
      using that by (subst takeWhile_append2) auto
    then show ?thesis by simp
  qed
  from name [OF assms(1), of a] name [OF assms(2), of b] show ?thesis unfolding assms(3) by argo
qed

lemma show_word_no_slash: "CHR ''/'' \<notin> set (show_word x)"
  using show_nat_plain [of "CHR ''/''" "unat x"] by (auto simp: show_word_def)

lemma own_name_no_slash: "CHR ''/'' \<notin> set (own_name pl)"
  by (simp add: own_name_def MEMORY_MAPPED_FILE_PREFIX_def show_word_no_slash)

lemma own_pid_runs:
  assumes "process_law api pid" "parse_i32 (show_word pid) = Some p"
  shows "fst (is_process_running api p st)"
proof -
  have "p = ucast pid" using assms(2) by (auto simp: show_word_def parse_show_nat split: if_splits)
  then have "fst (fst (kill_0 api p st)) = 0" using assms(1) by (simp add: process_law_def)
  then show ?thesis by (auto simp: is_process_running_def Let_def split: prod.split)
qed

text \<open>An entry that is cleaned up is not the file of a running process.\<close>

lemma cleanup_entry_keeps:
  fixes st :: 'o and pl :: "'o platform"
  assumes sf: "shared_files pl v" and f: "CHR ''/'' \<notin> set f"
  defines "st' \<equiv> cleanup_entry (pl_unix pl) f st"
  shows "own_path pl \<in> v_files v st \<Longrightarrow> own_path pl \<in> v_files v st'"
    and "v_used v st \<subseteq> v_used v st'" and "v_entries v st' \<le> v_entries v st"
proof -
  let ?api = "pl_unix pl" and ?rest = "drop (length MEMORY_MAPPED_FILE_PREFIX) f"
  have laws: "calls_keep v ?api" "files_law v ?api" "process_law ?api (ci_this_process_id (pl_sys pl))"
    using sf by (simp_all add: shared_files_def)
  have "st' = st \<or> (\<exists>p. st' = snd (is_process_running ?api p st)) \<or>
    (\<exists>p. take (length MEMORY_MAPPED_FILE_PREFIX) f = MEMORY_MAPPED_FILE_PREFIX \<and> parse_i32 ?rest = Some p \<and>
      \<not> fst (is_process_running ?api p st) \<and> st' = unlink ?api f (snd (is_process_running ?api p st)))"
    by (auto simp: st'_def cleanup_entry_def split_beta Let_def split: option.split)
  then consider (kept) "st' = st" | (checked) p where "st' = snd (is_process_running ?api p st)"
    | (removed) p where "take (length MEMORY_MAPPED_FILE_PREFIX) f = MEMORY_MAPPED_FILE_PREFIX"
        "parse_i32 ?rest = Some p" "\<not> fst (is_process_running ?api p st)"
        "st' = unlink ?api f (snd (is_process_running ?api p st))" by blast
  then have "(own_path pl \<in> v_files v st \<longrightarrow> own_path pl \<in> v_files v st') \<and> v_used v st \<subseteq> v_used v st' \<and>
    v_entries v st' \<le> v_entries v st"
  proof cases
    case kept
    then show ?thesis by simp
  next
    case (checked p)
    then have "undisturbed v st st'"
      using calls_keepD(4) [OF laws(1)] by (auto simp: is_process_running_def Let_def split: prod.splits)
    then show ?thesis by (auto simp: undisturbed_def)
  next
    case (removed p)
    let ?st1 = "snd (is_process_running ?api p st)"
    have st1: "undisturbed v st ?st1"
      using calls_keepD(4) [OF laws(1)] by (auto simp: is_process_running_def Let_def split: prod.splits)
    have rel: "resolve (v_cwd v) f = v_cwd v @ ''/'' @ f" using f by (cases f) (auto simp: resolve_def)
    have "?rest \<noteq> show_word (ci_this_process_id (pl_sys pl))"
      using own_pid_runs [OF laws(3)] removed(2,3) by metis
    then have "f \<noteq> own_name pl" by (auto simp: own_name_def)
    then have other: "own_path pl \<noteq> resolve (v_cwd v) f"
      unfolding rel own_path_def using last_component [OF own_name_no_slash f] by metis
    from files_lawD(3-5) [OF laws(2), where st = ?st1 and p = f] other st1 show ?thesis
      unfolding removed(4) undisturbed_def by auto
  qed
  then show "own_path pl \<in> v_files v st \<Longrightarrow> own_path pl \<in> v_files v st'"
    "v_used v st \<subseteq> v_used v st'" "v_entries v st' \<le> v_entries v st" by blast+
qed

definition keeps_own :: "'o platform \<Rightarrow> 'o system_view \<Rightarrow> 'o \<Rightarrow> 'o \<Rightarrow> bool" where
  "keeps_own pl v st st' \<longleftrightarrow> (own_path pl \<in> v_files v st \<longrightarrow> own_path pl \<in> v_files v st') \<and> v_used v st \<subseteq> v_used v st'"

lemma keeps_own_trans: "keeps_own pl v st st1 \<Longrightarrow> keeps_own pl v st1 st2 \<Longrightarrow> keeps_own pl v st st2"
  by (auto simp: keeps_own_def)

lemma undisturbed_own: "undisturbed v st st' \<Longrightarrow> keeps_own pl v st st'"
  by (auto simp: undisturbed_def keeps_own_def)

lemma cleanup_loop_returns:
  assumes sf: "shared_files pl v"
  shows "\<exists>st'. cleanup_loop (pl_unix pl) d st = Some st' \<and> keeps_own pl v st st'"
proof (induction "v_entries v st" arbitrary: st rule: less_induct)
  case less
  let ?api = "pl_unix pl"
  obtain e st1 where read: "readdir ?api d st = (e, st1)" by fastforce
  have keep: "undisturbed v st st1" using calls_keepD(5) [OF _ read] sf by (simp add: shared_files_def)
  show ?case
  proof (cases e)
    case None
    then show ?thesis using read undisturbed_own [OF keep] by (subst cleanup_loop.simps) simp
  next
    case (Some f)
    have f: "CHR ''/'' \<notin> set f" "v_entries v st1 < v_entries v st"
      using sf read Some files_lawD(7) [of v ?api d st f st1] by (simp_all add: shared_files_def)
    note entry = cleanup_entry_keeps [OF sf f(1), of st1]
    have "keeps_own pl v st1 (cleanup_entry ?api f st1)" using entry(1,2) by (simp add: keeps_own_def)
    note own = keeps_own_trans [OF undisturbed_own [OF keep] this]
    have "v_entries v (cleanup_entry ?api f st1) < v_entries v st" using entry(3) f(2) by simp
    from less [OF this] obtain st' where "cleanup_loop ?api d (cleanup_entry ?api f st1) = Some st'"
      "keeps_own pl v (cleanup_entry ?api f st1) st'" by blast
    with read Some keeps_own_trans [OF own] show ?thesis by (subst cleanup_loop.simps) simp
  qed
qed

lemma cleanup_returns:
  assumes sf: "shared_files pl v"
  shows "\<exists>st'. cleanup (pl_target pl) (pl_unix pl) st = Some st' \<and> keeps_own pl v st st'"
proof -
  let ?api = "pl_unix pl"
  obtain d st1 where dir: "opendir ?api (BASE_DIR (pl_target pl)) st = (d, st1)" by fastforce
  have own: "keeps_own pl v st st1"
    using sf files_lawD(6) [OF _ dir, of v] by (auto simp: shared_files_def keeps_own_def)
  obtain st2 where st2: "cleanup_loop ?api d st1 = Some st2" "keeps_own pl v st1 st2"
    using cleanup_loop_returns [OF sf] by blast
  have "keeps_own pl v st2 (closedir ?api d st2)"
    using sf by (intro undisturbed_own) (simp add: shared_files_def calls_keepD(8))
  from keeps_own_trans [OF keeps_own_trans [OF own st2(2)] this] own st2(1) dir show ?thesis
    by (simp add: cleanup_def c_string_def base_dir_plain)
qed

section \<open>The file of the process\<close>

lemma own_path_plain: "CHR 0x00 \<notin> set (own_path pl)"
  by (simp add: own_path_def own_name_def MEMORY_MAPPED_FILE_PREFIX_def base_dir_plain no_nul)

text \<open>The file is opened when it exists and made otherwise; its mapping is fresh memory.\<close>

lemma unix_mmf_new_path:
  assumes sf: "shared_files pl v" and room: "v_room v n st" and plain: "CHR 0x00 \<notin> set name"
    and path: "BASE_DIR (pl_target pl) @ name = p"
  obtains m st' where
    "unix_mmf_new (pl_target pl) (pl_unix pl) name n st = Some (m, st')"
    "um_already_existed m \<longleftrightarrow> p \<in> v_files v st" "p \<in> v_files v st'"
    "v_used v st \<subseteq> v_used v st'" "um_length m = n" "um_data m \<noteq> 0" "unat (um_data m) + unat n < 2 ^ 64"
    "\<And>x. unat (um_data m) \<le> unat x \<Longrightarrow> unat x < unat (um_data m) + unat n \<Longrightarrow> x \<notin> v_used v st \<and> x \<in> v_used v st'"
    "\<exists>fd st1. mmap_shared (pl_unix pl) n fd st1 = (um_data m, st')"
proof -
  let ?api = "pl_unix pl" 
  have laws: "calls_keep v ?api" "files_law v ?api" "mappings_law v ?api" using sf by (simp_all add: shared_files_def)
  have p: "CHR 0x00 \<notin> set p" using plain path [symmetric] by (simp add: base_dir_plain)
  obtain fd st1 where opened: "open_rdwr ?api p st = (fd, st1)" by fastforce
  have st1: "undisturbed v st st1" by (rule calls_keepD(1) [OF laws(1) opened])
  note exists = files_lawD(1) [OF laws(2) opened]
  obtain st3 where dirs: "create_dir_all ?api (BASE_DIR (pl_target pl)) st1 = Some st3"
    using create_dir_all_returns [OF base_dir_plain] by metis
  obtain fd' st4 where made: "open_creat ?api p st3 = (fd', st4)" by fastforce
  have st3: "undisturbed v st1 st3" using dirs unfolding create_dir_all_def by (rule create_dirs_keeps [OF laws(1)])
  have st4: "fd' \<noteq> - 1" "p \<in> v_files v st4" "undisturbed v st3 st4" using files_lawD(2) [OF laws(2) made] by simp_all
  define fd2 where "fd2 = (if fd \<noteq> - 1 then fd else fd')"
  define st2 where "st2 = (if fd \<noteq> - 1 then st1 else ftruncate ?api fd' n st4)"
  note steps = st1 undisturbed_trans [OF undisturbed_trans [OF undisturbed_trans [OF st1 st3] st4(3)] calls_keepD(6) [OF laws(1)]]
  have st2: "undisturbed v st st2" using steps by (simp add: st2_def)
  have there: "p \<in> v_files v st2"
    using exists undisturbedD(1) [OF st1] undisturbedD(1) [OF calls_keepD(6) [OF laws(1)] st4(2)] by (simp add: st2_def)
  obtain a st5 where mapped: "mmap_shared ?api n fd2 st2 = (a, st5)" by fastforce
  have room2: "v_room v n st2" using undisturbedD(3) [OF st2] room .
  note law = mappings_lawD [OF laws(3) mapped]
  note map = law(1,2) law(3) [OF room2] and fresh = law(4,5) [OF law(3) [OF room2]]
  let ?m = "\<lparr>um_file_descriptor = fd2, um_already_existed = (fd \<noteq> - 1), um_data = a, um_length = n, um_file_path = p\<rparr>"
  have "unix_mmf_new (pl_target pl) ?api name n st = Some (?m, st5)"
    using opened dirs made mapped st4(1) map(3) p
    unfolding unix_mmf_new_def path fd2_def st2_def by (simp add: c_string_def Let_def split: if_splits)
  then show thesis
  proof (rule that)
    show "\<exists>fd st1. mmap_shared ?api n fd st1 = (um_data ?m, st5)" using mapped by auto
    show "um_already_existed ?m \<longleftrightarrow> p \<in> v_files v st" using exists by simp
    show "p \<in> v_files v st5" using there map(1) by (rule subsetD [rotated])
    show used: "v_used v st \<subseteq> v_used v st5" using undisturbedD(2) [OF st2] map(2) by (rule subset_trans)
    show "x \<notin> v_used v st \<and> x \<in> v_used v st5" if "unat (um_data ?m) \<le> unat x" "unat x < unat (um_data ?m) + unat n" for x
      using fresh(2) [of x] that subsetD [OF undisturbedD(2) [OF st2], of x] by auto
  qed (use fresh(1) in simp_all)
qed

lemma unix_mmf_new_own:
  assumes sf: "shared_files pl v" and room: "v_room v n st"
  obtains m st' where
    "unix_mmf_new (pl_target pl) (pl_unix pl) (''/'' @ own_name pl) n st = Some (m, st')"
    "um_already_existed m \<longleftrightarrow> own_path pl \<in> v_files v st" "own_path pl \<in> v_files v st'"
    "v_used v st \<subseteq> v_used v st'" "um_length m = n" "um_data m \<noteq> 0" "unat (um_data m) + unat n < 2 ^ 64"
    "\<And>x. unat (um_data m) \<le> unat x \<Longrightarrow> unat x < unat (um_data m) + unat n \<Longrightarrow> x \<notin> v_used v st \<and> x \<in> v_used v st'"
    "\<exists>fd st1. mmap_shared (pl_unix pl) n fd st1 = (um_data m, st')"
  by (rule unix_mmf_new_path [OF sf room, of "''/'' @ own_name pl" "own_path pl"])
    (use own_path_plain [of pl] in \<open>simp_all add: own_path_def that\<close>)

section \<open>The search\<close>

text \<open>A build whose headers live in shared files: Unix, but not Android, and not all private.\<close>

definition unix_build :: "'o platform \<Rightarrow> bool" where
  "unix_build pl \<longleftrightarrow> tgt_os (pl_target pl) \<noteq> Windows \<and> tgt_os (pl_target pl) \<noteq> Android \<and> \<not> pl_all_private pl"

lemma find_standard:
  assumes "unix_build pl" "lib_header_address lib = 0"
  shows "find_header pl wait lib = init_locatorheader_standard pl (wait lib)"
  using assms by (simp add: find_header_def unix_build_def)

lemma open_own:
  assumes "unix_build pl" "shared_files pl v"
    "unix_mmf_new (pl_target pl) (pl_unix pl) (''/'' @ own_name pl) (granularity (pl_sys pl)) st = Some (m, st')"
  shows "open_or_create_memory_mapped_file pl st = Some (Unix_Mmf m, st')"
  using assms
  by (simp add: open_or_create_memory_mapped_file_def unix_build_def shared_files_def process_law_def
      own_name_def MEMORY_MAPPED_FILE_PREFIX_def)

lemma sane_page_length:
  assumes "sane_page sys"
  shows "4096 \<le> unat (granularity sys)" "unat (granularity sys) \<le> 4096 + 202 * 16384"
  using assms unat_granularity [of sys] by (auto simp: sane_page_def sane_sys_def dest: dvd_imp_le)

text \<open>Making the first header: the state it leaves is a chain of one header.\<close>

lemma first_header_ok:
  assumes slots: "\<And>a. length (lh_items (w_headers w a)) = 203" and page: "sane_page (pl_sys pl)"
    and a: "a \<noteq> 0" "block_in (used (w_os w)) a (unat (granularity (pl_sys pl)))"
  obtains w' where "initialize pl a (granularity (pl_sys pl)) w = Some w'" "chain_ok used {a} w'"
    "w_machine w' = w_machine w" "lh_is_locked (w_headers w' a) = 0" "\<not> is_full (w_headers w' a)"
    "lh_this_address (w_headers w' a) = a"
    "\<not> cfg_macos_aarch64 (pl_target pl) \<Longrightarrow> \<not> has_next_locator (w_headers w' a) \<and>
       unat (lh_num_items (w_headers w' a)) = chunks (unat (granularity (pl_sys pl)) - 4096)"
    "\<not> cfg_macos_aarch64 (pl_target pl) \<Longrightarrow> \<exists>items. w_headers w' a = fresh_header a (unat (granularity (pl_sys pl))) items"
proof -
  let ?g = "granularity (pl_sys pl)" and ?w1 = "put_header a (set_default_values a (w_headers w a)) w"
  note g = sane_page_length [OF page]
  have "headers_ok {a} ?w1"
    using slots by (simp add: headers_ok_def wf_header_def set_default_values_def has_next_locator_def)
  moreover have "a \<in> used (w_os w)" using a(2) g(1) by (auto simp: block_in_def)
  ultimately have "chain_ok used {a} ?w1" using a(1) unfolding chain_ok_def by (intro exI [of _ "{a}"]) simp
  from initialize_ok [OF this _ g(1) _ a(2), of pl] g(2) obtain w' where
    w': "initialize pl a ?g w = Some w'" "chain_ok used {a} w'" "w_machine w' = w_machine w" by auto
  have "unat a + unat ?g < 2 ^ 64" using a(2) by (simp add: block_in_def)
  note state = new_header_state [OF w'(1) slots g this]
  show thesis
  proof (rule that [OF w' state])
    assume mac: "\<not> cfg_macos_aarch64 (pl_target pl)"
    with w'(1) initialize_buffers [OF mac g(1) _ slots] g(2)
    show "\<exists>items. w_headers w' a = fresh_header a (unat ?g) items" by auto
    from mac w'(1) initialize_buffers [OF mac g(1) _ slots] g(2) chunks_le [of "unat ?g"]
    show "\<not> has_next_locator (w_headers w' a) \<and> unat (lh_num_items (w_headers w' a)) = chunks (unat ?g - 4096)"
      by (auto simp: fresh_header_def has_next_locator_def unat_of_nat)
  qed
qed

text \<open>A process without the file of a first header, where it can be mapped.\<close>

definition fresh_process :: "'o platform \<Rightarrow> 'o system_view \<Rightarrow> 'o library \<Rightarrow> bool" where
  "fresh_process pl v lib \<longleftrightarrow> lib_mmf lib = None \<and> own_path pl \<notin> v_files v (w_os (lib_world lib)) \<and>
     v_room v (granularity (pl_sys pl)) (w_os (lib_world lib)) \<and>
     (\<forall>a. length (lh_items (w_headers (lib_world lib) a)) = 203)"

lemma find_creates:
  assumes build: "unix_build pl" and sf: "shared_files pl v" and page: "sane_page (pl_sys pl)"
    and lib: "lib_header_address lib = 0" and fresh: "fresh_process pl v (wait lib)"
  obtains h lib' where "find_header pl wait lib = Some (h, lib')" "lib_header_address lib' = h" "h \<noteq> 0"
    "chain_ok (v_used v) {h} (lib_world lib')" "lh_this_address (w_headers (lib_world lib') h) = h"
    "lh_is_locked (w_headers (lib_world lib') h) = 0" "\<not> is_full (w_headers (lib_world lib') h)"
    "own_path pl \<in> v_files v (w_os (lib_world lib'))"
    "block_in (v_used v (w_os (lib_world lib'))) h (unat (granularity (pl_sys pl)))"
    "\<not> cfg_macos_aarch64 (pl_target pl) \<Longrightarrow> \<not> has_next_locator (w_headers (lib_world lib') h) \<and>
       unat (lh_num_items (w_headers (lib_world lib') h)) = chunks (unat (granularity (pl_sys pl)) - 4096)"
    "\<not> cfg_macos_aarch64 (pl_target pl) \<Longrightarrow>
       \<exists>items. w_headers (lib_world lib') h = fresh_header h (unat (granularity (pl_sys pl))) items"
proof -
  let ?g = "granularity (pl_sys pl)" and ?w = "lib_world (wait lib)"
  have mmf: "lib_mmf (wait lib) = None" and new: "own_path pl \<notin> v_files v (w_os ?w)" and room: "v_room v ?g (w_os ?w)"
    and slots: "\<And>a. length (lh_items (w_headers ?w a)) = 203" using fresh by (simp_all add: fresh_process_def)
  from sf room obtain m st where m: "unix_mmf_new (pl_target pl) (pl_unix pl) (''/'' @ own_name pl) ?g (w_os ?w) = Some (m, st)"
    "\<not> um_already_existed m" "own_path pl \<in> v_files v st" "um_length m = ?g" "um_data m \<noteq> 0"
    "unat (um_data m) + unat ?g < 2 ^ 64"
    "\<And>x. unat (um_data m) \<le> unat x \<Longrightarrow> unat x < unat (um_data m) + unat ?g \<Longrightarrow> x \<in> v_used v st"
    by (rule unix_mmf_new_own) (use new in blast)
  obtain st1 where st1: "cleanup (pl_target pl) (pl_unix pl) st = Some st1" "keeps_own pl v st st1"
    using cleanup_returns [OF sf] by blast
  have block: "block_in (v_used v (w_os (put_os st1 ?w))) (um_data m) (unat ?g)"
    using m(6,7) st1(2) by (auto simp: block_in_def keeps_own_def)
  then obtain w' where w': "initialize pl (um_data m) ?g (put_os st1 ?w) = Some w'" "chain_ok (v_used v) {um_data m} w'"
    "w_machine w' = w_machine (put_os st1 ?w)" "lh_is_locked (w_headers w' (um_data m)) = 0"
    "\<not> is_full (w_headers w' (um_data m))" "lh_this_address (w_headers w' (um_data m)) = um_data m"
    "\<not> cfg_macos_aarch64 (pl_target pl) \<Longrightarrow> \<not> has_next_locator (w_headers w' (um_data m)) \<and>
       unat (lh_num_items (w_headers w' (um_data m))) = chunks (unat ?g - 4096)"
    "\<not> cfg_macos_aarch64 (pl_target pl) \<Longrightarrow> \<exists>items. w_headers w' (um_data m) = fresh_header (um_data m) (unat ?g) items"
    using first_header_ok [of "put_os st1 ?w" pl "um_data m" "v_used v"] slots page m(5) by auto
  let ?lib = "(wait lib)\<lparr>lib_header_address := um_data m, lib_mmf := Some (Unix_Mmf m), lib_world := put_os (w_os w') w'\<rparr>"
  have "find_header pl wait lib = Some (um_data m, ?lib)"
    using build lib mmf m st1 w'(1)
    by (simp add: find_standard init_locatorheader_standard_def open_own [OF build sf m(1)] Let_def cfg_unix_def unix_build_def)
  then show thesis
    by (rule that) (use w' m st1 block chain_ok_os [OF w'(2) subset_refl] in \<open>simp_all add: keeps_own_def\<close>)
qed

text \<open>
  Finding it again: the mapping of an existing file shows the first header, whose own address is
  read from it; the mapping is given up, and nothing else changes.
\<close>

lemma find_again:
  assumes build: "unix_build pl" and sf: "shared_files pl v" and lib: "lib_header_address lib = 0"
    and there: "own_path pl \<in> v_files v (w_os (lib_world (wait lib)))"
    and room: "v_room v (granularity (pl_sys pl)) (w_os (lib_world (wait lib)))"
    and view: "\<And>n fd st. lh_this_address (w_headers (lib_world (wait lib)) (fst (mmap_shared (pl_unix pl) n fd st))) = h"
  obtains st' where "find_header pl wait lib = Some (h, (wait lib)\<lparr>lib_header_address := h,
      lib_world := put_os st' (lib_world (wait lib))\<rparr>)"
    "own_path pl \<in> v_files v st'" "v_used v (w_os (lib_world (wait lib))) \<subseteq> v_used v st'"
proof -
  let ?g = "granularity (pl_sys pl)" and ?w = "lib_world (wait lib)" and ?api = "pl_unix pl"
  have laws: "calls_keep v ?api" "mappings_law v ?api" using sf by (simp_all add: shared_files_def)
  from sf room obtain m st where m: "unix_mmf_new (pl_target pl) ?api (''/'' @ own_name pl) ?g (w_os ?w) = Some (m, st)"
    "um_already_existed m" "own_path pl \<in> v_files v st" "v_used v (w_os ?w) \<subseteq> v_used v st" "um_length m = ?g"
    "\<And>x. unat (um_data m) \<le> unat x \<Longrightarrow> unat x < unat (um_data m) + unat ?g \<Longrightarrow> x \<notin> v_used v (w_os ?w)"
    "\<exists>fd st1. mmap_shared ?api ?g fd st1 = (um_data m, st)"
    by (rule unix_mmf_new_own) (use there in blast)
  have h: "lh_this_address (w_headers ?w (um_data m)) = h" using m(7) view by (metis fst_conv)
  let ?st1 = "munmap_shared ?api (um_data m) ?g st"
  let ?st2 = "close_file ?api (um_file_descriptor m) ?st1"
  have un: "v_files v st \<subseteq> v_files v ?st1"
    "v_used v st - {x. unat (um_data m) \<le> unat x \<and> unat x < unat (um_data m) + unat ?g} \<subseteq> v_used v ?st1"
    using laws(2) unfolding mappings_law_def by blast+
  have cl: "undisturbed v ?st1 ?st2" using laws(1) by (rule calls_keepD(7))
  have "find_header pl wait lib = Some (h, (wait lib)\<lparr>lib_header_address := h, lib_world := put_os ?st2 ?w\<rparr>)"
    using build lib m(2,5) h
    by (simp add: find_standard init_locatorheader_standard_def open_own [OF build sf m(1)] Let_def unix_mmf_drop_def)
  then show thesis
  proof (rule that)
    show "own_path pl \<in> v_files v ?st2" using m(3) un(1) undisturbedD(1) [OF cl] by blast
    show "v_used v (w_os ?w) \<subseteq> v_used v ?st2" using m(4,6) un(2) undisturbedD(2) [OF cl] by blast
  qed
qed

end
