(* ===== verification/Finder_Properties.thy ===== *)
theory Finder_Properties
  imports Finder_Facts Session_Properties
begin

text \<open>
  The first header of a process on Unix: it is made once, every copy of the library finds the same
  one, and a process that starts from nothing has the guarantees of the searches and sessions.
\<close>

section \<open>A system with files\<close>

text \<open>
  The system of the sample sessions with a list of files; shared mappings are taken from its heap.
  The working directory is the root.
\<close>

type_synonym disk = "paged \<times> string list"

definition disk_unix :: "disk unix_api" where
  "disk_unix = sample_unix
     \<lparr>open_rdwr := (\<lambda>p st. (if p \<in> set (snd st) then 3 else - 1, st)),
      open_creat := (\<lambda>p st. (4, (fst st, p # snd st))),
      mmap_shared := (\<lambda>n fd st. case paged_heap n 4096 (fst st) of (a, s) \<Rightarrow>
        if a = 0 then (MAP_FAILED, st) else (a, (s, snd st))),
      unlink := (\<lambda>p st. (fst st, removeAll (resolve [] p) (snd st))),
      itoa_u32 := show_word\<rparr>"

definition disk_linux :: "disk linux_api" where
  "disk_linux = sample_linux
     \<lparr>mmap := (\<lambda>a n p f fd off st. case mmap paged_linux a n p f fd off (fst st) of (r, s) \<Rightarrow> (r, (s, snd st)))\<rparr>"

definition disk_heap :: "usize \<Rightarrow> usize \<Rightarrow> disk \<Rightarrow> usize \<times> disk" where
  "disk_heap n align st = (case paged_heap n align (fst st) of (a, s) \<Rightarrow> (a, (s, snd st)))"

definition disk_view :: "disk system_view" where
  "disk_view = \<lparr>v_files = (\<lambda>st. set (snd st)), v_used = (\<lambda>st. paged_used (fst st)),
     v_room = (\<lambda>n st. fst (paged_heap n 4096 (fst st)) \<noteq> 0), v_entries = (\<lambda>_. 0), v_cwd = []\<rparr>"

definition disk_platform :: "disk linux_api \<Rightarrow> disk platform" where
  "disk_platform linux = (platform_with 4096 linux disk_heap)\<lparr>pl_unix := disk_unix\<rparr>"

text \<open>A copy of the library that has not looked for a header, in a process without files.\<close>

definition disk_library :: "disk library" where
  "disk_library = \<lparr>lib_header_address = 0, lib_mmf = None,
     lib_world = \<lparr>w_headers = (\<lambda>_. paged_header), w_machine = \<lparr>mem = (\<lambda>_. 0), os = ((0x100000, []), [])\<rparr>\<rparr>\<rparr>"

lemma paged_heapD:
  assumes "paged_heap n al s = (a, s')"
  shows "paged_used s \<subseteq> paged_used s'" and "a \<noteq> MAP_FAILED"
    and "a \<noteq> 0 \<Longrightarrow> unat a + unat n < 2 ^ 64 \<and> none_in (range_of a n) (paged_used s) \<and> all_in (range_of a n) (paged_used s')"
proof -
  have "pl_heap_alloc paged_platform n al s = (a, s')" using assms by (simp add: paged_platform_def platform_with_def)
  with paged_heap_global show "paged_used s \<subseteq> paged_used s'"
    "a \<noteq> 0 \<Longrightarrow> unat a + unat n < 2 ^ 64 \<and> none_in (range_of a n) (paged_used s) \<and> all_in (range_of a n) (paged_used s')"
    unfolding global_heap_def by blast+
  have "unat MAP_FAILED = 2 ^ 64 - 1"
    by (simp add: MAP_FAILED_def unsigned_minus_1_eq_mask mask_eq_exp_minus_1)
  then show "a \<noteq> MAP_FAILED"
    using assms by (auto simp: paged_heap_def split: if_splits)
qed

lemma disk_mapping:
  assumes "mmap_shared disk_unix n fd st = (a, st')"
  obtains "st' = st" "a = MAP_FAILED" "fst (paged_heap n 4096 (fst st)) = 0"
  | s where "paged_heap n 4096 (fst st) = (a, s)" "a \<noteq> 0" "st' = (s, snd st)"
  using assms by (cases "paged_heap n 4096 (fst st)") (auto simp: disk_unix_def split: if_splits)

lemma disk_mappings: "mappings_law disk_view disk_unix"
proof -
  have "v_files disk_view st \<subseteq> v_files disk_view st' \<and> v_used disk_view st \<subseteq> v_used disk_view st' \<and>
      (v_room disk_view n st \<longrightarrow> a \<noteq> MAP_FAILED) \<and> (a \<noteq> MAP_FAILED \<longrightarrow> a \<noteq> 0 \<and> unat a + unat n < 2 ^ 64 \<and>
        (\<forall>x. unat a \<le> unat x \<and> unat x < unat a + unat n \<longrightarrow> x \<notin> v_used disk_view st \<and> x \<in> v_used disk_view st'))"
    if "mmap_shared disk_unix n fd st = (a, st')" for n fd st a st'
    using that
  proof (cases rule: disk_mapping)
    case 1
    then show ?thesis by (simp add: disk_view_def)
  next
    case (2 s)
    with paged_heapD [OF 2(1)] show ?thesis by (simp add: disk_view_def none_in_def all_in_def)
  qed
  then show ?thesis by (auto simp: mappings_law_def disk_unix_def sample_unix_def disk_view_def)
qed

lemma disk_shared_files: "shared_files (disk_platform linux) disk_view"
proof -
  let ?pl = "disk_platform linux"
  have api: "pl_unix ?pl = disk_unix" by (simp add: disk_platform_def)
  have "calls_keep disk_view disk_unix"
    by (simp add: calls_keep_def undisturbed_def disk_unix_def sample_unix_def disk_view_def)
  moreover have "files_law disk_view disk_unix"
    by (auto simp: files_law_def undisturbed_def disk_unix_def sample_unix_def disk_view_def)
  moreover note disk_mappings
  moreover have "process_law disk_unix (ci_this_process_id (pl_sys ?pl))"
    by (simp add: process_law_def disk_unix_def sample_unix_def)
  ultimately show ?thesis by (simp add: shared_files_def api)
qed

lemma disk_basics:
  "unix_build (disk_platform linux)" "sane_page (pl_sys (disk_platform linux))" "pl_sys (disk_platform linux) = sample_sys 4096"
  "pl_linux (disk_platform linux) = linux" "tgt_os (pl_target (disk_platform linux)) = Linux"
  "\<not> cfg_macos_aarch64 (pl_target (disk_platform linux))" "pl_unix (disk_platform linux) = disk_unix"
  by (simp_all add: disk_platform_def platform_with_def unix_build_def sample_page)

lemma disk_fresh: "lib_header_address disk_library = 0" "fresh_process (disk_platform linux) disk_view disk_library"
  by (simp_all add: fresh_process_def disk_library_def disk_view_def paged_header_def disk_basics sample_granularity
      paged_heap_def)

section \<open>Properties\<close>



text \<open>
  C10 From nothing to a buffer: in a process without a header, \<open>get_buffer\<close> makes the first header and
  answers with an item that serves the request and is locked for the caller, or with an error that
  names the request.
\<close>

theorem get_buffer_from_nothing:
  assumes "unix_build pl" and "shared_files pl v" and "\<not> cfg_macos_aarch64 (pl_target pl)"
    and "lib_header_address lib = 0" and "fresh_process pl v (wait lib)"
    and "allocator_answers pl (bss_size s) (bss_min_address s) (bss_max_address s)"
    and "search_ok pl (v_used v) yield {} (bss_size s) (bss_max_address s)"
  shows "\<exists>r lib' h. get_buffer pl wait yield s lib = Some (r, lib') \<and> lib_header_address lib' = h \<and> h \<noteq> 0 \<and>
    search_answer (v_used v) {h} {} s (r, lib_world lib')"
proof -
  have page: "sane_page (pl_sys pl)" using assms(7) by (simp add: search_ok_def)
  obtain h lib1 where first: "find_header pl wait lib = Some (h, lib1)" "lib_header_address lib1 = h" "h \<noteq> 0"
    "chain_ok (v_used v) {h} (lib_world lib1)" "lh_is_locked (w_headers (lib_world lib1) h) = 0"
    "\<not> has_next_locator (w_headers (lib_world lib1) h)"
    by (rule find_creates [where wait = wait, OF assms(1,2) page assms(4,5)]) (use assms(3) in blast)
  have "world_ok (v_used v) {h} {} (lib_world lib1)" "open_path (lib_world lib1) h [h]"
    using first by (simp_all add: world_ok_def)
  then obtain r w where r: "search_answer (v_used v) {h} {} s (r, w)"
    "get_buffer_recursive pl yield s h (lib_world lib1) = Some (r, w)"
    by (rule get_buffer_found [where wait = wait, OF first(2,3) insertI1 _ _ assms(6,7)])
  then show ?thesis using first by (simp add: get_buffer_def)
qed

lemma disk_global_heap: "global_heap (disk_platform linux) (v_used disk_view)"
  unfolding global_heap_def
proof (intro allI impI)
  fix n al st a st' assume "pl_heap_alloc (disk_platform linux) n al st = (a, st')"
  then have "paged_heap n al (fst st) = (a, fst st')"
    by (auto simp: disk_platform_def platform_with_def disk_heap_def split: prod.splits)
  from paged_heapD [OF this] show "v_used disk_view st \<subseteq> v_used disk_view st' \<and> (a \<noteq> 0 \<longrightarrow> unat a + unat n < 2 ^ 64 \<and>
      none_in (range_of a n) (v_used disk_view st) \<and> all_in (range_of a n) (v_used disk_view st'))"
    by (simp add: disk_view_def)
qed

lemma disk_search_ok: "search_ok (disk_platform sample_linux) (v_used disk_view) (\<lambda>w. w) {} 4096 0x7FFFFFFF"
proof -
  let ?pl = "disk_platform sample_linux"
  have like: "sample_like 4096 ?pl" by (simp add: sample_like_def disk_platform_def platform_with_def)
  have "honest_os ?pl" by (simp add: honest_os_def disk_basics)
  moreover have "heap_ok ?pl (v_used disk_view)"
    unfolding heap_ok_def
  proof (intro conjI)
    show "\<forall>s st r s' st'. allocate ?pl s st = Some (r, s', st') \<longrightarrow> v_used disk_view st \<subseteq> v_used disk_view st'"
      using like_allocate_state [OF like] by blast
  qed (use disk_global_heap [of sample_linux] in \<open>simp add: global_heap_def none_in_def all_in_def\<close>)
  ultimately show ?thesis using sample_request sample_page by (simp add: search_ok_def yield_ok_def disk_basics)
qed

theorem get_buffer_from_nothing_witness:
  "\<exists>r lib' h. get_buffer (disk_platform sample_linux) (\<lambda>l. l) (\<lambda>w. w) sample_search disk_library = Some (r, lib') \<and>
    lib_header_address lib' = h \<and> h \<noteq> 0 \<and> search_answer (v_used disk_view) {h} {} sample_search (r, lib_world lib')"
proof -
  have "sample_like 4096 (disk_platform sample_linux)" by (simp add: sample_like_def disk_platform_def platform_with_def)
  from like_answers [OF this, of 4096 "0x7FFFFFFF"] disk_search_ok show ?thesis
    by (intro get_buffer_from_nothing [where wait = "\<lambda>l. l", OF disk_basics(1) disk_shared_files disk_basics(6) disk_fresh])
      simp_all
qed


lemma disk_kernel: "linux_kernel disk_linux (v_used disk_view)"
proof -
  have "mmap_fresh disk_linux (v_used disk_view)"
    unfolding mmap_fresh_def
  proof (intro allI impI)
    fix a n p f fd off st r st' assume "mmap disk_linux a n p f fd off st = (r, st')"
    then have "mmap paged_linux a n p f fd off (fst st) = (r, fst st')" by (auto simp: disk_linux_def split: prod.splits)
    from linux_kernelD(1,2) [OF paged_kernel this] show "v_used disk_view st \<subseteq> v_used disk_view st' \<and>
        (MAP_FIXED_NOREPLACE \<in> set f \<and> r \<noteq> MAP_FAILED \<longrightarrow>
          none_in (range_of r n) (v_used disk_view st) \<and> all_in (range_of r n) (v_used disk_view st'))"
      by (simp add: disk_view_def)
  qed
  moreover have "munmap_exact disk_linux (v_used disk_view)" "files_keep disk_linux (v_used disk_view)"
    by (auto simp: munmap_exact_def files_keep_def disk_linux_def sample_linux_def)
  ultimately show ?thesis by (simp add: linux_kernel_def)
qed


end
