(* ===== verification/Finder_Failures.thy ===== *)
theory Finder_Failures
  imports Finder_Properties
begin

text \<open>
  The first header where it does not live in a shared file, or where the file cannot be mapped: the
  build with \<open>all_private\<close>, the mapped files of Windows, and the answers of the finder when a mapping fails.
\<close>

section \<open>The private build\<close>

abbreviation private_settings :: "cached \<Rightarrow> buffer_allocator_settings" where
  "private_settings sys \<equiv> \<lparr>bas_min_address = 0, bas_max_address = ci_max_address sys, bas_size = ci_allocation_granularity sys,
     bas_target_process_id = ci_this_process_id sys, bas_retry_count = 8, bas_brute_force = True\<rparr>"

definition private_build :: "'o platform \<Rightarrow> bool" where
  "private_build pl \<longleftrightarrow> tgt_os (pl_target pl) = Android \<or> pl_all_private pl"

lemma find_private:
  assumes "private_build pl" "lib_header_address lib = 0"
  shows "find_header pl wait lib = init_locatorheader_memorymappedfiles_unsupported pl (wait lib)"
  using assms by (auto simp: find_header_def private_build_def)

lemma dvd_between: "(g :: nat) dvd n \<Longrightarrow> g \<le> n \<Longrightarrow> n < 2 * g \<Longrightarrow> n = g"
  by (auto elim!: dvdE)

text \<open>The block the allocator answers with is one granule, so it becomes a header as a mapped file would.\<close>

lemma private_block:
  assumes sys: "sane_page (pl_sys pl)" "honest_os pl" and fresh: "fresh_memory pl used"
    and ret: "allocate pl (private_settings (pl_sys pl)) st = Some (Inr it, s', st')"
  shows "ucast (li_size it) = granularity (pl_sys pl)" and "li_base_address it \<noteq> 0"
    and "block_in (used st') (li_base_address it) (unat (granularity (pl_sys pl)))"
    and "li_base_address it \<notin> used st"
proof -
  let ?g = "granularity (pl_sys pl)"
  have sane: "sane_sys (pl_sys pl)" using sys by (simp add: sane_page_def)
  note g = sane_page_length [OF sys(1)] unat_granularity [OF sane]
  have "sane_request (pl_sys pl) (ci_allocation_granularity (pl_sys pl)) (ci_max_address (pl_sys pl))"
    using sane g by (simp add: sane_request_def sane_sys_def)
  note al = allocate_fresh [OF ret sys(2), simplified, OF this]
  have it: "serves_request (ci_allocation_granularity (pl_sys pl)) 0 (ci_max_address (pl_sys pl)) it" using al(1) .
  have "unat ?g \<le> free_bytes it" using it g by (simp add: serves_request_def)
  then have "unat ?g \<le> unat (li_size it)" by (simp add: free_bytes_def)
  moreover have "unat (li_size it) < 2 * unat ?g" using al(6) g by simp
  ultimately have size: "unat (li_size it) = unat ?g" using al(5) by (intro dvd_between)
  then show "ucast (li_size it) = ?g" by (simp add: word_unat_eq_iff)
  show "li_base_address it \<noteq> 0" using it by (simp add: serves_request_def)
  have blk: "none_in (item_block it) (used st)" "all_in (item_block it) (used st')"
    using fresh ret unfolding fresh_memory_def by blast+
  show "block_in (used st') (li_base_address it) (unat ?g)"
    using blk(2) it size by (auto simp: block_in_def all_in_def item_block_def serves_request_def wf_item_def)
  show "li_base_address it \<notin> used st"
    using blk(1) size g(1) by (auto simp: none_in_def item_block_def)
qed

lemma private_find:
  assumes build: "private_build pl" and sys: "sane_page (pl_sys pl)" "honest_os pl" and fresh: "fresh_memory pl used"
    and lib: "lib_header_address lib = 0" and slots: "\<And>a. length (lh_items (w_headers (lib_world (wait lib)) a)) = 203"
    and ret: "find_header pl wait lib = Some (h, lib')"
  shows "h \<noteq> 0" "lib_header_address lib' = h" "chain_ok used {h} (lib_world lib')"
    "lh_this_address (w_headers (lib_world lib') h) = h" "lh_is_locked (w_headers (lib_world lib') h) = 0"
    "\<not> is_full (w_headers (lib_world lib') h)" "h \<notin> used (w_os (lib_world (wait lib)))"
    "length (lh_items (w_headers (lib_world lib') a)) = 203" "h \<in> used (w_os (lib_world lib'))"
proof -
  let ?w = "lib_world (wait lib)"
  from ret obtain it s' st w where al: "allocate pl (private_settings (pl_sys pl)) (w_os ?w) = Some (Inr it, s', st)"
    and init: "initialize pl h (ucast (li_size it)) (put_os st ?w) = Some w" and h: "h = li_base_address it"
    and lib': "lib' = (wait lib)\<lparr>lib_header_address := h, lib_world := w\<rparr>"
    by (auto simp: find_private [OF build lib] init_locatorheader_memorymappedfiles_unsupported_def Let_def result_cases)
  note blk = private_block [OF sys fresh al, folded h]
  have slots': "length (lh_items (w_headers (put_os st ?w) a)) = 203" for a using slots by simp
  have blk': "block_in (used (w_os (put_os st ?w))) h (unat (granularity (pl_sys pl)))" using blk(3) by simp
  obtain w' where w': "initialize pl h (granularity (pl_sys pl)) (put_os st ?w) = Some w'" "chain_ok used {h} w'"
    "w_machine w' = w_machine (put_os st ?w)" "lh_is_locked (w_headers w' h) = 0" "\<not> is_full (w_headers w' h)"
    "lh_this_address (w_headers w' h) = h"
    by (rule first_header_ok [where w = "put_os st ?w" and a = h and used = used and pl = pl, OF slots' sys(1) blk(2) blk'])
  have w: "w = w'" using init w'(1) blk(1) by simp
  show "h \<noteq> 0" "lib_header_address lib' = h" "chain_ok used {h} (lib_world lib')"
    "lh_this_address (w_headers (lib_world lib') h) = h" "lh_is_locked (w_headers (lib_world lib') h) = 0"
    "\<not> is_full (w_headers (lib_world lib') h)" "h \<notin> used (w_os (lib_world (wait lib)))"
    "length (lh_items (w_headers (lib_world lib') a)) = 203" "h \<in> used (w_os (lib_world lib'))"
    using blk w' chain_ok_slots [OF w'(2)] chain_ok_used [OF w'(2), of h] by (simp_all add: lib' w)
qed


text \<open>
  The sample system with the feature and one line in its maps file, which two calls of \<open>read\<close> deliver (the
  parity of the top of the heap tells which of them is next), and a copy of the library on it that has not
  looked for a header.
\<close>

definition private_line :: maps_line where
  "private_line = \<lparr>ml_entry = memory_map_entry_new 0x3000000 0x700000000000, ml_pads = (0, 0), ml_rest = ''rw-p''\<rparr>"

definition private_linux :: "paged linux_api" where
  "private_linux = paged_linux\<lparr>read_fd := (\<lambda>fd n st. (Some (if even (unat (fst st)) then print_maps [private_line] else []),
     (if unat (fst st) < 2 ^ 60 then fst st + 1 else fst st, snd st)))\<rparr>"

definition private_platform :: "paged platform" where
  "private_platform = (platform_with 4096 private_linux paged_heap)\<lparr>pl_all_private := True\<rparr>"

definition private_library :: "paged library" where
  "private_library = \<lparr>lib_header_address = 0, lib_mmf = None,
     lib_world = \<lparr>w_headers = (\<lambda>_. paged_header), w_machine = \<lparr>mem = (\<lambda>_. 0), os = (0x100000, [])\<rparr>\<rparr>\<rparr>"

lemma private_sel:
  "pl_build private_platform = Debug" "pl_target private_platform = \<lparr>tgt_os = Linux, tgt_arch = X86_64\<rparr>"
  "pl_sys private_platform = sample_sys 4096" "pl_linux private_platform = private_linux" "private_build private_platform"
  by (simp_all add: private_platform_def platform_with_def private_build_def)

definition private_request :: buffer_allocator_settings where
  "private_request = private_settings (sample_sys 4096)"

lemma private_fields:
  "bas_min_address private_request = 0" "bas_max_address private_request = 0x7FFFFFFFFFFF" "bas_size private_request = 4096"
  "nat (sint (bas_retry_count private_request)) = 8" "private_request\<lparr>bas_size := 4096\<rparr> = private_request"
  by (simp_all add: private_request_def sample_sys_def)

lemma private_linux_maps:
  assumes "even (unat t)" "unat t + 1 < 2 ^ 60"
  shows "get_free_regions_from_process_id (sample_sys 4096) private_linux pid (t, ms) =
    Some ([memory_map_entry_new 0 0x2FFFFFF, memory_map_entry_new 0x700000000000 0x7FFFFFFFFFFF], (t + 2, ms))"
proof -
  let ?text = "print_maps [private_line]"
  have next_t: "unat (t + 1) = unat t + 1" using assms(2) by (subst unat_add_small) simp_all
  then have "odd (unat (t + 1))" using assms(1) by simp
  moreover have "?text \<noteq> []" by (simp add: print_maps_def)
  ultimately have "read_loop private_linux 3 [] BUFFER_SIZE (t, ms) = Some (?text, (t + 1 + 1, ms))"
    using assms next_t by (subst read_loop.simps, subst read_loop.simps) (simp add: private_linux_def Let_def)
  then have "parse_memory_map_from_process_id private_linux pid (t, ms)
      = Some (map ml_entry [private_line], (t + 2, ms))"
    using parse_print_maps [of "[private_line]"]
    by (simp add: parse_memory_map_from_process_id_def read_to_string_def private_line_def add.assoc)
      (simp add: private_linux_def paged_linux_def sample_linux_def three_nonneg)
  then show ?thesis
    by (simp add: get_free_regions_from_process_id_def get_free_regions_def private_line_def memory_map_entry_new_def)
      (simp add: sample_sys_def)?
qed

lemma private_candidates:
  "get_possible_buffer_addresses Debug 0 0x7FFFFFFFFFFF 0 0x2FFFFFF 4096 4096 = Some [0, 0x2FFE000, 0]"
  "get_possible_buffer_addresses Debug 0 0x7FFFFFFFFFFF 0x700000000000 0x7FFFFFFFFFFF 4096 4096
    = Some [0x700000000000, 0x7FFFFFFFE000, 0x7FFFFFFFE000]"
  by (simp_all add: get_possible_buffer_addresses_def candidate_def address_range_overlaps_def
      point_in_range_def address_range_size_def address_range_contains_def round_up_def round_down_def
      add_with_overflow_cap_def subtract_with_underflow_cap_def wadd_def wsub_def Let_def)

text \<open>The first allocation is served from the first free region, the second one from the second.\<close>

lemma private_mmap:
  "mmap private_linux a n p f fd off st = (if paged_free a n st then (a, (fst st, (a, n) # snd st)) else (MAP_FAILED, st))"
  "munmap private_linux a n st = (0, st)"
  by (simp_all add: private_linux_def paged_linux_def sample_linux_def)

lemma private_addresses:
  "linux_try_addresses private_linux private_request [0, 0x2FFE000, 0] (0x100002, [])
    = (Inr (locator_item_new 0x2FFE000 4096), (0x100002, [(0x2FFE000, 4096)]))"
  "linux_try_addresses private_linux private_request [0, 0x2FFE000, 0] (0x100004, [(0x2FFE000, 4096)])
    = (Inl ''Failed to allocate buffer'', (0x100004, [(0x2FFE000, 4096)]))"
  "linux_try_addresses private_linux private_request
      [0x700000000000, 0x7FFFFFFFE000, 0x7FFFFFFFE000] (0x100004, [(0x2FFE000, 4096)])
    = (Inr (locator_item_new 0x700000000000 4096), (0x100004, [(0x700000000000, 4096), (0x2FFE000, 4096)]))"
  by (simp_all add: private_mmap private_fields MAP_FAILED_def paged_free_def)

lemma private_try:
  "linux_try_allocate_buffer Debug (sample_sys 4096) private_linux (memory_map_entry_new 0 0x2FFFFFF)
      private_request st
    = Some (linux_try_addresses private_linux private_request [0, 0x2FFE000, 0] st)"
  "linux_try_allocate_buffer Debug (sample_sys 4096) private_linux (memory_map_entry_new 0x700000000000 0x7FFFFFFFFFFF)
      private_request st
    = Some (linux_try_addresses private_linux private_request
        [0x700000000000, 0x7FFFFFFFE000, 0x7FFFFFFFE000] st)"
  using private_candidates
  by (simp_all add: linux_try_allocate_buffer_def memory_map_entry_new_def sample_granularity private_fields
      del: linux_try_addresses.simps)

abbreviation private_gaps :: "memory_map_entry list" where
  "private_gaps \<equiv> [memory_map_entry_new 0 0x2FFFFFF, memory_map_entry_new 0x700000000000 0x7FFFFFFFFFFF]"

lemma private_regions:
  "linux_try_regions Debug (sample_sys 4096) private_linux private_request private_gaps (0x100002, [])
    = Some (Some (locator_item_new 0x2FFE000 4096), (0x100002, [(0x2FFE000, 4096)]))"
  "linux_try_regions Debug (sample_sys 4096) private_linux private_request private_gaps (0x100004, [(0x2FFE000, 4096)])
    = Some (Some (locator_item_new 0x700000000000 4096), (0x100004, [(0x700000000000, 4096), (0x2FFE000, 4096)]))"
proof -
  have "start_address (memory_map_entry_new 0 0x2FFFFFF) \<le> 0x7FFFFFFFFFFF"
    "start_address (memory_map_entry_new 0x700000000000 0x7FFFFFFFFFFF) \<le> 0x7FFFFFFFFFFF"
    by (simp_all add: memory_map_entry_new_def)
  then show "linux_try_regions Debug (sample_sys 4096) private_linux private_request private_gaps (0x100002, [])
      = Some (Some (locator_item_new 0x2FFE000 4096), (0x100002, [(0x2FFE000, 4096)]))"
    "linux_try_regions Debug (sample_sys 4096) private_linux private_request private_gaps (0x100004, [(0x2FFE000, 4096)])
      = Some (Some (locator_item_new 0x700000000000 4096), (0x100004, [(0x700000000000, 4096), (0x2FFE000, 4096)]))"
    by (simp_all add: private_try private_addresses private_fields del: linux_try_addresses.simps)
qed

lemma private_retries:
  assumes "linux_try_regions Debug (sample_sys 4096) private_linux private_request private_gaps (t + 2, ms) = Some (Some it, st')"
    and "even (unat t)" "unat t + 1 < 2 ^ 60"
  shows "\<exists>s'. allocate private_platform private_request (t, ms) = Some (Inr it, s', st')"
proof -
  have "sanitize Debug \<lparr>tgt_os = Linux, tgt_arch = X86_64\<rparr> (sample_sys 4096) private_request = Some private_request"
    by (simp add: sanitize_def sample_granularity private_fields round_up_def Let_def)
  moreover have "linux_retry Debug (sample_sys 4096) private_linux private_request 8 (t, ms) = Some (Inr it, st')"
    using linux_retry.simps(2) [of Debug "sample_sys 4096" private_linux private_request 7 "(t, ms)"]
    by (simp add: private_linux_maps [OF assms(2,3)] assms(1) del: linux_try_regions.simps linux_retry.simps)
  ultimately show ?thesis
    by (simp add: allocate_def allocate_os_def private_sel private_fields allocate_linux_def del: linux_retry.simps)
qed

lemma private_allocates:
  "\<exists>s'. allocate private_platform private_request (0x100000, [])
    = Some (Inr (locator_item_new 0x2FFE000 4096), s', (0x100002, [(0x2FFE000, 4096)]))"
  "\<exists>s'. allocate private_platform private_request (0x100002, [(0x2FFE000, 4096)])
    = Some (Inr (locator_item_new 0x700000000000 4096), s', (0x100004, [(0x700000000000, 4096), (0x2FFE000, 4096)]))"
  by (rule private_retries; use private_regions in simp)+

lemma private_kernel: "linux_kernel private_linux paged_used"
proof -
  have "unat (t + 1) = unat t + 1" if "unat t < 2 ^ 60" for t :: usize
    using that by (subst unat_add_small) simp_all
  then have "files_keep private_linux paged_used"
    by (auto simp: files_keep_def private_linux_def paged_linux_def sample_linux_def paged_used_def)
  moreover have "mmap_fresh private_linux paged_used" "munmap_exact private_linux paged_used"
    using paged_kernel by (simp_all add: linux_kernel_def mmap_fresh_def munmap_exact_def private_linux_def)
  ultimately show ?thesis by (simp add: linux_kernel_def)
qed

lemma private_system: "sane_page (pl_sys private_platform)" "honest_os private_platform" "fresh_memory private_platform paged_used"
proof -
  have "sane_sys (sample_sys 4096)" by (rule sample_sane)
  then show "fresh_memory private_platform paged_used"
    unfolding fresh_memory_def using linux_allocate_fresh(2) [OF _ _ _, of private_platform paged_used]
    by (auto simp: private_sel private_kernel)
qed (simp_all add: private_sel sample_page honest_os_def)

text \<open>A thread that waited for another one: both make a header.\<close>

lemma private_finds:
  assumes al: "\<exists>s'. allocate private_platform private_request (w_os (lib_world (wait lib))) = Some (Inr (locator_item_new a 4096), s', st)"
    and "lib_header_address lib = 0" "\<And>k. length (lh_items (w_headers (lib_world (wait lib)) k)) = 203"
    and "a \<noteq> 0" "block_in (paged_used st) a 4096"
  obtains lib' where "find_header private_platform wait lib = Some (a, lib')" "w_os (lib_world lib') = st"
proof -
  let ?w = "put_os st (lib_world (wait lib))"
  obtain w' where w': "initialize private_platform a 4096 ?w = Some w'" "w_machine w' = w_machine ?w"
    by (rule first_header_ok [where w = ?w and a = a and used = paged_used and pl = private_platform])
      (use assms in \<open>simp_all add: private_sel sample_page sample_granularity\<close>)
  from al obtain s' where "allocate private_platform private_request (w_os (lib_world (wait lib)))
      = Some (Inr (locator_item_new a 4096), s', st)" by blast
  note this [unfolded private_request_def, simplified]
  with w' have "find_header private_platform wait lib
      = Some (a, (wait lib)\<lparr>lib_header_address := a, lib_world := w'\<rparr>)"
    by (simp add: find_private [OF private_sel(5) assms(2)] init_locatorheader_memorymappedfiles_unsupported_def Let_def
        private_sel locator_item_new_def)
  with w'(2) show thesis by (intro that) auto
qed


section \<open>Windows\<close>


text \<open>A Windows where every mapping fails.\<close>

definition refusing_windows :: "usize platform" where
  "refusing_windows = (sample_platform 0x10000)\<lparr>pl_target := \<lparr>tgt_os = Windows, tgt_arch = X86_64\<rparr>,
     pl_file_mapping := sample_file_mapping\<lparr>CreateFileMappingA := (\<lambda>n p st. (0, st)), MapViewOfFile := (\<lambda>h n st. (0, st))\<rparr>\<rparr>"


end
