(* ===== verification/Chain_Threads.thy ===== *)
theory Chain_Threads
  imports Interleaving
begin

text \<open>
  Threads that walk along the chain of headers at the same time: \<open>get_buffer_recursive\<close> over the steps
  of one header, and \<open>get_next_locator\<close> cut into the steps between which another thread can run.
\<close>

section \<open>Steps\<close>

text \<open>
  Where a thread is in \<open>get_next_locator\<close>: before the first test of the link, waiting for the lock, before
  the second test, before the heap allocation, about to link the new block, about to set its default
  values (\<open>set_default_values\<close>), about to register what remains of it
  (\<open>initialize_remaining_space_as_buffers\<close>), about to unlock with a link or with an error, and about to read the link it returns.
\<close>

datatype link_pc =
    Testing
  | Waiting
  | Retesting
  | Reserving
  | Linking usize
  | Resetting usize
  | Filling usize
  | Releasing
  | Refusing
  | Reading

text \<open>
  A thread is outside the library, at a step of the search of the header \<open>h\<close> for the request \<open>q\<close>
  (\<open>Idle\<close>: about to look at it), or looking for the successor of \<open>h\<close>.
\<close>

datatype walk =
    Outside
  | At usize buffer_search_settings pc
  | Next usize buffer_search_settings link_pc

text \<open>The headers in memory, and the addresses that are in use as headers.\<close>

record chain =
  ch_headers :: "usize \<Rightarrow> locator_header"
  ch_used :: "usize set"

abbreviation put_chain :: "usize \<Rightarrow> locator_header \<Rightarrow> chain \<Rightarrow> chain" where
  "put_chain h hdr c \<equiv> c\<lparr>ch_headers := (ch_headers c)(h := hdr)\<rparr>"

text \<open>
  \<open>len\<close> is the size of a heap allocation (the granularity of the system), \<open>h0\<close> the first header.  The
  targets are those whose remaining space becomes buffers.  A header is initialized in two steps: a
  coarse grain, which allows fewer interleavings than the code.
\<close>

inductive walk_step :: "build \<Rightarrow> usize \<Rightarrow> usize \<Rightarrow> chain \<Rightarrow> walk \<Rightarrow> chain \<Rightarrow> walk \<Rightarrow> bool" for b len h0 where
  begin_search: "walk_step b len h0 c Outside c (At h0 q Idle)"
| look: "thread_step b (ch_headers c h) Idle hdr' p' \<Longrightarrow> p' = Scan q 0 (unat (lh_num_items (ch_headers c h))) \<Longrightarrow>
    walk_step b len h0 c (At h q Idle) (put_chain h hdr' c) (At h q p')"
| in_header: "thread_step b (ch_headers c h) p hdr' p' \<Longrightarrow> p \<noteq> Idle \<Longrightarrow> p' \<noteq> Idle \<Longrightarrow>
    walk_step b len h0 c (At h q p) (put_chain h hdr' c) (At h q p')"
| drop_item: "thread_step b (ch_headers c h) p hdr' Idle \<Longrightarrow>
    walk_step b len h0 c (At h q p) (put_chain h hdr' c) Outside"
| give_up: "walk_step b len h0 c (At h q (Failed CannotAllocateMemory)) c Outside"
| go_on: "walk_step b len h0 c (At h q (Failed NoSpaceInHeader)) c (Next h q Testing)"
| present: "has_next_locator (ch_headers c h) \<Longrightarrow> walk_step b len h0 c (Next h q Testing) c (Next h q Reading)"
| absent: "\<not> has_next_locator (ch_headers c h) \<Longrightarrow> walk_step b len h0 c (Next h q Testing) c (Next h q Waiting)"
| lock_ok: "header_try_lock (ch_headers c h) = (True, hdr') \<Longrightarrow>
    walk_step b len h0 c (Next h q Waiting) (put_chain h hdr' c) (Next h q Retesting)"
| lock_fail: "header_try_lock (ch_headers c h) = (False, hdr') \<Longrightarrow>
    walk_step b len h0 c (Next h q Waiting) (put_chain h hdr' c) (Next h q Waiting)"
| appeared: "has_next_locator (ch_headers c h) \<Longrightarrow> walk_step b len h0 c (Next h q Retesting) c (Next h q Releasing)"
| still_absent: "\<not> has_next_locator (ch_headers c h) \<Longrightarrow>
    walk_step b len h0 c (Next h q Retesting) c (Next h q Reserving)"
| reserve: "a \<noteq> 0 \<Longrightarrow> a \<notin> ch_used c \<Longrightarrow> unat a + unat len < 2 ^ 64 \<Longrightarrow>
    walk_step b len h0 c (Next h q Reserving) (c\<lparr>ch_used := insert a (ch_used c)\<rparr>) (Next h q (Linking a))"
| no_memory: "walk_step b len h0 c (Next h q Reserving) c (Next h q Refusing)"
| link: "walk_step b len h0 c (Next h q (Linking a))
    (put_chain h ((ch_headers c h)\<lparr>lh_next_locator_ptr := a\<rparr>) c) (Next h q (Resetting a))"
| reset: "walk_step b len h0 c (Next h q (Resetting a))
    (put_chain a (set_default_values a (ch_headers c a)) c) (Next h q (Filling a))"
| fill: "wsub b len HEADER_LENGTH = Some remaining \<Longrightarrow>
    initialize_remaining_space_as_buffers b (ch_headers c a) (ucast remaining) = Some hdr' \<Longrightarrow>
    walk_step b len h0 c (Next h q (Filling a)) (put_chain a hdr' c) (Next h q Releasing)"
| release: "header_unlock b (ch_headers c h) = Some hdr' \<Longrightarrow>
    walk_step b len h0 c (Next h q Releasing) (put_chain h hdr' c) (Next h q Reading)"
| refuse: "header_unlock b (ch_headers c h) = Some hdr' \<Longrightarrow>
    walk_step b len h0 c (Next h q Refusing) (put_chain h hdr' c) Outside"
| follow: "walk_step b len h0 c (Next h q Reading) c (At (lh_next_locator_ptr (ch_headers c h)) q Idle)"

text \<open>The header a thread is making: it has the block, and has not finished its initialization.\<close>

fun makes :: "walk \<Rightarrow> usize option" where
  "makes (Next h q (Linking a)) = Some a"
| "makes (Next h q (Resetting a)) = Some a"
| "makes (Next h q (Filling a)) = Some a"
| "makes _ = None"

text \<open>
  Any thread may take the next step.  In an \<open>ordered\<close> execution none looks at a header that is being
  made; the code does not enforce this, since the header is linked before it is initialized.
\<close>

inductive walks ::
  "bool \<Rightarrow> build \<Rightarrow> usize \<Rightarrow> usize \<Rightarrow> chain \<Rightarrow> chain \<Rightarrow> (nat \<Rightarrow> walk) \<Rightarrow> bool" for ordered b len h0 c0 where
  start: "walks ordered b len h0 c0 c0 (\<lambda>_. Outside)"
| go: "walks ordered b len h0 c0 c W \<Longrightarrow> walk_step b len h0 c (W t) c' w' \<Longrightarrow>
    (\<And>h q u. ordered \<Longrightarrow> W t = At h q Idle \<Longrightarrow> makes (W u) \<noteq> Some h) \<Longrightarrow>
    walks ordered b len h0 c0 c' (W(t := w'))"

section \<open>One header of the chain\<close>

text \<open>What a thread is doing as seen from the header \<open>x\<close>: while it has the lock for its link, it is inside the lock.\<close>

fun link_local :: "buffer_search_settings \<Rightarrow> link_pc \<Rightarrow> pc" where
  "link_local q Testing = Idle"
| "link_local q Reading = Idle"
| "link_local q Waiting = Spinning q"
| "link_local q _ = Recheck q"

fun local :: "usize \<Rightarrow> walk \<Rightarrow> pc" where
  "local x Outside = Idle"
| "local x (At h q p) = (if h = x then p else Idle)"
| "local x (Next h q l) = (if h = x then link_local q l else Idle)"

abbreviation locals :: "usize \<Rightarrow> (nat \<Rightarrow> walk) \<Rightarrow> nat \<Rightarrow> pc" where
  "locals x W \<equiv> \<lambda>t. local x (W t)"

lemma locals_upd: "locals x (W(t := w)) = (locals x W)(t := local x w)"
  by auto

text \<open>The header a thread works on.\<close>

fun header_of :: "walk \<Rightarrow> usize option" where
  "header_of Outside = None"
| "header_of (At h q p) = (if p = Idle then None else Some h)"
| "header_of (Next h q l) = Some h"

fun target_of :: "walk \<Rightarrow> usize option" where
  "target_of (At h q Idle) = Some h"
| "target_of _ = None"

text \<open>Nobody is making the header.\<close>

definition made :: "(nat \<Rightarrow> walk) \<Rightarrow> usize \<Rightarrow> bool" where
  "made W x \<longleftrightarrow> (\<forall>t. makes (W t) \<noteq> Some x)"

text \<open>What a thread relies on: its default values are still there, the link it will follow is set.\<close>

fun walk_ok :: "(usize \<Rightarrow> locator_header) \<Rightarrow> walk \<Rightarrow> bool" where
  "walk_ok H (Next h q (Filling a)) = (h \<noteq> a \<and> has_next_locator (H h) \<and> (\<exists>hdr. H a = set_default_values a hdr))"
| "walk_ok H (Next h q (Resetting a)) = (h \<noteq> a \<and> has_next_locator (H h))"
| "walk_ok H (Next h q (Linking a)) = (h \<noteq> a \<and> a \<noteq> 0)"
| "walk_ok H (Next h q Releasing) = has_next_locator (H h)"
| "walk_ok H (Next h q Reading) = has_next_locator (H h)"
| "walk_ok H _ = True"

text \<open>
  Every finished header satisfies the invariant of its threads and links to a header; a header that is
  being made has one maker; threads work on finished headers, and are sent to headers.
\<close>

definition chain_inv :: "usize \<Rightarrow> usize \<Rightarrow> chain \<Rightarrow> (nat \<Rightarrow> walk) \<Rightarrow> bool" where
  "chain_inv len h0 c W \<longleftrightarrow>
     h0 \<in> ch_used c \<and> made W h0 \<and> 0 \<notin> ch_used c \<and>
     (\<forall>a. length (lh_items (ch_headers c a)) = 203) \<and>
     (\<forall>x \<in> ch_used c. made W x \<longrightarrow> threads_ok (ch_headers c x) (locals x W) \<and>
        (has_next_locator (ch_headers c x) \<longrightarrow> lh_next_locator_ptr (ch_headers c x) \<in> ch_used c)) \<and>
     (\<forall>t u a. makes (W t) = Some a \<longrightarrow> makes (W u) = Some a \<longrightarrow> t = u) \<and>
     (\<forall>t a. makes (W t) = Some a \<longrightarrow> a \<in> ch_used c \<and> unat a + unat len < 2 ^ 64) \<and>
     (\<forall>t. walk_ok (ch_headers c) (W t)) \<and>
     (\<forall>t h. target_of (W t) = Some h \<longrightarrow> h \<in> ch_used c) \<and>
     (\<forall>t h. header_of (W t) = Some h \<longrightarrow> h \<in> ch_used c \<and> made W h)"

lemma chain_invD:
  assumes "chain_inv len h0 c W"
  shows "h0 \<in> ch_used c" "made W h0" "0 \<notin> ch_used c"
    and "length (lh_items (ch_headers c a)) = 203"
    and "x \<in> ch_used c \<Longrightarrow> made W x \<Longrightarrow> threads_ok (ch_headers c x) (locals x W)"
    and "x \<in> ch_used c \<Longrightarrow> made W x \<Longrightarrow> has_next_locator (ch_headers c x) \<Longrightarrow>
      lh_next_locator_ptr (ch_headers c x) \<in> ch_used c"
    and "makes (W t) = Some a \<Longrightarrow> makes (W u) = Some a \<Longrightarrow> t = u"
    and "makes (W t) = Some a \<Longrightarrow> a \<in> ch_used c" "makes (W t) = Some a \<Longrightarrow> unat a + unat len < 2 ^ 64"
    and "walk_ok (ch_headers c) (W t)"
    and "target_of (W t) = Some h \<Longrightarrow> h \<in> ch_used c"
    and "header_of (W t) = Some h \<Longrightarrow> h \<in> ch_used c" "header_of (W t) = Some h \<Longrightarrow> made W h"
  using assms unfolding chain_inv_def by blast+

lemma made_upd: "makes w' = makes (W t) \<Longrightarrow> made (W(t := w')) = made W"
  unfolding made_def by (intro ext) auto

lemma made_new:
  assumes "makes (W t) = None" "makes w = Some a"
  shows "made (W(t := w)) x \<longleftrightarrow> made W x \<and> x \<noteq> a"
proof
  assume new: "made (W(t := w)) x"
  have "makes (W u) \<noteq> Some x" for u
    using new [unfolded made_def, rule_format, of u] assms(1) by (cases "u = t") simp_all
  moreover have "x \<noteq> a" using new [unfolded made_def, rule_format, of t] assms(2) by simp
  ultimately show "made W x \<and> x \<noteq> a" by (simp add: made_def)
qed (use assms in \<open>auto simp: made_def\<close>)

text \<open>A write to one header does not disturb what the other threads rely on.\<close>

lemma walk_ok_frame:
  assumes "walk_ok H w" and "makes w \<noteq> Some y"
    and "header_of w = Some y \<Longrightarrow> has_next_locator (H y) \<Longrightarrow> has_next_locator hdr"
  shows "walk_ok (H(y := hdr)) w"
  using assms by (cases "(H, w)" rule: walk_ok.cases) auto

text \<open>A step that writes one header, finished or its own, and neither starts nor finishes one.\<close>

lemma chain_inv_write:
  assumes inv: "chain_inv len h0 c W"
    and y: "y \<in> ch_used c" "made W y \<or> makes (W t) = Some y"
    and slots: "length (lh_items hdr) = 203" and mine: "makes w' = makes (W t)"
    and here: "made W y \<Longrightarrow> threads_ok hdr ((locals y W)(t := local y w'))"
      "made W y \<Longrightarrow> has_next_locator hdr \<Longrightarrow> lh_next_locator_ptr hdr \<in> ch_used c"
      "made W y \<Longrightarrow> has_next_locator (ch_headers c y) \<Longrightarrow> has_next_locator hdr"
    and there: "\<And>x. x \<noteq> y \<Longrightarrow> local x w' = local x (W t)"
    and ok: "walk_ok ((ch_headers c)(y := hdr)) w'"
    and tgt: "\<And>h. target_of w' = Some h \<Longrightarrow> h \<in> ch_used c"
    and hdr: "\<And>h. header_of w' = Some h \<Longrightarrow> h \<in> ch_used c \<and> made W h"
  shows "chain_inv len h0 (put_chain y hdr c) (W(t := w'))"
proof -
  note d = chain_invD [OF inv] and m = made_upd [of w' W t, OF mine]
  have other: "walk_ok ((ch_headers c)(y := hdr)) (W u)" if "u \<noteq> t" for u
  proof (rule walk_ok_frame [OF d(10)])
    show "makes (W u) \<noteq> Some y" using y(2) d(7) [of u y t] that by (auto simp: made_def)
    show "has_next_locator hdr" if "header_of (W u) = Some y" "has_next_locator (ch_headers c y)"
      using here(3) d(13) [OF that(1)] that(2) by blast
  qed
  have same: "(locals x W)(t := local x w') = locals x W" if "x \<noteq> y" for x
    using there [OF that] by auto
  show ?thesis
    unfolding chain_inv_def m locals_upd
  proof (intro conjI allI ballI impI, goal_cases)
    case (5 x) then show ?case using here(1) d(5) [of x] same [of x] by (cases "x = y") auto
  next
    case (6 x) then show ?case using here(2) d(6) [of x] by (cases "x = y") auto
  next
    case (7 u v a) then show ?case using d(7) [of u a v] d(7) [of t a v] d(7) [of u a t] mine
      by (cases "u = t"; cases "v = t") auto
  next
    case (8 u a) then show ?case using d(8) mine by (auto split: if_splits)
  next
    case (9 u a) then show ?case using d(9) mine by (auto split: if_splits)
  next
    case (10 u) then show ?case using ok other by simp
  next
    case (11 u h) then show ?case using tgt d(11) by (auto split: if_splits)
  next
    case (12 u h) then show ?case using hdr d(12) by (auto split: if_splits)
  next
    case (13 u h) then show ?case using hdr d(13) by (auto split: if_splits)
  qed (use d(1-4) slots in auto)
qed

lemma put_chain_same: "put_chain y (ch_headers c y) c = c"
  by simp

section \<open>The steps keep the invariant\<close>

lemma step_keeps_link: "thread_step b hdr p hdr' p' \<Longrightarrow> lh_next_locator_ptr hdr' = lh_next_locator_ptr hdr"
  by (cases rule: thread_step.cases)
    (auto simp: header_try_lock_def header_unlock_def Let_def split: if_splits)

lemma threads_ok_slots: "threads_ok hdr T \<Longrightarrow> length (lh_items hdr) = 203"
  by (simp add: threads_ok_def wf_header_def)

lemma threads_ok_link [simp]: "threads_ok (hdr\<lparr>lh_next_locator_ptr := a\<rparr>) T = threads_ok hdr T"
  by (simp add: threads_ok_def wf_header_def)

lemma threads_ok_release:
  assumes ok: "threads_ok hdr T" and "critical (T t)" and "header_unlock b hdr = Some hdr'"
  shows "threads_ok hdr' (T(t := Idle))"
proof -
  have "hdr' = hdr\<lparr>lh_is_locked := 0\<rparr>" and "wf_header hdr"
    using assms by (auto simp: header_unlock_def threads_ok_def Let_def split: if_splits)
  then show ?thesis using assms(2) by (intro threads_okI [OF ok]) auto
qed

lemma threads_ok_fresh:
  assumes "unat len \<le> 4096 + 203 * 16384" "length items = 203" "unat h + max (unat len) 4096 < 2 ^ 64"
  shows "threads_ok (fresh_header h (unat len) items) (\<lambda>_. Idle)"
  using wf_fresh_header [OF assms] by (simp add: threads_ok_def fresh_header_def)

text \<open>A step inside a header.\<close>

lemma chain_inv_local:
  assumes inv: "chain_inv len h0 c W" and t: "W t = At h q p" and step: "thread_step b (ch_headers c h) p hdr' p'"
    and h: "p = Idle \<Longrightarrow> made W h" and w': "w' = At h q p' \<and> p' \<noteq> Idle \<or> w' = Outside \<and> p' = Idle"
  shows "chain_inv len h0 (put_chain h hdr' c) (W(t := w'))"
proof -
  note d = chain_invD [OF inv]
  have h: "h \<in> ch_used c" "made W h"
    using d(11) [of t h] d(12,13) [of t h] t h by (cases "p = Idle"; simp)+
  have "local h (W t) = p" using t by simp
  then have ok: "threads_ok hdr' ((locals h W)(t := p'))"
    using threads_ok_step [OF d(5) [OF h], of b t] step by simp
  note link = step_keeps_link [OF step]
  show ?thesis
  proof (rule chain_inv_write [OF inv h(1) disjI1 [OF h(2)] threads_ok_slots [OF ok]])
    show "threads_ok hdr' ((locals h W)(t := local h w'))" using ok w' by auto
    show "has_next_locator hdr' \<Longrightarrow> lh_next_locator_ptr hdr' \<in> ch_used c"
      using d(6) [OF h] link by (simp add: has_next_locator_def)
    show "has_next_locator (ch_headers c h) \<Longrightarrow> has_next_locator hdr'" using link by (simp add: has_next_locator_def)
    show "\<And>k. target_of w' = Some k \<Longrightarrow> k \<in> ch_used c" using w' by (cases p') auto
  qed (use t w' h in \<open>auto split: if_splits\<close>)
qed

text \<open>A step of \<open>get_next_locator\<close> that writes only the lock of its header, or nothing.\<close>

lemma chain_inv_link:
  assumes inv: "chain_inv len h0 c W" and t: "header_of (W t) = Some h" "makes (W t) = None"
    and ok: "threads_ok hdr' ((locals h W)(t := local h w'))" and link: "lh_next_locator_ptr hdr' = lh_next_locator_ptr (ch_headers c h)"
    and w': "w' = Outside \<or> w' = Next h q l \<and> makes w' = None \<and> (l = Releasing \<or> l = Reading \<longrightarrow> has_next_locator (ch_headers c h))"
  shows "chain_inv len h0 (put_chain h hdr' c) (W(t := w'))"
proof -
  note d = chain_invD [OF inv]
  have h: "h \<in> ch_used c" "made W h" using d(12,13) [of t h] t by auto
  have n: "has_next_locator hdr' = has_next_locator (ch_headers c h)" using link by (simp add: has_next_locator_def)
  show ?thesis
  proof (rule chain_inv_write [OF inv h(1) disjI1 [OF h(2)] threads_ok_slots [OF ok]])
    show "local x w' = local x (W t)" if "x \<noteq> h" for x using w' t that by (cases "W t") (auto split: if_splits)
    show "walk_ok ((ch_headers c)(h := hdr')) w'" using w' n by (cases l) auto
  qed (use t w' h ok d(6) [OF h] link n in auto)
qed

text \<open>The two steps that start and finish a header.\<close>

lemma chain_invI:
  assumes "h0 \<in> ch_used c" "made W h0" "0 \<notin> ch_used c"
    and "\<And>a. length (lh_items (ch_headers c a)) = 203"
    and "\<And>x. x \<in> ch_used c \<Longrightarrow> made W x \<Longrightarrow> threads_ok (ch_headers c x) (locals x W)"
    and "\<And>x. x \<in> ch_used c \<Longrightarrow> made W x \<Longrightarrow> has_next_locator (ch_headers c x) \<Longrightarrow>
      lh_next_locator_ptr (ch_headers c x) \<in> ch_used c"
    and "\<And>t u a. makes (W t) = Some a \<Longrightarrow> makes (W u) = Some a \<Longrightarrow> t = u"
    and "\<And>t a. makes (W t) = Some a \<Longrightarrow> a \<in> ch_used c \<and> unat a + unat len < 2 ^ 64"
    and "\<And>t. walk_ok (ch_headers c) (W t)"
    and "\<And>t h. target_of (W t) = Some h \<Longrightarrow> h \<in> ch_used c"
    and "\<And>t h. header_of (W t) = Some h \<Longrightarrow> h \<in> ch_used c \<and> made W h"
  shows "chain_inv len h0 c W"
  unfolding chain_inv_def using assms by blast

lemma chain_inv_reserve:
  assumes inv: "chain_inv len h0 c W" and t: "W t = Next h q Reserving"
    and a: "a \<noteq> 0" "a \<notin> ch_used c" "unat a + unat len < 2 ^ 64"
  shows "chain_inv len h0 (c\<lparr>ch_used := insert a (ch_used c)\<rparr>) (W(t := Next h q (Linking a)))"
proof -
  note d = chain_invD [OF inv]
  let ?W = "W(t := Next h q (Linking a))"
  have h: "h \<in> ch_used c" "made W h" using d(12,13) [of t h] t by auto
  have m: "made ?W x \<longleftrightarrow> made W x \<and> x \<noteq> a" for x using made_new [of W t "Next h q (Linking a)" a x] t by simp
  have l: "locals x ?W = locals x W" for x using t by (intro ext) simp
  have na: "makes (W u) \<noteq> Some a" for u using d(8) [of u a] a(2) by blast
  show ?thesis
  proof (rule chain_invI, unfold m l, goal_cases)
    case (7 u v x)
    then show ?case using d(7) [of u x v] na by (cases "u = t"; cases "v = t") auto
  next
    case (8 u x)
    then show ?case using d(8,9) [of u x] a by (cases "u = t") auto
  next
    case (9 u)
    have "h \<noteq> a" using h a(2) by blast
    then show ?case using d(10) [of u] a(1) by (cases "u = t") auto
  next
    case (10 u x)
    then show ?case using d(11) [of u x] by (cases "u = t") auto
  next
    case (11 u x)
    then show ?case using d(12,13) [of u x] h a(2) by (cases "u = t") auto
  next
    case (5 x)
    then show ?case using d(5) [of x] by auto
  next
    case (6 x)
    then show ?case using d(6) [of x] by auto
  qed (use d(1-4) a(1,2) in auto)
qed

lemma chain_inv_fill:
  assumes inv: "chain_inv len h0 c W" and t: "W t = Next h q (Filling a)"
    and len: "4096 \<le> unat len" "unat len \<le> 4096 + 202 * 16384"
    and step: "wsub b len HEADER_LENGTH = Some remaining"
      "initialize_remaining_space_as_buffers b (ch_headers c a) (ucast remaining) = Some hdr'"
  shows "chain_inv len h0 (put_chain a hdr' c) (W(t := Next h q Releasing))"
proof -
  note d = chain_invD [OF inv]
  let ?W = "W(t := Next h q Releasing)"
  have h: "h \<in> ch_used c" "made W h" "h \<noteq> a" "has_next_locator (ch_headers c h)"
    using d(12,13) [of t h] d(10) [of t] t by auto
  have a: "makes (W t) = Some a" "a \<in> ch_used c" "unat a + unat len < 2 ^ 64" using t d(8,9) [of t a] by auto
  obtain hdr where dflt: "ch_headers c a = set_default_values a hdr" using d(10) [of t] t by auto
  then have items: "length (lh_items hdr) = 203" using d(4) [of a] by (simp add: set_default_values_def)
  have hdr': "hdr' = fresh_header a (unat len) (lh_items hdr)"
    using buffers_default(1) [OF len(1) _ items, of b] buffers_default(2) [OF len(1) _ items, of b a] step dflt len(2)
    by simp
  have fresh: "threads_ok hdr' (\<lambda>_. Idle)"
    unfolding hdr' using len a(3) items by (intro threads_ok_fresh) simp_all
  have far: "header_of (W u) \<noteq> Some a" for u using d(13) [of u a] a(1) unfolding made_def by metis
  have idle: "local a (W u) = Idle" for u using far [of u] by (cases "W u") (auto split: if_splits)
  have m: "made ?W x \<longleftrightarrow> made W x \<or> x = a" for x
    using d(7) [OF a(1)] t by (auto simp: made_def split: if_splits) (metis option.inject makes.simps(3))
  have l: "locals x ?W = locals x W" for x using t by (intro ext) simp
  show ?thesis
  proof (rule chain_invI, unfold m l, goal_cases)
    case (5 x)
    then show ?case using d(5) [of x] fresh idle by (cases "x = a") simp_all
  next
    case (6 x)
    then show ?case using d(6) [of x] by (cases "x = a") (auto simp: hdr' fresh_header_def has_next_locator_def)
  next
    case (7 u v x)
    then show ?case using d(7) [of u x v] by (cases "u = t"; cases "v = t") auto
  next
    case (8 u x)
    then show ?case using d(8,9) [of u x] by (cases "u = t") auto
  next
    case (9 u)
    have "makes (W u) \<noteq> Some a" if "u \<noteq> t" using d(7) [OF a(1), of u] that by blast
    then show ?case using far walk_ok_frame [OF d(10) [of u], of a hdr'] h by (cases "u = t") auto
  next
    case (10 u x)
    then show ?case using d(11) [of u x] by (cases "u = t") auto
  next
    case (11 u x)
    then show ?case using d(12,13) [of u x] h by (cases "u = t") auto
  qed (use d(1-4) threads_ok_slots [OF fresh] in auto)
qed

text \<open>A step that writes nothing, by a thread at the header \<open>y\<close> or outside.\<close>

lemma chain_inv_quiet:
  assumes inv: "chain_inv len h0 c W" and y: "y \<in> ch_used c" "made W y"
    and mine: "makes (W t) = None" "makes w' = None"
    and there: "\<And>x. x \<noteq> y \<Longrightarrow> local x w' = local x (W t)"
    and here: "slot_of (local y w') = None" "critical (local y w') = critical (local y (W t))"
      "\<And>n items. thread_ok n items (local y w')"
    and ok: "walk_ok (ch_headers c) w'"
    and tgt: "\<And>h. target_of w' = Some h \<Longrightarrow> h \<in> ch_used c"
    and hdr: "\<And>h. header_of w' = Some h \<Longrightarrow> h \<in> ch_used c \<and> made W h"
  shows "chain_inv len h0 c (W(t := w'))"
proof -
  note d = chain_invD [OF inv]
  have "threads_ok (ch_headers c y) ((locals y W)(t := local y w'))"
    using here by (intro threads_ok_quiet [OF d(5) [OF y]])
  then have "chain_inv len h0 (put_chain y (ch_headers c y) c) (W(t := w'))"
    using there ok tgt hdr mine y d(4,6)
    by (intro chain_inv_write [OF inv y(1) disjI1 [OF y(2)]]) auto
  then show ?thesis by (simp only: put_chain_same)
qed

text \<open>The steps that link a header under construction and give it its default values.\<close>

lemma chain_here:
  assumes inv: "chain_inv len h0 c W" and "header_of (W t) = Some h"
  shows "h \<in> ch_used c" "made W h" "threads_ok (ch_headers c h) (locals h W)"
  using chain_invD(5,12,13) [OF inv] assms(2) by blast+

lemma chain_inv_publish:
  assumes inv: "chain_inv len h0 c W" and t: "W t = Next h q (Linking a)"
  shows "chain_inv len h0 (put_chain h ((ch_headers c h)\<lparr>lh_next_locator_ptr := a\<rparr>) c) (W(t := Next h q (Resetting a)))"
proof -
  note d = chain_invD [OF inv]
  have "h \<in> ch_used c" "made W h" "threads_ok (ch_headers c h) (locals h W)" "a \<in> ch_used c" "a \<noteq> 0" "h \<noteq> a"
    using chain_here [OF inv, of t h] d(8) [of t a] d(10) [of t] t by auto
  moreover have "(locals h W)(t := Recheck q) = locals h W" using t by (intro ext) simp
  ultimately show ?thesis
    using t d(4) by (intro chain_inv_write [OF inv]) (auto simp: has_next_locator_def)
qed

lemma chain_inv_reset:
  assumes inv: "chain_inv len h0 c W" and t: "W t = Next h q (Resetting a)"
  shows "chain_inv len h0 (put_chain a (set_default_values a (ch_headers c a)) c) (W(t := Next h q (Filling a)))"
proof -
  note d = chain_invD [OF inv]
  have h: "h \<in> ch_used c" "made W h" "a \<in> ch_used c" "makes (W t) = Some a" "h \<noteq> a"
    "has_next_locator (ch_headers c h)"
    using chain_here [OF inv, of t h] d(8) [of t a] d(10) [of t] t by auto
  then have "\<not> made W a" unfolding made_def by blast
  with h show ?thesis
    using t d(4) by (intro chain_inv_write [OF inv]) (auto simp: set_default_values_def)
qed

text \<open>The steps on the lock of a header for its link.\<close>

lemma chain_inv_lock_next:
  assumes inv: "chain_inv len h0 c W" and t: "W t = Next h q Waiting"
    and lock: "header_try_lock (ch_headers c h) = (True, hdr')"
  shows "chain_inv len h0 (put_chain h hdr' c) (W(t := Next h q Retesting))"
proof (rule chain_inv_link [OF inv, where h = h])
  have "threads_ok (ch_headers c h) (locals h W)" using chain_here(3) [OF inv, of t h] t by simp
  from threads_ok_step [OF this, of b t hdr' "Recheck q"] spin_ok [OF lock] t
  show "threads_ok hdr' ((locals h W)(t := local h (Next h q Retesting)))" by simp
qed (use t lock in \<open>auto simp: header_try_lock_def split: if_splits\<close>)

lemma chain_inv_unlock_next:
  assumes inv: "chain_inv len h0 c W" and t: "W t = Next h q l" "l = Releasing \<and> w' = Next h q Reading \<or> l = Refusing \<and> w' = Outside"
    and unlock: "header_unlock b (ch_headers c h) = Some hdr'"
  shows "chain_inv len h0 (put_chain h hdr' c) (W(t := w'))"
proof (rule chain_inv_link [OF inv, where h = h])
  have "threads_ok (ch_headers c h) (locals h W)" using chain_here(3) [OF inv, of t h] t by simp
  from threads_ok_release [OF this _ unlock, of t] t
  show "threads_ok hdr' ((locals h W)(t := local h w'))" by auto
qed (use t unlock chain_invD(10) [OF inv, of t] in \<open>auto simp: header_unlock_def Let_def split: if_splits\<close>)

lemma chain_inv_step:
  assumes inv: "chain_inv len h0 c W" and len: "4096 \<le> unat len" "unat len \<le> 4096 + 202 * 16384"
    and ordered: "\<And>h q u. W t = At h q Idle \<Longrightarrow> makes (W u) \<noteq> Some h"
    and step: "walk_step b len h0 c (W t) c' w'"
  shows "chain_inv len h0 c' (W(t := w'))"
proof -
  note d = chain_invD [OF inv] and here = chain_here [OF inv, of t]
  note quiet = chain_inv_quiet [OF inv]
  show ?thesis
    using step
  proof cases
    case begin_search
    then show ?thesis using d(1,2) by (auto intro!: quiet)
  next
    case (look h hdr' p' q)
    with ordered show ?thesis by (auto intro!: chain_inv_local [OF inv] simp: made_def)
  next
    case (drop_item h p hdr' q)
    then show ?thesis by (auto intro!: chain_inv_local [OF inv] simp: idle_step)
  next
    case (lock_fail h hdr' q)
    then have "hdr' = ch_headers c h" by (simp add: header_try_lock_def split: if_splits)
    with lock_fail show ?thesis by (simp add: fun_upd_idem inv)
  next
    case (follow h q)
    then show ?thesis using here [of h] d(6) [of h] d(10) [of t] by (auto intro!: quiet)
  next
    case (in_header h p hdr' p' q)
    then show ?thesis by (auto intro!: chain_inv_local [OF inv])
  next
    case (reserve a h q)
    then show ?thesis by (auto intro!: chain_inv_reserve [OF inv])
  next
    case (fill remaining a hdr' h q)
    then show ?thesis by (auto intro!: chain_inv_fill [OF inv _ len])
  next
    case (link h q a)
    then show ?thesis by (auto intro!: chain_inv_publish [OF inv])
  next
    case (reset h q a)
    then show ?thesis by (auto intro!: chain_inv_reset [OF inv])
  next
    case (lock_ok h hdr' q)
    then show ?thesis by (auto intro!: chain_inv_lock_next [OF inv])
  next
    case (release h hdr' q)
    then show ?thesis by (auto intro!: chain_inv_unlock_next [OF inv])
  next
    case (refuse h hdr' q)
    then show ?thesis by (auto intro!: chain_inv_unlock_next [OF inv])
  qed (use here in \<open>auto intro!: quiet\<close>)
qed

lemma chain_inv_start:
  assumes "h0 \<in> ch_used c" "0 \<notin> ch_used c" "\<And>a. length (lh_items (ch_headers c a)) = 203"
    and "\<And>x. x \<in> ch_used c \<Longrightarrow> wf_header (ch_headers c x) \<and> lh_is_locked (ch_headers c x) = 0 \<and>
      (has_next_locator (ch_headers c x) \<longrightarrow> lh_next_locator_ptr (ch_headers c x) \<in> ch_used c)"
  shows "chain_inv len h0 c (\<lambda>_. Outside)"
  by (rule chain_invI) (use assms in \<open>auto simp: made_def threads_ok_def\<close>)

end
