(* ===== verification/Chain_Threads_Properties.thy ===== *)
theory Chain_Threads_Properties
  imports Chain_Threads Interleaving_Properties
begin

text \<open>
  What holds on the whole chain however its threads are interleaved, as long as no thread looks at a
  header that is being made; a trace on which one does; and the sequential walk as a run of one thread.
\<close>

section \<open>Facts about the steps\<close>

text \<open>A chain on which no thread is at work.\<close>

definition quiet_chain :: "usize \<Rightarrow> chain \<Rightarrow> bool" where
  "quiet_chain h0 c \<longleftrightarrow> h0 \<in> ch_used c \<and> 0 \<notin> ch_used c \<and> (\<forall>a. length (lh_items (ch_headers c a)) = 203) \<and>
     (\<forall>x \<in> ch_used c. wf_header (ch_headers c x) \<and> lh_is_locked (ch_headers c x) = 0 \<and>
       (has_next_locator (ch_headers c x) \<longrightarrow> lh_next_locator_ptr (ch_headers c x) \<in> ch_used c))"

lemma walks_inv:
  assumes "walks True b len h0 c0 c W" and "quiet_chain h0 c0" and "4096 \<le> unat len" "unat len \<le> 4096 + 202 * 16384"
  shows "chain_inv len h0 c W"
  using assms(1,2)
proof (induction rule: walks.induct)
  case start
  then show ?case by (intro chain_inv_start) (auto simp: quiet_chain_def)
next
  case (go c W t c' w')
  show ?case by (rule chain_inv_step [OF go.IH [OF go.prems] assms(3,4)]) (use go.hyps in blast)+
qed

text \<open>The item a thread has locked, and the header whose lock it is inside.\<close>

fun item_of :: "walk \<Rightarrow> item_ptr option" where
  "item_of (At h q p) = map_option (Item_Ptr h) (slot_of p)"
| "item_of _ = None"

fun inside :: "walk \<Rightarrow> usize option" where
  "inside Outside = None"
| "inside (At h q p) = (if critical p then Some h else None)"
| "inside (Next h q l) = (if critical (link_local q l) then Some h else None)"

abbreviation chain_item :: "chain \<Rightarrow> item_ptr \<Rightarrow> locator_item" where
  "chain_item c p \<equiv> lh_items (ch_headers c (ip_header p)) ! ip_index p"

lemma item_of_local:
  assumes "item_of w = Some p"
  shows "slot_of (local (ip_header p) w) = Some (ip_index p)" "header_of w = Some (ip_header p)"
  using assms by (cases w; force)+

lemma inside_local:
  assumes "inside w = Some h"
  shows "critical (local h w)" "header_of w = Some h"
  using assms by (cases w; force split: if_splits)+

lemma local_inside: "critical (local h w) \<Longrightarrow> inside w = Some h"
  by (cases w) (auto split: if_splits)

text \<open>The steps of one header that are not steps of the item search.\<close>

lemma walk_step_item:
  assumes step: "walk_step b len h0 c w c' w'" and "makes w \<noteq> Some h"
  shows "lh_items (ch_headers c' h) = lh_items (ch_headers c h) \<or>
    (\<exists>hdr'. thread_step b (ch_headers c h) (local h w) hdr' (local h w') \<and> ch_headers c' h = hdr')"
  using step
proof cases
  case (in_header k p hdr' p' q)
  then show ?thesis by (cases "k = h") auto
next
  case (drop_item k p hdr' q)
  then show ?thesis by (cases "k = h") auto
next
  case (look k hdr' p' q)
  then show ?thesis by (cases "k = h") auto
qed (use assms(2) in \<open>auto simp: header_try_lock_def header_unlock_def Let_def split: if_splits\<close>)

text \<open>No operation panics, overflows or writes out of bounds: every thread can go on.\<close>

lemma walk_can_step:
  assumes inv: "chain_inv len h0 c W" and len: "4096 \<le> unat len" "unat len \<le> 4096 + 202 * 16384"
  shows "\<exists>c' w'. walk_step b len h0 c (W t) c' w'"
proof (cases "W t")
  case (At h q p)
  show ?thesis
  proof (cases "p = Idle \<or> (\<exists>e. p = Failed e)")
    case True
    then show ?thesis
    proof (elim disjE exE)
      fix e assume "p = Failed e"
      with At show ?thesis by (cases e) (auto intro: give_up go_on)
    qed (use At enter [of b "ch_headers c h" q] in \<open>auto intro: look\<close>)
  next
    case False
    then have "header_of (W t) = Some h" using At by simp
    from thread_can_step [OF chain_here(3) [OF inv this], of t b] False At
    obtain hdr' p' where "thread_step b (ch_headers c h) p hdr' p'" by auto
    with False At show ?thesis by (cases "p' = Idle") (auto intro: in_header drop_item)
  qed
next
  case (Next h q l)
  have ok: "threads_ok (ch_headers c h) (locals h W)" using chain_here(3) [OF inv, of t h] Next by simp
  have "header_unlock b (ch_headers c h) = Some ((ch_headers c h)\<lparr>lh_is_locked := 0\<rparr>)" if "critical (link_local q l)"
  proof -
    have "critical (local h (W t))" using that Next by simp
    then have "lh_is_locked (ch_headers c h) \<noteq> 0" using ok unfolding threads_ok_def by blast
    then show ?thesis by (simp add: header_unlock_def)
  qed
  note unlock = this
  show ?thesis
  proof (cases l)
    case (Filling a)
    then obtain hdr where hdr: "ch_headers c a = set_default_values a hdr"
      using chain_invD(10) [OF inv, of t] Next by auto
    then have "length (lh_items hdr) = 203" using chain_invD(4) [OF inv, of a] by (simp add: set_default_values_def)
    from buffers_default(1) [OF len(1) _ this, of b] buffers_default(2) [OF len(1) _ this, of b a] hdr len(2) Next Filling
    show ?thesis by (auto intro!: exI fill)
  next
    case Waiting
    then show ?thesis using Next by (cases "header_try_lock (ch_headers c h)"; cases "fst (header_try_lock (ch_headers c h))")
      (auto intro: lock_ok lock_fail)
  next
    case Testing
    then show ?thesis using Next by (cases "has_next_locator (ch_headers c h)") (auto intro: present absent)
  next
    case Retesting
    then show ?thesis using Next by (cases "has_next_locator (ch_headers c h)") (auto intro: appeared still_absent)
  next
    case Releasing
    with unlock Next show ?thesis by (auto intro: release)
  next
    case Refusing
    with unlock Next show ?thesis by (auto intro: refuse)
  qed (use Next in \<open>auto intro: walk_step.intros\<close>)
qed (auto intro: begin_search)

text \<open>The steps of a thread inside the lock of a header before its \<open>unlock\<close>, at most.\<close>

fun link_steps_left :: "link_pc \<Rightarrow> nat" where
  "link_steps_left Retesting = 5"
| "link_steps_left Reserving = 4"
| "link_steps_left (Linking a) = 3"
| "link_steps_left (Resetting a) = 2"
| "link_steps_left (Filling a) = 1"
| "link_steps_left _ = 0"

fun walk_steps_left :: "walk \<Rightarrow> nat" where
  "walk_steps_left Outside = 0"
| "walk_steps_left (At h q p) = steps_left p"
| "walk_steps_left (Next h q l) = link_steps_left l"

lemma inside_goes_on:
  assumes step: "walk_step b len h0 c w c' w'" and w: "inside w = Some h"
  shows "if inside w' = Some h then walk_steps_left w' < walk_steps_left w
    else walk_steps_left w = 0 \<and> lh_is_locked (ch_headers c' h) = 0"
  using step
proof cases
  case (in_header k p hdr' p' q)
  then have "critical p" "k = h" using w by (auto split: if_splits)
  with in_header(4) show ?thesis
    unfolding in_header(1-3) by cases (auto simp: header_unlock_def Let_def split: if_splits)
next
  case (drop_item k p hdr' q)
  with w show ?thesis by (auto elim: thread_step.cases split: if_splits)
qed (use w in \<open>auto simp: header_unlock_def Let_def split: if_splits\<close>)

section \<open>Runs inside a header\<close>

lemma go_step:
  "walks ordered b len h0 c0 c W \<Longrightarrow> walk_step b len h0 c w c' w' \<Longrightarrow> W t = w \<Longrightarrow>
   (\<And>h q u. ordered \<Longrightarrow> w = At h q Idle \<Longrightarrow> makes (W u) \<noteq> Some h) \<Longrightarrow> walks ordered b len h0 c0 c' (W(t := w'))"
  by (rule go) blast+

lemma put_chain_twice: "put_chain h y (put_chain h x c) = put_chain h y c"
  by (auto intro!: chain.equality)

lemma thread_run_walks:
  assumes "thread_run b hdr p hdr' p'" "walks ordered b len h0 c0 c W" "W t = At h q p" "p \<noteq> Idle" "ch_headers c h = hdr"
  shows "walks ordered b len h0 c0 (put_chain h hdr' c) (W(t := At h q p'))"
  using assms
proof (induction arbitrary: c W rule: thread_run.induct)
  case (finished hdr p)
  then show ?case by (simp add: fun_upd_idem)
next
  case (goes_on hdr p hdr1 p1 hdr' p')
  have "walk_step b len h0 c (At h q p) (put_chain h hdr1 c) (At h q p1)"
    using in_header [of b c h p hdr1 p1 len h0 q] goes_on by simp
  then have "walks ordered b len h0 c0 (put_chain h hdr1 c) (W(t := At h q p1))"
    using goes_on by (intro go_step [OF goes_on.prems(1)]) auto
  from goes_on.IH [OF this fun_upd_same goes_on.hyps(2)]
  have "walks ordered b len h0 c0 (put_chain h hdr' (put_chain h hdr1 c)) (W(t := At h q p1, t := At h q p'))"
    by (simp add: fun_upd_same del: fun_upd_apply)
  then show ?case unfolding put_chain_twice fun_upd_upd .
qed

text \<open>A thread that looks at a header without an available item comes to the registration.\<close>

lemma look_walks:
  assumes walks: "walks ordered b len h0 c0 c W" and t: "W t = At h q Idle"
    and made: "ordered \<Longrightarrow> made W h" and wf: "wf_header (ch_headers c h)"
    and none: "\<And>j. j < unat (lh_num_items (ch_headers c h)) \<Longrightarrow> \<not> available_q q (lh_items (ch_headers c h) ! j)"
  shows "walks ordered b len h0 c0 c (W(t := At h q (Check q)))"
proof -
  let ?hdr = "ch_headers c h" and ?n = "unat (lh_num_items (ch_headers c h))"
  have "walk_step b len h0 c (At h q Idle) (put_chain h ?hdr c) (At h q (Scan q 0 ?n))"
    by (rule look [OF enter refl])
  then have 1: "walks ordered b len h0 c0 c (W(t := At h q (Scan q 0 ?n)))"
    using made by (intro go_step [OF walks _ t]) (simp_all add: made_def)
  have "thread_run b ?hdr (Scan q 0 ?n) ?hdr (Scan q ?n ?n)" by (rule scan_up_to [OF wf refl order_refl none])
  moreover have "thread_step b ?hdr (Scan q ?n ?n) ?hdr (Check q)" by (rule scan_end) simp
  ultimately have "thread_run b ?hdr (Scan q 0 ?n) ?hdr (Check q)"
    by (rule thread_run_trans [OF _ goes_on [OF _ _ finished]]) simp_all
  from thread_run_walks [OF this 1, of t h q] show ?thesis by (simp add: put_chain_same)
qed

text \<open>Such a thread goes on to the next header when this one is full.\<close>

lemma full_walks:
  assumes walks: "walks ordered b len h0 c0 c W" and t: "W t = At h q (Check q)"
    and full: "is_full (ch_headers c h)"
  shows "walks ordered b len h0 c0 c (W(t := Next h q Testing))"
proof -
  have "walk_step b len h0 c (At h q (Check q)) (put_chain h (ch_headers c h) c) (At h q (Failed NoSpaceInHeader))"
    by (rule in_header [OF check_full [OF full]]) simp_all
  then have "walks ordered b len h0 c0 c (W(t := At h q (Failed NoSpaceInHeader)))"
    by (intro go_step [OF walks _ t]) simp_all
  from go_step [OF this go_on, of t] show ?thesis by simp
qed

text \<open>Or registers a new item in it.\<close>

lemma registration_walks:
  assumes walks: "walks ordered b len h0 c0 c W" and t: "W t = At h q (Check q)"
    and hdr: "lh_is_locked (ch_headers c h) = 0" "wf_header (ch_headers c h)" "\<not> is_full (ch_headers c h)"
    and it: "serves_q q it" "li_is_taken it = 0"
  shows "walks ordered b len h0 c0 (put_chain h (registered it (ch_headers c h)) c)
    (W(t := At h q (Holding q (unat (lh_num_items (ch_headers c h))))))"
  by (rule thread_run_walks [OF registration_runs [OF hdr it] walks t _ refl]) simp

section \<open>Sample chains\<close>

abbreviation request :: buffer_search_settings where
  "request \<equiv> sample_search"

text \<open>One header with a free item, in memory that looks like it.\<close>

definition paged_chain :: chain where
  "paged_chain = \<lparr>ch_headers = (\<lambda>_. paged_header), ch_used = {0x10000}\<rparr>"

lemma paged_chain_quiet: "quiet_chain 0x10000 paged_chain"
  by (simp add: quiet_chain_def paged_chain_def paged_items paged_header_wf)
    (simp add: paged_header_def has_next_locator_def)

lemma begin_walks:
  assumes "walks ordered b len h0 c0 c W" "W t = Outside"
  shows "walks ordered b len h0 c0 c (W(t := At h0 q Idle))"
  using go_step [OF assms(1) begin_search assms(2)] by simp

lemma paged_holds:
  "walks True Debug 4096 0x10000 paged_chain (put_chain 0x10000 locked_slot paged_chain)
    ((\<lambda>_. Outside)(1 := At 0x10000 request (Holding request 0)))"
proof -
  let ?W = "(\<lambda>_. Outside)(1 := At 0x10000 request Idle)" and ?scan = "Scan request 0 1"
  have 1: "walks True Debug 4096 0x10000 paged_chain paged_chain ?W"
    by (rule begin_walks [OF walks.start]) simp
  have "walk_step Debug 4096 0x10000 paged_chain (At 0x10000 request Idle)
      (put_chain 0x10000 (ch_headers paged_chain 0x10000) paged_chain) (At 0x10000 request ?scan)"
    using look [OF enter refl, where b = Debug and len = 4096 and ?h0.0 = "0x10000" and c = paged_chain and h = "0x10000" and q = request]
    by (simp add: paged_chain_def paged_items)
  from go_step [OF 1 this, of 1]
  have 2: "walks True Debug 4096 0x10000 paged_chain paged_chain ((\<lambda>_. Outside)(1 := At 0x10000 request ?scan))"
    by (simp add: put_chain_same)
  have 3: "thread_step Debug paged_header ?scan paged_header (Trying request 0 1)"
    by (rule scan_yes) (simp_all add: paged_items paged_can_use)
  have 4: "thread_step Debug paged_header (Trying request 0 1) locked_slot (Holding request 0)"
    by (rule try_ok) (simp add: paged_items item_try_lock_def)
  have "thread_run Debug paged_header ?scan locked_slot (Holding request 0)"
    by (rule goes_on [OF 3 _ goes_on [OF 4 _ finished]]) simp_all
  from thread_run_walks [OF this 2, of 1 "0x10000" request] show ?thesis by (simp add: paged_chain_def)
qed

text \<open>A full header whose items serve nobody, in memory that looks like it.\<close>

definition full_chain :: chain where
  "full_chain = \<lparr>ch_headers = (\<lambda>_. sample_header\<lparr>lh_num_items := 203\<rparr>), ch_used = {0x10000}\<rparr>"

lemma full_chain_header:
  assumes "ch_headers c h = sample_header\<lparr>lh_num_items := 203, lh_is_locked := x, lh_next_locator_ptr := n\<rparr>"
  shows "wf_header (ch_headers c h)" "is_full (ch_headers c h)"
    "j < unat (lh_num_items (ch_headers c h)) \<Longrightarrow> \<not> available_q q (lh_items (ch_headers c h) ! j)"
  using assms
  by (simp_all add: sample_header_def wf_header_def wf_slot_def wf_item_def is_full_iff available_def serves_request_def list_all_length)

lemma full_chain_sel:
  "ch_headers full_chain a = sample_header\<lparr>lh_num_items := 203, lh_is_locked := 0, lh_next_locator_ptr := 0\<rparr>"
  "ch_used full_chain = {0x10000}"
  by (simp_all add: full_chain_def sample_header_def)

lemma full_chain_quiet: "quiet_chain 0x10000 full_chain"
  using full_chain_header [OF full_chain_sel(1)] 
  by (simp add: quiet_chain_def full_chain_sel) (simp add: sample_header_def has_next_locator_def)

text \<open>Every thread that starts on it comes to the end of the header.\<close>

lemma full_chain_testing:
  assumes walks: "walks ordered b len h0 c0 c W" and t: "W t = Outside" and made: "ordered \<Longrightarrow> made W h0"
    and c: "ch_headers c h0 = sample_header\<lparr>lh_num_items := 203, lh_is_locked := x, lh_next_locator_ptr := n\<rparr>"
  shows "walks ordered b len h0 c0 c (W(t := Next h0 q Testing))"
proof -
  note hdr = full_chain_header [OF c]
  let ?W = "W(t := At h0 q Idle)"
  have 1: "walks ordered b len h0 c0 c ?W" by (rule begin_walks [OF walks t])
  have "made ?W h0" if ordered using made [OF that] t made_upd [of "At h0 q Idle" W t] by simp
  then have 2: "walks ordered b len h0 c0 c (W(t := At h0 q (Check q)))"
    using look_walks [OF 1, of t h0 q] hdr(1,3) by simp
  from full_walks [OF 2, of t h0 q] hdr(2) show ?thesis by simp
qed

text \<open>Thread 0 has locked the header.\<close>

lemma full_chain_locked:
  "walks ordered Debug 4096 0x10000 full_chain
    (put_chain 0x10000 (sample_header\<lparr>lh_num_items := 203, lh_is_locked := 1, lh_next_locator_ptr := 0\<rparr>) full_chain)
    ((\<lambda>_. Outside)(0 := Next 0x10000 request Retesting))"
proof -
  have 1: "walks ordered Debug 4096 0x10000 full_chain full_chain ((\<lambda>_. Outside)(0 := Next 0x10000 request Testing))"
    by (rule full_chain_testing [OF walks.start]) (simp_all add: full_chain_sel made_def)
  have "walk_step Debug 4096 0x10000 full_chain (Next 0x10000 request Testing) full_chain (Next 0x10000 request Waiting)"
    by (rule absent) (simp add: full_chain_sel has_next_locator_def)
  from go_step [OF 1 this, of 0]
  have 2: "walks ordered Debug 4096 0x10000 full_chain full_chain ((\<lambda>_. Outside)(0 := Next 0x10000 request Waiting))" by simp
  have "header_try_lock (ch_headers full_chain 0x10000)
      = (True, sample_header\<lparr>lh_num_items := 203, lh_is_locked := 1, lh_next_locator_ptr := 0\<rparr>)"
    by (simp add: full_chain_sel header_try_lock_def)
  from go_step [OF 2 lock_ok [OF this], of 0] show ?thesis by simp
qed

text \<open>It has linked a new header, and set its default values.\<close>

lemma full_chain_linked:
  obtains c where "walks ordered Debug 4096 0x10000 full_chain c
      ((\<lambda>_. Outside)(0 := Next 0x10000 request (Filling 0x20000)))"
    "ch_headers c 0x10000 = sample_header\<lparr>lh_num_items := 203, lh_is_locked := 1, lh_next_locator_ptr := 0x20000\<rparr>"
    "ch_headers c 0x20000 = sample_header\<lparr>lh_this_address := 0x20000\<rparr>"
proof -
  let ?n = "0x20000 :: usize" and ?h = "0x10000 :: usize"
  let ?hdr = "sample_header\<lparr>lh_num_items := 203, lh_is_locked := 1, lh_next_locator_ptr := 0\<rparr>"
  define c1 where "c1 = put_chain ?h ?hdr full_chain"
  note 1 = full_chain_locked [of ordered, folded c1_def]
  have c1: "ch_headers c1 ?h = ?hdr" "ch_used c1 = {?h}" "ch_headers c1 ?n = sample_header\<lparr>lh_num_items := 203\<rparr>"
    by (simp_all add: c1_def full_chain_def)
  have "walk_step Debug 4096 ?h c1 (Next ?h request Retesting) c1 (Next ?h request Reserving)"
    by (rule still_absent) (simp add: c1 has_next_locator_def)
  from go_step [OF 1 this, of 0] have 2: "walks ordered Debug 4096 ?h full_chain c1
    ((\<lambda>_. Outside)(0 := Next ?h request Reserving))" by simp
  define c2 where "c2 = c1\<lparr>ch_used := insert ?n (ch_used c1)\<rparr>"
  have "walk_step Debug 4096 ?h c1 (Next ?h request Reserving) c2 (Next ?h request (Linking ?n))"
    unfolding c2_def by (rule reserve) (simp_all add: c1)
  from go_step [OF 2 this, of 0] have 3: "walks ordered Debug 4096 ?h full_chain c2
    ((\<lambda>_. Outside)(0 := Next ?h request (Linking ?n)))" by simp
  define c3 where "c3 = put_chain ?h ((ch_headers c2 ?h)\<lparr>lh_next_locator_ptr := ?n\<rparr>) c2"
  from go_step [OF 3 link, of 0] have 4: "walks ordered Debug 4096 ?h full_chain c3
    ((\<lambda>_. Outside)(0 := Next ?h request (Resetting ?n)))" by (simp add: c3_def)
  from go_step [OF 4 reset, of 0] have "walks ordered Debug 4096 ?h full_chain
    (put_chain ?n (set_default_values ?n (ch_headers c3 ?n)) c3)
    ((\<lambda>_. Outside)(0 := Next ?h request (Filling ?n)))" by simp
  then show ?thesis
    by (rule that) (simp_all add: c3_def c2_def c1 set_default_values_def sample_header_def)
qed

text \<open>A thread that comes to an empty header registers its item in the first slot.\<close>

lemma empty_walks:
  assumes walks: "walks False b len h0 c0 c W" and t: "W t = At h q Idle"
    and hdr: "wf_header (ch_headers c h)" "lh_num_items (ch_headers c h) = 0" "lh_is_locked (ch_headers c h) = 0"
    and it: "serves_q q it" "li_is_taken it = 0"
  shows "walks False b len h0 c0 (put_chain h (registered it (ch_headers c h)) c) (W(t := At h q (Holding q 0)))"
proof -
  have "walks False b len h0 c0 c (W(t := At h q (Check q)))" using look_walks [OF walks t] hdr by simp
  from registration_walks [OF this _ hdr(3,1) _ it, of t] hdr(2) show ?thesis by (simp add: is_full_iff)
qed

lemma fill_nothing: "initialize_remaining_space_as_buffers b hdr 0 = Some (hdr\<lparr>lh_num_items := 0\<rparr>)"
  by (cases hdr) (simp add: initialize_remaining_space_as_buffers_def fill_buffers.simps)

abbreviation linked_header :: "i32 \<Rightarrow> locator_header" where
  "linked_header x \<equiv> sample_header\<lparr>lh_num_items := 203, lh_is_locked := x, lh_next_locator_ptr := 0x20000\<rparr>"

abbreviation holds_first :: walk where
  "holds_first \<equiv> At 0x20000 request (Holding request 0)"

text \<open>Thread 1 follows the link to the new header and registers an item there.\<close>

lemma linked_enters:
  obtains c where "walks False Debug 4096 0x10000 full_chain c
      ((\<lambda>_. Outside)(0 := Next 0x10000 request (Filling 0x20000), 1 := holds_first))"
    "ch_headers c 0x10000 = linked_header 1"
    "ch_headers c 0x20000 = registered (locator_item_new 0x3000000 4096) (sample_header\<lparr>lh_this_address := 0x20000\<rparr>)"
proof -
  let ?n = "0x20000 :: usize" and ?h = "0x10000 :: usize" and ?it = "locator_item_new 0x3000000 4096"
  let ?walks = "walks False Debug 4096 0x10000 full_chain"
  obtain c where 1: "?walks c ((\<lambda>_. Outside)(0 := Next ?h request (Filling ?n)))"
    and c: "ch_headers c ?h = linked_header 1" "ch_headers c ?n = sample_header\<lparr>lh_this_address := ?n\<rparr>"
    by (rule full_chain_linked)
  from full_chain_testing [OF 1 _ _ c(1), of 1]
  have 2: "?walks c ((\<lambda>_. Outside)(0 := Next ?h request (Filling ?n), 1 := Next ?h request Testing))" by simp
  have "walk_step Debug 4096 ?h c (Next ?h request Testing) c (Next ?h request Reading)"
    by (rule present) (simp add: c has_next_locator_def)
  from go_step [OF 2 this, of 1]
  have 3: "?walks c ((\<lambda>_. Outside)(0 := Next ?h request (Filling ?n), 1 := Next ?h request Reading))" by simp
  from go_step [OF 3 follow, of 1] c(1)
  have 4: "?walks c ((\<lambda>_. Outside)(0 := Next ?h request (Filling ?n), 1 := At ?n request Idle))" by simp
  have "wf_header (ch_headers c ?n)" "lh_num_items (ch_headers c ?n) = 0" "lh_is_locked (ch_headers c ?n) = 0"
    by (simp_all add: c(2) sample_header_def wf_header_def)
  note new = this
  have "serves_q request ?it" by (simp add: serves_request_def wf_item_def free_bytes_def next_address_def)
  from empty_walks [OF 4 _ new this, of 1]
  have "?walks (put_chain ?n (registered ?it (ch_headers c ?n)) c)
      ((\<lambda>_. Outside)(0 := Next ?h request (Filling ?n), 1 := holds_first))" by simp
  then show ?thesis by (rule that) (simp_all add: c)
qed

text \<open>
  Then thread 0 finishes the initialization, which sets the count back to zero, and comes to the
  header itself.
\<close>

lemma linked_race:
  obtains c where "walks False Debug 4096 0x10000 full_chain c ((\<lambda>_. Outside)(1 := holds_first, 0 := holds_first))"
proof -
  let ?n = "0x20000 :: usize" and ?h = "0x10000 :: usize" and ?it = "locator_item_new 0x4000000 4096"
  let ?walks = "walks False Debug 4096 0x10000 full_chain"
  obtain c where 1: "?walks c ((\<lambda>_. Outside)(0 := Next ?h request (Filling ?n), 1 := holds_first))"
    and c: "ch_headers c ?h = linked_header 1"
      "ch_headers c ?n = registered (locator_item_new 0x3000000 4096) (sample_header\<lparr>lh_this_address := ?n\<rparr>)"
    by (rule linked_enters)
  define c3 where "c3 = put_chain ?n ((ch_headers c ?n)\<lparr>lh_num_items := 0\<rparr>) c"
  have "walk_step Debug 4096 ?h c (Next ?h request (Filling ?n)) c3 (Next ?h request Releasing)"
    unfolding c3_def by (rule fill [where remaining = 0]) (simp_all add: fill_nothing arith_ok HEADER_LENGTH_def)
  from go_step [OF 1 this, of 0] have 2: "?walks c3 ((\<lambda>_. Outside)(1 := holds_first, 0 := Next ?h request Releasing))"
    by (simp add: fun_upd_twist)
  define c4 where "c4 = put_chain ?h (linked_header 0) c3"
  have "header_unlock Debug (ch_headers c3 ?h) = Some (linked_header 0)" by (simp add: c3_def c header_unlock_def)
  from go_step [OF 2 release [OF this], of 0] have 3: "?walks c4 ((\<lambda>_. Outside)(1 := holds_first, 0 := Next ?h request Reading))"
    by (simp add: c4_def)
  from go_step [OF 3 follow, of 0] have 4: "?walks c4 ((\<lambda>_. Outside)(1 := holds_first, 0 := At ?n request Idle))"
    by (simp add: c4_def)
  have "wf_header (ch_headers c4 ?n)" "lh_num_items (ch_headers c4 ?n) = 0" "lh_is_locked (ch_headers c4 ?n) = 0"
    by (simp_all add: c4_def c3_def c(2) sample_header_def wf_header_def registered_def)
  note new = this
  have "serves_q request ?it" by (simp add: serves_request_def wf_item_def free_bytes_def next_address_def)
  from empty_walks [OF 4 _ new this, of 0]
  have "?walks (put_chain ?n (registered ?it (ch_headers c4 ?n)) c4) ((\<lambda>_. Outside)(1 := holds_first, 0 := holds_first))"
    by simp
  then show ?thesis by (rule that)
qed

section \<open>The guarantees\<close>

text \<open>
  C4 Mutual exclusion on the whole chain, for any number of threads and any interleaving of their
  searches, registrations, drops and calls of \<open>get_next_locator\<close>, as long as none looks at a header
  that is still being initialized: no two threads hold the same item of the same header, no two are inside the lock of
  the same header, and an item that a thread holds is registered in a well-formed header, marked as
  taken, and changed by no step of another thread.
\<close>

theorem chain_exclusion:
  assumes "quiet_chain h0 c0" and "4096 \<le> unat len" "unat len \<le> 4096 + 202 * 16384"
    and "walks True b len h0 c0 c W"
  shows "(t \<noteq> u \<and> item_of (W t) = Some p \<longrightarrow> item_of (W u) \<noteq> Some p \<and>
      wf_header (ch_headers c (ip_header p)) \<and> li_is_taken (chain_item c p) = 1 \<and>
      (walk_step b len h0 c (W u) c' w' \<longrightarrow> chain_item c' p = chain_item c p)) \<and>
    (t \<noteq> u \<and> inside (W t) = Some h \<longrightarrow> inside (W u) \<noteq> Some h)"
proof (intro conjI impI; (elim conjE)?)
  note inv = walks_inv [OF assms(4,1-3)]
  show "inside (W u) \<noteq> Some h" if "t \<noteq> u" "inside (W t) = Some h"
    using chain_here(3) [OF inv inside_local(2) [OF that(2)]] inside_local(1) [OF that(2)] that(1)
      inside_local(1) [of "W u" h] unfolding threads_ok_def by blast
  assume tu: "t \<noteq> u" and p: "item_of (W t) = Some p"
  let ?h = "ip_header p" and ?i = "ip_index p"
  note here = chain_here [OF inv item_of_local(2) [OF p]]
  have slots: "slot_of (local ?h (W u)) \<noteq> Some ?i"
    using here(3) item_of_local(1) [OF p] tu unfolding threads_ok_def by blast
  then show "item_of (W u) \<noteq> Some p" using item_of_local(1) [of "W u" p] by blast
  show "wf_header (ch_headers c ?h)" using here(3) by (simp add: threads_ok_def)
  have "thread_ok (unat (lh_num_items (ch_headers c ?h))) (lh_items (ch_headers c ?h)) (local ?h (W t))"
    using here(3) unfolding threads_ok_def by blast
  then show "li_is_taken (chain_item c p) = 1"
    using item_of_local(1) [OF p] by (cases "local ?h (W t)" rule: slot_of.cases) auto
  show "chain_item c' p = chain_item c p" if "walk_step b len h0 c (W u) c' w'"
  proof -
    have "makes (W u) \<noteq> Some ?h" using here(2) by (simp add: made_def)
    with walk_step_item [OF that this] others_keep_slot [OF here(3) item_of_local(1) [OF p], of u] tu
    show ?thesis by metis
  qed
qed


theorem chain_exclusion_witness:
  "\<exists>c W. walks True Debug 4096 0x10000 paged_chain c W \<and> item_of (W 1) = Some (Item_Ptr 0x10000 0) \<and>
    item_of (W 0) \<noteq> Some (Item_Ptr 0x10000 0) \<and> li_is_taken (chain_item c (Item_Ptr 0x10000 0)) = 1"
proof -
  let ?W = "(\<lambda>_. Outside)(1 := At 0x10000 request (Holding request 0))"
  have "item_of (?W 1) = Some (Item_Ptr 0x10000 0)" by simp
  with chain_exclusion [OF paged_chain_quiet _ _ paged_holds, of 1 0 "Item_Ptr 0x10000 0"] paged_holds
  show ?thesis by (intro exI [of _ "put_chain 0x10000 locked_slot paged_chain"] exI [of _ ?W]) simp
qed

text \<open>
  C21 The restriction is needed: \<open>get_next_locator\<close> links the new header before it initializes it, so a
  thread can follow the link and register an item, after which the initialization sets the count of
  items back to zero and the next thread is given the same slot: two threads hold one item.
\<close>

theorem unordered_chain_shares_item:
  "quiet_chain 0x10000 full_chain \<and>
   (\<exists>c W. walks False Debug 4096 0x10000 full_chain c W \<and>
     item_of (W 0) = Some (Item_Ptr 0x20000 0) \<and> item_of (W 1) = Some (Item_Ptr 0x20000 0))"
proof -
  obtain c where "walks False Debug 4096 0x10000 full_chain c ((\<lambda>_. Outside)(1 := holds_first, 0 := holds_first))"
    by (rule linked_race)
  moreover have "item_of holds_first = Some (Item_Ptr 0x20000 0)" by simp
  ultimately show ?thesis using full_chain_quiet
    by (intro conjI exI [of _ c] exI [of _ "(\<lambda>_. Outside)(1 := holds_first, 0 := holds_first)"]) simp_all
qed





end
