(* ===== verification/Chain_Runs.thy ===== *)
theory Chain_Runs
  imports Chain_Threads_Properties
begin

text \<open>
  The sequential walk along the chain, as the library computes it for a caller that is alone, is a run
  of one thread of the interleaved model.
\<close>

section \<open>Runs of one thread\<close>

inductive walk_run :: "build \<Rightarrow> usize \<Rightarrow> usize \<Rightarrow> chain \<Rightarrow> walk \<Rightarrow> chain \<Rightarrow> walk \<Rightarrow> bool" for b len h0 where
  arrived: "walk_run b len h0 c w c w"
| moves: "walk_step b len h0 c w c1 w1 \<Longrightarrow> walk_run b len h0 c1 w1 c' w' \<Longrightarrow> walk_run b len h0 c w c' w'"

lemma walk_run_trans:
  "walk_run b len h0 c w c1 w1 \<Longrightarrow> walk_run b len h0 c1 w1 c' w' \<Longrightarrow> walk_run b len h0 c w c' w'"
  by (induction rule: walk_run.induct) (auto intro: moves)

lemma walk_run_snoc:
  "walk_run b len h0 c w c1 w1 \<Longrightarrow> walk_step b len h0 c1 w1 c' w' \<Longrightarrow> walk_run b len h0 c w c' w'"
  by (rule walk_run_trans [OF _ moves [OF _ arrived]])

lemma walk_run_one: "walk_step b len h0 c w c' w' \<Longrightarrow> walk_run b len h0 c w c' w'"
  by (rule moves [OF _ arrived])

lemma thread_walk_run:
  assumes "thread_run b hdr p hdr' p'" "p \<noteq> Idle" "ch_headers c h = hdr"
  shows "walk_run b len h0 c (At h q p) (put_chain h hdr' c) (At h q p')"
  using assms
proof (induction arbitrary: c rule: thread_run.induct)
  case (finished hdr p)
  then show ?case by (simp add: fun_upd_idem arrived)
next
  case (goes_on hdr p hdr1 p1 hdr' p')
  have "walk_step b len h0 c (At h q p) (put_chain h hdr1 c) (At h q p1)"
    using in_header [of b c h p hdr1 p1 len h0 q] goes_on by simp
  moreover from goes_on.IH [OF goes_on.hyps(2), of "put_chain h hdr1 c"]
  have "walk_run b len h0 (put_chain h hdr1 c) (At h q p1) (put_chain h hdr' (put_chain h hdr1 c)) (At h q p')"
    by (simp add: fun_upd_same del: fun_upd_apply)
  ultimately show ?case unfolding put_chain_twice by (rule moves)
qed

text \<open>The chain that a state of the library shows; the addresses it uses are in use by the process.\<close>

definition shows_chain :: "('o \<Rightarrow> usize set) \<Rightarrow> 'o world \<Rightarrow> chain \<Rightarrow> bool" where
  "shows_chain used w c \<longleftrightarrow> ch_headers c = w_headers w \<and> ch_used c \<subseteq> used (w_os w)"

text \<open>The search of a header.\<close>

lemma search_walk_run:
  assumes ret: "get_first_available_item_locked pl h (bss_size q) (bss_min_address q) (bss_max_address q) w = Some (r, w')"
    and wf: "wf_header (w_headers w h)" and c: "shows_chain used w c"
  shows "\<exists>c'. walk_run b len h0 c (At h q Idle) c'
      (At h q (case r of Some p \<Rightarrow> Holding q (ip_index p) | None \<Rightarrow> Check q)) \<and> shows_chain used w' c'"
proof -
  note runs = search_runs(1) [OF wf ret, of b] search_runs(2) [OF wf ret]
  let ?c' = "put_chain h (w_headers w' h) c" and ?scan = "Scan q 0 (unat (lh_num_items (w_headers w h)))"
  have hdr: "ch_headers c h = w_headers w h" using c by (simp add: shows_chain_def)
  have "walk_step b len h0 c (At h q Idle) (put_chain h (ch_headers c h) c) (At h q ?scan)"
    using look [OF enter refl] hdr by metis
  then have "walk_step b len h0 c (At h q Idle) c (At h q ?scan)" by (simp only: put_chain_same)
  with thread_walk_run [OF runs(1) _ hdr] have
    "walk_run b len h0 c (At h q Idle) ?c' (At h q (case r of Some p \<Rightarrow> Holding q (ip_index p) | None \<Rightarrow> Check q))"
    by (blast intro: moves)
  moreover have "shows_chain used w' ?c'" using c by (subst runs(2)) (simp add: shows_chain_def)
  ultimately show ?thesis by blast
qed

text \<open>The registration, by a caller that is alone.\<close>

lemma try_allocate_alone:
  assumes ret: "try_allocate_item pl (\<lambda>w. w) h sz mn mx w = Some (r, w')"
    and ok: "chain_ok used H w" "h \<in> H"
    and req: "honest_os pl" "sane_request (pl_sys pl) sz mx" "heap_ok pl used"
  shows "w' = put_header h (w_headers w' h) (put_os (w_os w') w)" and "used (w_os w) \<subseteq> used (w_os w')"
proof -
  have yield: "yield_ok used (\<lambda>w. w)" by (simp add: yield_ok_def)
  have "w' = put_header h (w_headers w' h) (put_os (w_os w') w) \<and> used (w_os w) \<subseteq> used (w_os w')"
    using ret ok yield req
    by (cases rule: try_allocate_item_cases) (auto dest!: lock_at_alone(2))
  then show "w' = put_header h (w_headers w' h) (put_os (w_os w') w)" "used (w_os w) \<subseteq> used (w_os w')" by auto
qed

lemma try_allocate_walk_run:
  assumes ret: "try_allocate_item pl (\<lambda>w. w) h (bss_size q) (bss_min_address q) (bss_max_address q) w = Some (r, w')"
    and ok: "chain_ok used H w" "h \<in> H"
    and req: "honest_os pl" "sane_request (pl_sys pl) (bss_size q) (bss_max_address q)" "heap_ok pl used"
    and c: "shows_chain used w c"
  shows "\<exists>c'. walk_run b len h0 c (At h q (Check q)) c'
      (case r of Inr p \<Rightarrow> At h q (Holding q (ip_index p)) | Inl NoSpaceInHeader \<Rightarrow> Next h q Testing
       | Inl CannotAllocateMemory \<Rightarrow> Outside) \<and> shows_chain used w' c'"
proof -
  let ?c' = "put_chain h (w_headers w' h) c"
  have hdr: "ch_headers c h = w_headers w h" using c by (simp add: shows_chain_def)
  note alone = try_allocate_alone [OF ret ok req]
  have "shows_chain used w' ?c'" using c alone(2) by (subst alone(1)) (auto simp: shows_chain_def)
  moreover have "walk_run b len h0 c (At h q (Check q)) ?c'
      (At h q (case r of Inr p \<Rightarrow> Holding q (ip_index p) | Inl e \<Rightarrow> Failed e))"
    by (rule thread_walk_run [OF try_allocate_runs [OF ret ok req] _ hdr]) simp
  moreover have "walk_run b len h0 ?c' (At h q (case r of Inr p \<Rightarrow> Holding q (ip_index p) | Inl e \<Rightarrow> Failed e)) ?c'
      (case r of Inr p \<Rightarrow> At h q (Holding q (ip_index p)) | Inl NoSpaceInHeader \<Rightarrow> Next h q Testing
       | Inl CannotAllocateMemory \<Rightarrow> Outside)"
    by (auto split: sum.split item_allocation_error.split intro: arrived walk_run_one go_on give_up)
  ultimately show ?thesis by (blast intro: walk_run_trans)
qed

section \<open>The next header\<close>

text \<open>Making it, from the moment the block was allocated: the steps have the effect of \<open>initialize\<close>.\<close>

lemma new_header_walk_run:
  assumes target: "\<not> cfg_macos_aarch64 (pl_target pl)"
    and len: "4096 \<le> unat (granularity (pl_sys pl))" "unat (granularity (pl_sys pl)) \<le> 4096 + 203 * 16384"
    and items: "length (lh_items (w_headers w a)) = 203" and ne: "a \<noteq> h" and c: "ch_headers c = w_headers w"
  shows "\<exists>w' c'. initialize pl a (granularity (pl_sys pl)) (put_header h ((w_headers w h)\<lparr>lh_next_locator_ptr := a\<rparr>) w) = Some w' \<and>
    walk_run (pl_build pl) (granularity (pl_sys pl)) h0 c (Next h q (Linking a)) c' (Next h q Releasing) \<and>
    ch_headers c' = w_headers w' \<and> ch_used c' = ch_used c \<and> w_machine w' = w_machine w \<and>
    w_headers w' h = (w_headers w h)\<lparr>lh_next_locator_ptr := a\<rparr>"
proof -
  let ?b = "pl_build pl" and ?g = "granularity (pl_sys pl)"
  let ?hdr = "(w_headers w h)\<lparr>lh_next_locator_ptr := a\<rparr>"
  let ?fresh = "fresh_header a (unat ?g) (lh_items (w_headers w a))"
  define c1 where "c1 = put_chain h ?hdr c"
  define c2 where "c2 = put_chain a (set_default_values a (ch_headers c1 a)) c1"
  have 1: "walk_step ?b ?g h0 c (Next h q (Linking a)) c1 (Next h q (Resetting a))"
    unfolding c1_def using link [of ?b ?g h0 c h q a] c by simp
  have 2: "walk_step ?b ?g h0 c1 (Next h q (Resetting a)) c2 (Next h q (Filling a))" unfolding c2_def by (rule reset)
  have same: "ch_headers c1 a = w_headers w a" "ch_headers c2 a = set_default_values a (w_headers w a)"
    using c ne by (simp_all add: c1_def c2_def)
  note fill_in = buffers_default [OF len items]
  have 3: "walk_step ?b ?g h0 c2 (Next h q (Filling a)) (put_chain a ?fresh c2) (Next h q Releasing)"
    by (rule fill [OF fill_in(1)]) (simp only: same fill_in(2))
  have init: "initialize pl a ?g (put_header h ?hdr w) = Some (put_header a ?fresh (put_header h ?hdr w))"
    using initialize_buffers [OF target len, of "put_header h ?hdr w" a] items ne by simp
  have "walk_run ?b ?g h0 c (Next h q (Linking a)) (put_chain a ?fresh c2) (Next h q Releasing)"
    by (rule moves [OF 1 moves [OF 2 moves [OF 3 arrived]]])
  moreover have "ch_headers (put_chain a ?fresh c2) = w_headers (put_header a ?fresh (put_header h ?hdr w))"
    using c by (simp add: c1_def c2_def)
  moreover have "ch_used (put_chain a ?fresh c2) = ch_used c" by (simp add: c1_def c2_def)
  ultimately show ?thesis using init ne
    by (intro exI [of _ "put_header a ?fresh (put_header h ?hdr w)"] exI [of _ "put_chain a ?fresh c2"] conjI) simp_all
qed

text \<open>The whole of \<open>get_next_locator\<close>, by a caller that is alone.\<close>

lemma lock_walk_run:
  assumes "\<not> has_next_locator (ch_headers c h)" and "lh_is_locked (ch_headers c h) = 0"
  shows "walk_run b len h0 c (Next h q Testing) (put_chain h ((ch_headers c h)\<lparr>lh_is_locked := 1\<rparr>) c) (Next h q Reserving)"
proof -
  let ?c = "put_chain h ((ch_headers c h)\<lparr>lh_is_locked := 1\<rparr>) c"
  have "walk_step b len h0 c (Next h q Testing) c (Next h q Waiting)" using assms(1) by (rule absent)
  moreover have "walk_step b len h0 c (Next h q Waiting) ?c (Next h q Retesting)"
    using assms(2) by (intro lock_ok) (simp add: header_try_lock_def)
  moreover have "walk_step b len h0 ?c (Next h q Retesting) ?c (Next h q Reserving)"
    using assms(1) by (intro still_absent) (simp add: has_next_locator_def)
  ultimately show ?thesis by (meson moves arrived)
qed

lemma created_walk_run:
  assumes c: "shows_chain used w c" and ok: "chain_ok used H w" "h \<in> H" and held: "lh_is_locked (w_headers w h) = 1"
    and page: "sane_page (pl_sys pl)" and heap: "heap_ok pl used" and target: "\<not> cfg_macos_aarch64 (pl_target pl)"
    and al: "pl_heap_alloc pl (granularity (pl_sys pl)) algn (w_os w) = (a, st)" "a \<noteq> 0"
    and made: "\<And>w4. initialize pl a (granularity (pl_sys pl))
        (put_header h ((w_headers w h)\<lparr>lh_next_locator_ptr := a\<rparr>) (put_os st w)) = Some w4 \<Longrightarrow>
      w_headers w4 h = (w_headers w h)\<lparr>lh_next_locator_ptr := a\<rparr> \<Longrightarrow>
      r = Inr a \<and> w' = put_header h ((w_headers w4 h)\<lparr>lh_is_locked := 0\<rparr>) w4"
  shows "r = Inr a \<and> (\<exists>c'. walk_run (pl_build pl) (granularity (pl_sys pl)) h0 c (Next h q Reserving) c' (At a q Idle) \<and>
    shows_chain used w' c')"
proof -
  let ?b = "pl_build pl" and ?g = "granularity (pl_sys pl)"
  let ?run = "walk_run ?b ?g h0"
  have g: "4096 \<le> unat ?g" "unat ?g \<le> 4096 + 203 * 16384"
    using page sane_granularity(3) by (auto simp: sane_page_def)
  note hp = heap_okD [OF heap al(1)]
  have a: "a \<in> used st" "a \<notin> used (w_os w)" using hp(3,4) [OF al(2)] g(1) by auto
  have ne: "a \<noteq> h" using a(2) chain_ok_used [OF ok] by blast
  define c2 where "c2 = c\<lparr>ch_used := insert a (ch_used c)\<rparr>"
  have "walk_step ?b ?g h0 c (Next h q Reserving) c2 (Next h q (Linking a))"
    unfolding c2_def using a(2) al(2) hp(2) c by (intro reserve) (auto simp: shows_chain_def)
  note run1 = walk_run_one [OF this]
  have c2: "ch_headers c2 = w_headers (put_os st w)" using c by (simp add: c2_def shows_chain_def)
  have "length (lh_items (w_headers (put_os st w) a)) = 203" using chain_ok_slots [OF ok(1)] by simp
  from new_header_walk_run [OF target g this ne c2] obtain w4 c4 where
    init: "initialize pl a ?g (put_header h ((w_headers (put_os st w) h)\<lparr>lh_next_locator_ptr := a\<rparr>) (put_os st w)) = Some w4"
    and run2: "?run c2 (Next h q (Linking a)) c4 (Next h q Releasing)"
    and c4: "ch_headers c4 = w_headers w4" "ch_used c4 = ch_used c2" "w_machine w4 = w_machine (put_os st w)"
      "w_headers w4 h = (w_headers (put_os st w) h)\<lparr>lh_next_locator_ptr := a\<rparr>" by blast
  have r: "r = Inr a" "w' = put_header h ((w_headers w4 h)\<lparr>lh_is_locked := 0\<rparr>) w4"
    using made [of w4] init c4(4) by simp_all
  let ?c' = "put_chain h ((ch_headers c4 h)\<lparr>lh_is_locked := 0\<rparr>) c4"
  have "walk_step ?b ?g h0 c4 (Next h q Releasing) ?c' (Next h q Reading)"
    using c4 held by (intro release) (simp add: header_unlock_def)
  moreover have "walk_step ?b ?g h0 ?c' (Next h q Reading) ?c' (At a q Idle)"
    using follow [of ?b ?g h0 ?c' h q] c4 by simp
  ultimately have "?run c (Next h q Reserving) ?c' (At a q Idle)"
    by (rule walk_run_snoc [OF walk_run_snoc [OF walk_run_trans [OF run1 run2]]])
  moreover have "shows_chain used w' ?c'" using c c4 r(2) a(1) hp(1) by (auto simp: shows_chain_def c2_def)
  ultimately show ?thesis using r(1) by blast
qed

lemma next_walk_run:
  assumes ret: "get_next_locator pl (\<lambda>w. w) h w = Some (r, w')"
    and ok: "chain_ok used H w" "h \<in> H" and page: "sane_page (pl_sys pl)" and heap: "heap_ok pl used"
    and target: "\<not> cfg_macos_aarch64 (pl_target pl)" and c: "shows_chain used w c"
  shows "\<exists>c'. walk_run (pl_build pl) (granularity (pl_sys pl)) h0 c (Next h q Testing) c'
      (case r of Inr n \<Rightarrow> At n q Idle | Inl m \<Rightarrow> Outside) \<and> shows_chain used w' c'"
proof (cases "has_next_locator (w_headers w h)")
  case True
  then have eq: "r = Inr (lh_next_locator_ptr (ch_headers c h))" "w' = w"
    using ret c by (auto simp: get_next_locator_def shows_chain_def)
  have "walk_step b len h0 c (Next h q Testing) c (Next h q Reading)" for b len
    using True c by (intro present) (simp add: shows_chain_def)
  from moves [OF this moves [OF follow arrived]] c show ?thesis by (auto simp: eq)
next
  case none: False
  let ?b = "pl_build pl" and ?g = "granularity (pl_sys pl)" and ?al = "ucast (ci_page_size (pl_sys pl)) :: usize"
  let ?run = "walk_run ?b ?g h0"
  obtain w1 where lock: "lock_at (\<lambda>w. w) h w = Some w1"
    using ret none by (cases "lock_at (\<lambda>w. w) h w") (simp_all add: get_next_locator_def)
  note free = lock_at_alone [OF lock]
  define c1 where "c1 = put_chain h ((ch_headers c h)\<lparr>lh_is_locked := 1\<rparr>) c"
  have c1: "shows_chain used w1 c1" using c by (simp add: c1_def free(2) shows_chain_def)
  have run1: "?run c (Next h q Testing) c1 (Next h q Reserving)"
    using none free(1) c unfolding c1_def by (intro lock_walk_run) (simp_all add: shows_chain_def)
  have w1: "\<not> has_next_locator (w_headers w1 h)" "lh_is_locked (w_headers w1 h) = 1"
    using none by (simp_all add: free(2) has_next_locator_def)
  obtain a st where al: "pl_heap_alloc pl ?g ?al (w_os w1) = (a, st)" by fastforce
  note new = get_next_locator_new [OF none lock w1(1) al ret]
  have "\<exists>c'. ?run c1 (Next h q Reserving) c' (case r of Inr n \<Rightarrow> At n q Idle | Inl m \<Rightarrow> Outside) \<and> shows_chain used w' c'"
  proof (cases "a = 0")
    case True
    let ?c' = "put_chain h ((ch_headers c1 h)\<lparr>lh_is_locked := 0\<rparr>) c1"
    have "header_unlock ?b (ch_headers c1 h) = Some ((ch_headers c1 h)\<lparr>lh_is_locked := 0\<rparr>)"
      using w1(2) c1 by (simp add: header_unlock_def shows_chain_def)
    then have "?run c1 (Next h q Reserving) ?c' Outside" by (intro moves [OF no_memory] walk_run_one refuse)
    moreover obtain msg where "r = Inl msg" using new(1) [OF True] by blast
    moreover have "shows_chain used w' ?c'"
      using new(1) [OF True] c1 heap_okD(1) [OF heap al] by (auto simp: shows_chain_def)
    ultimately show ?thesis by auto
  next
    case False
    have "chain_ok used H w1" using lock_at_ok [OF lock ok] by (simp add: yield_ok_def)
    from created_walk_run [OF c1 this ok(2) w1(2) page heap target al False, of r w'] new(2) [OF False]
    show ?thesis by auto
  qed
  with walk_run_trans [OF run1] show ?thesis by blast
qed

section \<open>The walk along the chain\<close>

text \<open>
  C15 The sequential search is a run of the interleaved one: when \<open>get_buffer_recursive\<close> answers a caller
  that is alone, one thread of the model, started at the same header with the same request on the same chain,
  comes by its steps to the item that is returned, or out of the library again when the answer is an error, and the
  headers it leaves behind are those the library leaves.
\<close>

theorem get_buffer_is_run:
  assumes "get_buffer_recursive pl (\<lambda>w. w) q h w = Some (r, w')"
    and "search_ok pl used (\<lambda>w. w) {} (bss_size q) (bss_max_address q)" and "chain_ok used H w" "h \<in> H"
    and "\<not> cfg_macos_aarch64 (pl_target pl)" and "shows_chain used w c"
  shows "\<exists>c'. walk_run (pl_build pl) (granularity (pl_sys pl)) h0 c (At h q Idle) c'
      (case r of Inr p \<Rightarrow> At (ip_header p) q (Holding q (ip_index p)) | Inl e \<Rightarrow> Outside) \<and>
    ch_headers c' = w_headers w'"
proof -
  let ?run = "walk_run (pl_build pl) (granularity (pl_sys pl)) h0 c (At h q Idle)"
  have env: "honest_os pl" "sane_request (pl_sys pl) (bss_size q) (bss_max_address q)" "heap_ok pl used"
    "sane_page (pl_sys pl)" and yield: "yield_ok used (\<lambda>w. w)" using assms(2) by (simp_all add: search_ok_def)
  let ?I = "\<lambda>p k w. chain_ok used {k} w \<and> (\<exists>c'. ?run c' (p k) \<and> shows_chain used w c')"
  let ?R = "\<lambda>r w. \<exists>c'. ?run c' (case r of Inr p \<Rightarrow> At (ip_header p) q (Holding q (ip_index p)) | Inl e \<Rightarrow> Outside) \<and>
    ch_headers c' = w_headers w"
  show ?thesis
  proof (rule get_buffer_recursive_steps [where I = "?I (\<lambda>k. At k q Idle)" and J = "?I (\<lambda>k. At k q (Check q))"
        and K = "?I (\<lambda>k. Next k q Testing)" and R = ?R, OF assms(1)])
    show "?I (\<lambda>k. At k q Idle) h w" using assms(3,4,6) arrived chain_ok_mono [OF assms(3), of "{h}"] by blast
  next
    fix k w r w1
    assume I: "?I (\<lambda>k. At k q Idle) k w" and ret: "get_first_available_item_locked pl k (bss_size q)
      (bss_min_address q) (bss_max_address q) w = Some (r, w1)"
    then obtain c1 where c1: "?run c1 (At k q Idle)" "shows_chain used w c1" by blast
    have ok: "chain_ok used {k} w" using I by blast
    from search_walk_run [OF ret chain_ok_wf [OF ok singletonI] c1(2)] walk_run_trans [OF c1(1)]
      search_result_ok [OF ret ok singletonI]
    show "case r of Some p \<Rightarrow> ?R (Inr p) w1 | None \<Rightarrow> ?I (\<lambda>k. At k q (Check q)) k w1"
      by (cases r) (fastforce simp: shows_chain_def)+
  next
    fix k w r w1
    assume I: "?I (\<lambda>k. At k q (Check q)) k w" and ret: "try_allocate_item pl (\<lambda>w. w) k (bss_size q)
      (bss_min_address q) (bss_max_address q) w = Some (r, w1)"
    then obtain c1 where c1: "?run c1 (At k q (Check q))" "shows_chain used w c1" by blast
    have ok: "chain_ok used {k} w" using I by blast
    from try_allocate_walk_run [OF ret ok singletonI env(1-3) c1(2)] walk_run_trans [OF c1(1)]
      try_allocate_item_ok [OF ret ok singletonI yield env(1-3)]
    show "case r of Inr p \<Rightarrow> ?R (Inr p) w1 | Inl NoSpaceInHeader \<Rightarrow> ?I (\<lambda>k. Next k q Testing) k w1
      | Inl CannotAllocateMemory \<Rightarrow> ?R (Inl (search_error_new q (item_allocation_error_as_string CannotAllocateMemory))) w1"
      by (cases r; cases "projl r") (fastforce simp: shows_chain_def)+
  next
    fix k w r w1
    assume I: "?I (\<lambda>k. Next k q Testing) k w" and ret: "get_next_locator pl (\<lambda>w. w) k w = Some (r, w1)"
    then obtain c1 where c1: "?run c1 (Next k q Testing)" "shows_chain used w c1" by blast
    have ok: "chain_ok used {k} w" using I by blast
    have "chain_ok used {n} w1" if "r = Inr n" for n
      using get_next_locator_ok [OF ret ok singletonI yield env(4,3)] that chain_ok_mono [of used "{n, k}" w1 "{n}"] by auto
    with next_walk_run [OF ret ok singletonI env(4,3) assms(5) c1(2)] walk_run_trans [OF c1(1)]
    show "case r of Inr k' \<Rightarrow> ?I (\<lambda>k. At k q Idle) k' w1 | Inl m \<Rightarrow> ?R (Inl (search_error_new q m)) w1"
      by (cases r) (fastforce simp: shows_chain_def)+
  qed
qed

theorem get_buffer_is_run_witness:
  "\<exists>r w' c'. get_buffer_recursive (sample_platform 4096) (\<lambda>w. w) sample_search 0x10000 sample_world = Some (r, w') \<and>
    walk_run Debug 4096 0x10000 \<lparr>ch_headers = (\<lambda>_. sample_header), ch_used = {0x10000}\<rparr> (At 0x10000 sample_search Idle) c'
      (case r of Inr p \<Rightarrow> At (ip_header p) sample_search (Holding sample_search (ip_index p)) | Inl e \<Rightarrow> Outside) \<and>
    ch_headers c' = w_headers w'"
proof -
  let ?c = "\<lparr>ch_headers = (\<lambda>_. sample_header), ch_used = {0x10000}\<rparr>"
  have env: "search_ok (sample_platform 4096) sample_used (\<lambda>w. w) {} (bss_size sample_search) (bss_max_address sample_search)"
    using sample_search_ok by simp
  have "shows_chain sample_used sample_world ?c"
    by (simp add: shows_chain_def sample_world_def sample_used_def)
  note run = get_buffer_is_run [OF _ env sample_chain _ _ this, of "0x10000" _ _ "0x10000"]
  obtain r w' where "get_buffer_recursive (sample_platform 4096) (\<lambda>w. w) sample_search 0x10000 sample_world = Some (r, w')"
    using get_buffer_recursive_returns [OF sample_open_path _ env sample_chain] sample_answers [of 4096] by auto
  from this run [OF this] show ?thesis by (auto simp: sample_granularity)
qed

end
