(* ===== verification/Page_Bytes.thy ===== *)
theory Page_Bytes
  imports Header_Facts
begin

text \<open>
  A header as the bytes of its page, in the layout \<open>repr(C)\<close> gives it: what another user of the page
  reads there.  The model's view of a header as a record with a list of items is shown to be this one.
\<close>

section \<open>Encoding\<close>

definition item_bytes :: "locator_item \<Rightarrow> u8 list" where
  "item_bytes it =
     le_bytes 8 (li_base_address it) @ le_bytes 4 (li_size it) @ le_bytes 4 (li_position it) @ le_bytes 4 (li_is_taken it)"

text \<open>The fields of a header; the two bytes of padding behind them are not written.\<close>

definition header_bytes :: "locator_header \<Rightarrow> u8 list" where
  "header_bytes hdr =
     le_bytes 8 (lh_this_address hdr) @ le_bytes 8 (lh_next_locator_ptr hdr) @ le_bytes 4 (lh_is_locked hdr) @
     [lh_flags hdr, lh_num_items hdr]"

definition page_bytes :: "u8 list \<Rightarrow> locator_header \<Rightarrow> u8 list" where
  "page_bytes padding hdr = header_bytes hdr @ padding @ concat (map item_bytes (lh_items hdr))"

section \<open>Decoding\<close>

definition field_bytes :: "layout list \<Rightarrow> nat \<Rightarrow> u8 list \<Rightarrow> u8 list" where
  "field_bytes fs i bs = take (ly_size (fs ! i)) (drop (field_offsets 0 fs ! i) bs)"

definition item_of_bytes :: "u8 list \<Rightarrow> locator_item" where
  "item_of_bytes bs = (let f = \<lambda>i. field_bytes (LocatorItem_fields 8) i bs
     in \<lparr>li_base_address = le_word (f 0), li_size = le_word (f 1), li_position = le_word (f 2),
         li_is_taken = le_word (f 3)\<rparr>)"

definition header_of_bytes :: "u8 list \<Rightarrow> locator_item list \<Rightarrow> locator_header" where
  "header_of_bytes bs items = (let f = \<lambda>i. field_bytes (LocatorHeader_fields 8) i bs
     in \<lparr>lh_this_address = le_word (f 0), lh_next_locator_ptr = le_word (f 1), lh_is_locked = le_word (f 2),
         lh_flags = le_word (f 3), lh_num_items = le_word (f 4), lh_items = items\<rparr>)"

text \<open>What the memory shows at an address: an item, and a header with the slots that fill its page.\<close>

definition item_in :: "memory \<Rightarrow> usize \<Rightarrow> locator_item" where
  "item_in m a = item_of_bytes (read_bytes a (unat size_of_LocatorItem) m)"

definition header_in :: "memory \<Rightarrow> usize \<Rightarrow> locator_header" where
  "header_in m h = header_of_bytes (read_bytes h (unat size_of_LocatorHeader) m)
     (map (\<lambda>i. item_in m (get_item h (of_nat i))) [0..<unat MAX_ITEM_COUNT])"

lemma header_in_eq: "header_in m h = header_of_bytes (read_bytes h 24 m)
    (map (\<lambda>i. item_in m (get_item h (of_nat i))) [0..<203])"
  by (simp add: header_in_def)

lemma length_bytes [simp]: "length (item_bytes it) = 20" "length (header_bytes hdr) = 22"
  by (simp_all add: item_bytes_def header_bytes_def)

lemma item_fields:
  "field_bytes (LocatorItem_fields 8) 0 bs = take 8 bs"
  "field_bytes (LocatorItem_fields 8) 1 bs = take 4 (drop 8 bs)"
  "field_bytes (LocatorItem_fields 8) 2 bs = take 4 (drop 12 bs)"
  "field_bytes (LocatorItem_fields 8) 3 bs = take 4 (drop 16 bs)"
  unfolding field_bytes_def item_layout(1) by (simp_all add: LocatorItem_fields_def Unaligned_def)

lemma header_fields:
  "field_bytes (LocatorHeader_fields 8) 0 bs = take 8 bs"
  "field_bytes (LocatorHeader_fields 8) 1 bs = take 8 (drop 8 bs)"
  "field_bytes (LocatorHeader_fields 8) 2 bs = take 4 (drop 16 bs)"
  "field_bytes (LocatorHeader_fields 8) 3 bs = take 1 (drop 20 bs)"
  "field_bytes (LocatorHeader_fields 8) 4 bs = take 1 (drop 21 bs)"
  unfolding field_bytes_def header_layout(1) by (simp_all add: LocatorHeader_fields_def Unaligned_def)

lemma item_of_item_bytes [simp]: "item_of_bytes (item_bytes it @ bs) = it"
  unfolding item_of_bytes_def Let_def item_fields by (cases it) (simp add: item_bytes_def)

lemma item_of_item_bytes_only [simp]: "item_of_bytes (item_bytes it) = it"
  using item_of_item_bytes [of it "[]"] by simp

lemma header_of_header_bytes [simp]: "header_of_bytes (header_bytes hdr @ bs) items = hdr\<lparr>lh_items := items\<rparr>"
  unfolding header_of_bytes_def Let_def header_fields by (cases hdr) (simp add: header_bytes_def)

section \<open>Pages in memory\<close>

text \<open>Bytes that were written are read back, part by part.\<close>

lemma read_write_part:
  assumes "k + n \<le> length bs" "length bs < 2 ^ 64"
  shows "read_bytes (a + of_nat k) n (write_bytes a bs m) = take n (drop k bs)"
proof (rule nth_equalityI)
  fix i assume "i < length (read_bytes (a + of_nat k) n (write_bytes a bs m))"
  then have i: "i < n" by simp
  have "unat (of_nat (k + i) :: usize) = k + i" using assms i by (intro unat_of_nat_usize) simp
  moreover have "a + of_nat k + of_nat i - a = (of_nat (k + i) :: usize)" by simp
  ultimately have "unat (a + of_nat k + of_nat i - a) = k + i" by metis
  then show "read_bytes (a + of_nat k) n (write_bytes a bs m) ! i = take n (drop k bs) ! i"
    using assms i by (simp add: read_bytes_def write_bytes_def)
qed (use assms in simp)

lemma nth_concat_items:
  assumes "i < length items"
  shows "take 20 (drop (20 * i) (concat (map item_bytes items))) = item_bytes (items ! i)"
  using assms
proof (induction items arbitrary: i)
  case (Cons it items)
  then show ?case by (cases i) (simp_all add: algebra_simps)
qed simp

lemma length_concat_items [simp]: "length (concat (map item_bytes items)) = 20 * length items"
  by (induction items) simp_all

lemma length_page_bytes: "length padding = 2 \<Longrightarrow> length (page_bytes padding hdr) = 24 + 20 * length (lh_items hdr)"
  by (simp add: page_bytes_def)

lemma get_item_offset: "get_item h (of_nat i) = h + of_nat (24 + 20 * i)"
  by (simp add: get_item_def get_first_item_def algebra_simps)

text \<open>Reading a page back gives the header.\<close>

lemma header_in_page:
  assumes "length padding = 2" and "length (lh_items hdr) = 203"
  shows "header_in (write_bytes h (page_bytes padding hdr) m) h = hdr"
proof -
  let ?bs = "page_bytes padding hdr"
  note len = length_page_bytes [OF assms(1), of hdr]
  have "read_bytes h 24 (write_bytes h ?bs m) = header_bytes hdr @ padding"
    using read_write_part [of 0 24 ?bs h m] assms len by (simp add: page_bytes_def)
  moreover have "item_in (write_bytes h ?bs m) (get_item h (of_nat i)) = lh_items hdr ! i" if i: "i < 203" for i
  proof -
    have "read_bytes (get_item h (of_nat i)) 20 (write_bytes h ?bs m) = take 20 (drop (24 + 20 * i) ?bs)"
      unfolding get_item_offset by (rule read_write_part) (use i assms len in simp_all)
    also have "\<dots> = item_bytes (lh_items hdr ! i)"
      using nth_concat_items [of i "lh_items hdr"] i assms by (simp add: page_bytes_def)
    finally show ?thesis by (simp add: item_in_def)
  qed
  then have "map (\<lambda>i. item_in (write_bytes h ?bs m) (get_item h (of_nat i))) [0..<203] = lh_items hdr"
    using assms(2) by (intro nth_equalityI) simp_all
  ultimately show ?thesis by (simp add: header_in_def)
qed

text \<open>A header depends on the bytes of its page only.\<close>

abbreviation page_room :: "usize \<Rightarrow> bool" where
  "page_room h \<equiv> unat h + 4096 \<le> 2 ^ 64"

lemma unat_in_page:
  assumes "page_room h" "k < 4096"
  shows "unat (h + of_nat k) = unat h + k"
proof -
  have "unat (of_nat k :: usize) = k" using assms(2) by (intro unat_of_nat_usize) simp
  then show ?thesis using assms by (subst unat_add_small) simp_all
qed

lemma header_in_cong:
  assumes room: "page_room h" and same: "\<And>x. unat h \<le> unat x \<Longrightarrow> unat x < unat h + 4096 \<Longrightarrow> m' x = m x"
  shows "header_in m' h = header_in m h"
proof -
  have bytes: "read_bytes (h + of_nat k) n m' = read_bytes (h + of_nat k) n m" if "k + n \<le> 4096" for k n
    unfolding read_bytes_def
  proof (intro map_cong refl same)
    fix i assume "i \<in> set [0..<n]"
    then have "h + of_nat k + of_nat i = h + of_nat (k + i)" "k + i < 4096" using that by auto
    then show "unat h \<le> unat (h + of_nat k + of_nat i)" "unat (h + of_nat k + of_nat i) < unat h + 4096"
      using unat_in_page [OF room, of "k + i"] by (simp_all add: add.assoc)
  qed
  have "item_in m' (get_item h (of_nat i)) = item_in m (get_item h (of_nat i))" if "i < 203" for i
    using bytes [of "24 + 20 * i" 20] that unfolding item_in_def get_item_offset by simp
  then have items: "map (\<lambda>i. item_in m' (get_item h (of_nat i))) [0..<203] = map (\<lambda>i. item_in m (get_item h (of_nat i))) [0..<203]"
    by (intro map_cong) simp_all
  have "read_bytes h 24 m' = read_bytes h 24 m" using bytes [of 0 24] by simp
  then show ?thesis unfolding header_in_eq items by (rule arg_cong)
qed

lemma header_in_write_outside:
  assumes "page_room h" "unat a + length bs \<le> 2 ^ 64"
    and "unat h + 4096 \<le> unat a \<or> unat a + length bs \<le> unat h"
  shows "header_in (write_bytes a bs m) h = header_in m h"
  by (rule header_in_cong [OF assms(1)]) (use assms(2,3) in \<open>auto intro!: write_bytes_outside\<close>)

text \<open>Writing one item, and the fields of the header, as \<open>*target = item\<close> and the field updates do.\<close>

definition write_item :: "item_ptr \<Rightarrow> locator_item \<Rightarrow> memory \<Rightarrow> memory" where
  "write_item p it = write_bytes (item_ptr_address p) (item_bytes it)"

lemma item_slots_disjoint:
  assumes "page_room h" "i < 203" "j < 203" "i \<noteq> j"
  shows "unat (get_item h (of_nat i)) + 20 \<le> unat (get_item h (of_nat j)) \<or>
    unat (get_item h (of_nat j)) + 20 \<le> unat (get_item h (of_nat i))"
  using assms by (simp add: slot_address) linarith

lemma header_in_write_item:
  assumes room: "page_room h" and i: "i < 203"
  shows "header_in (write_item (Item_Ptr h i) it m) h = (header_in m h)\<lparr>lh_items := (lh_items (header_in m h))[i := it]\<rparr>"
proof -
  let ?a = "get_item h (of_nat i)" and ?m' = "write_item (Item_Ptr h i) it m"
  have a: "unat ?a = unat h + 24 + 20 * i" using slot_address [OF room i] .
  have hdr: "read_bytes h 24 ?m' = read_bytes h 24 m"
    unfolding write_item_def item_ptr_address_def using a i room by (intro read_write_disjoint) simp_all
  have "item_in ?m' (get_item h (of_nat j)) = (if j = i then it else item_in m (get_item h (of_nat j)))" if j: "j < 203" for j
  proof (cases "j = i")
    case True
    then show ?thesis using read_write_same [of "item_bytes it" ?a m]
      by (simp add: item_in_def write_item_def item_ptr_address_def)
  next
    case False
    have "read_bytes (get_item h (of_nat j)) 20 ?m' = read_bytes (get_item h (of_nat j)) 20 m"
      unfolding write_item_def item_ptr_address_def
      using item_slots_disjoint [OF room i j] slot_address [OF room j] False a i j room
      by (intro read_write_disjoint) auto
    with False show ?thesis by (simp add: item_in_def)
  qed
  then have "map (\<lambda>j. item_in ?m' (get_item h (of_nat j))) [0..<203]
      = (map (\<lambda>j. item_in m (get_item h (of_nat j))) [0..<203])[i := it]"
    by (intro nth_equalityI) (simp_all add: nth_list_update)
  with hdr show ?thesis by (simp add: header_in_def header_of_bytes_def Let_def)
qed

lemma header_in_write_fields:
  assumes room: "page_room h"
  shows "header_in (write_bytes h (header_bytes hdr) m) h = hdr\<lparr>lh_items := lh_items (header_in m h)\<rparr>"
proof -
  let ?m' = "write_bytes h (header_bytes hdr) m"
  have "read_bytes h 22 ?m' = header_bytes hdr"
    using read_write_same [of "header_bytes hdr" h m] by simp
  moreover have "read_bytes h 24 ?m' = read_bytes h 22 ?m' @ read_bytes (h + 22) 2 ?m'"
    by (simp add: read_bytes_def numeral_eq_Suc add.commute)
  moreover have "item_in ?m' (get_item h (of_nat j)) = item_in m (get_item h (of_nat j))" if j: "j < 203" for j
    unfolding item_in_def size_of
    using slot_address [OF room j] j room by (subst read_write_disjoint) simp_all
  then have "map (\<lambda>i. item_in ?m' (get_item h (of_nat i))) [0..<203] = map (\<lambda>i. item_in m (get_item h (of_nat i))) [0..<203]"
    by (intro map_cong) simp_all
  ultimately show ?thesis unfolding header_in_eq by (simp add: header_of_bytes_def [of "read_bytes h 24 m"] Let_def del: map_eq_conv)
qed

section \<open>The world and the memory\<close>

text \<open>
  The pages of a set of headers lie in the address space and do not overlap; the memory shows, at each of
  them, the header that the world has there.
\<close>

definition pages :: "usize set \<Rightarrow> bool" where
  "pages H \<longleftrightarrow> (\<forall>h \<in> H. page_room h \<and> (\<forall>k \<in> H. k \<noteq> h \<longrightarrow> unat h + 4096 \<le> unat k \<or> unat k + 4096 \<le> unat h))"

definition memory_shows :: "usize set \<Rightarrow> memory \<Rightarrow> 'o world \<Rightarrow> bool" where
  "memory_shows H m w \<longleftrightarrow> (\<forall>h \<in> H. header_in m h = w_headers w h)"

lemma memory_showsD: "memory_shows H m w \<Longrightarrow> h \<in> H \<Longrightarrow> header_in m h = w_headers w h"
  by (simp add: memory_shows_def)

text \<open>A write inside the page of one header leaves the others.\<close>

lemma write_in_page:
  assumes "pages H" "h \<in> H" "k \<in> H" "k \<noteq> h" "unat h \<le> unat a" "unat a + length bs \<le> unat h + 4096"
  shows "header_in (write_bytes a bs m) k = header_in m k"
proof (rule header_in_write_outside)
  show "page_room k" "unat a + length bs \<le> 2 ^ 64" using assms by (auto simp: pages_def)
  from assms(1-4) have "unat h + 4096 \<le> unat k \<or> unat k + 4096 \<le> unat h" by (auto simp: pages_def)
  then show "unat k + 4096 \<le> unat a \<or> unat a + length bs \<le> unat k" using assms(5,6) by auto
qed

lemma memory_shows_item:
  assumes pages: "pages H" and h: "h \<in> H" "i < 203" and view: "memory_shows H m w"
  shows "memory_shows H (write_item (Item_Ptr h i) it m) (put_item (Item_Ptr h i) it w)"
proof -
  have room: "page_room h" using pages h by (simp add: pages_def)
  have "header_in (write_item (Item_Ptr h i) it m) k = w_headers (put_item (Item_Ptr h i) it w) k" if k: "k \<in> H" for k
  proof (cases "k = h")
    case True
    with header_in_write_item [OF room h(2), of it m] memory_showsD [OF view h(1)]
    show ?thesis by (simp add: put_item_def Let_def)
  next
    case False
    have "header_in (write_item (Item_Ptr h i) it m) k = header_in m k"
      unfolding write_item_def item_ptr_address_def
      using slot_address [OF room h(2)] h(2) by (intro write_in_page [OF pages h(1) k False]) simp_all
    with False memory_showsD [OF view k] show ?thesis by (simp add: put_item_def Let_def)
  qed
  then show ?thesis by (simp add: memory_shows_def)
qed

lemma memory_shows_fields:
  assumes pages: "pages H" and h: "h \<in> H" and view: "memory_shows H m w" and hdr: "lh_items hdr = lh_items (w_headers w h)"
  shows "memory_shows H (write_bytes h (header_bytes hdr) m) (put_header h hdr w)"
proof -
  have room: "page_room h" using pages h by (simp add: pages_def)
  have "header_in (write_bytes h (header_bytes hdr) m) k = w_headers (put_header h hdr w) k" if k: "k \<in> H" for k
  proof (cases "k = h")
    case True
    with header_in_write_fields [OF room, of hdr m] memory_showsD [OF view h] hdr show ?thesis
      by (cases hdr) simp
  next
    case False
    have "header_in (write_bytes h (header_bytes hdr) m) k = header_in m k"
      by (intro write_in_page [OF pages h k False]) simp_all
    with False memory_showsD [OF view k] show ?thesis by simp
  qed
  then show ?thesis by (simp add: memory_shows_def)
qed

section \<open>Properties\<close>

text \<open>
  C7 The model of a header as a record with a list of items is what lies in memory, in the layout
  \<open>repr(C)\<close> gives it: on pages that do not overlap, a write of an item at \<open>get_item\<close>, a write of the fields
  of a header, and an append to a buffer outside the pages have the effect on the memory that the model's
  updates have on its headers, for every header of the set.
\<close>

theorem memory_refines_headers:
  assumes "pages H" and "h \<in> H" and "memory_shows H m w"
  shows "(i < 203 \<longrightarrow> memory_shows H (write_item (Item_Ptr h i) it m) (put_item (Item_Ptr h i) it w)) \<and>
    (lh_items hdr = lh_items (w_headers w h) \<longrightarrow>
      memory_shows H (write_bytes h (header_bytes hdr) m) (put_header h hdr w)) \<and>
    (wf_item buf \<and> length d \<le> free_bytes buf \<and>
      (\<forall>k \<in> H. unat k + 4096 \<le> unat (li_base_address buf) \<or>
        unat (li_base_address buf) + unat (li_size buf) \<le> unat k) \<longrightarrow>
      memory_shows H (write_bytes (next_address buf) d m) w)"
proof (intro conjI impI)
  show "memory_shows H (write_item (Item_Ptr h i) it m) (put_item (Item_Ptr h i) it w)" if "i < 203"
    using memory_shows_item [OF assms(1,2) that assms(3)] .
  show "memory_shows H (write_bytes h (header_bytes hdr) m) (put_header h hdr w)"
    if "lh_items hdr = lh_items (w_headers w h)" using memory_shows_fields [OF assms that] .
  assume buf: "wf_item buf \<and> length d \<le> free_bytes buf \<and>
    (\<forall>k \<in> H. unat k + 4096 \<le> unat (li_base_address buf) \<or> unat (li_base_address buf) + unat (li_size buf) \<le> unat k)"
  have "unat (next_address buf) + length d \<le> unat (li_base_address buf) + unat (li_size buf)"
    using buf unat_next_address(2) [of buf] by (auto simp: free_bytes_def wf_item_def word_le_nat_alt)
  moreover have "unat (li_base_address buf) \<le> unat (next_address buf)" using buf unat_next_address(2) [of buf] by simp
  ultimately have "header_in (write_bytes (next_address buf) d m) k = header_in m k" if "k \<in> H" for k
    using buf assms(1) that by (intro header_in_write_outside) (auto simp: pages_def wf_item_def)
  then show "memory_shows H (write_bytes (next_address buf) d m) w" using assms(3) by (simp add: memory_shows_def)
qed

text \<open>
  C28 The page of a header: the offsets and sizes \<open>repr(C)\<close> gives to \<open>LocatorHeader\<close> and \<open>LocatorItem\<close>
  with 64-bit and with 32-bit addresses, so that as many slots fit as \<open>MAX_ITEM_COUNT\<close> says and every slot lies
  inside the page, at a multiple of the alignment of the atomic it holds, apart from the others;
  and reading back the bytes of a page gives the header they were made from.
\<close>

theorem page_layout:
  assumes "page_room h" and "4 dvd unat h" and "length padding = 2" and "length (lh_items hdr) = unat MAX_ITEM_COUNT"
  shows "field_offsets 0 (LocatorHeader_fields 8) = [0, 8, 16, 20, 21, 22] \<and>
    field_offsets 0 (LocatorItem_fields 8) = [0, 8, 12, 16] \<and>
    field_offsets 0 (LocatorHeader_fields 4) = [0, 4, 8, 12, 13, 14] \<and>
    field_offsets 0 (LocatorItem_fields 4) = [0, 4, 8, 12] \<and>
    (i < unat MAX_ITEM_COUNT \<longrightarrow> unat h + unat size_of_LocatorHeader \<le> unat (get_item h (of_nat i)) \<and>
      unat (get_item h (of_nat i)) + unat size_of_LocatorItem \<le> unat h + 4096 \<and>
      ly_align (repr_c (LocatorItem_fields 8)) dvd unat (get_item h (of_nat i)) \<and>
      (j < unat MAX_ITEM_COUNT \<and> i \<noteq> j \<longrightarrow>
        unat (get_item h (of_nat i)) + unat size_of_LocatorItem \<le> unat (get_item h (of_nat j)) \<or>
        unat (get_item h (of_nat j)) + unat size_of_LocatorItem \<le> unat (get_item h (of_nat i)))) \<and>
    4096 < unat size_of_LocatorHeader + Suc (unat MAX_ITEM_COUNT) * unat size_of_LocatorItem \<and>
    header_in (write_bytes h (page_bytes padding hdr) m) h = hdr"
  using assms header_in_page [OF assms(3), of hdr h m] slot_address [OF assms(1), of i] item_slots_disjoint [OF assms(1), of i j]
  by (auto simp: header_layout item_layout)

text \<open>A header on a page of zeroed memory.\<close>

definition page_header :: locator_header where
  "page_header = \<lparr>lh_this_address = 0x10000, lh_next_locator_ptr = 0, lh_is_locked = 0, lh_flags = 0, lh_num_items = 1,
     lh_items = replicate 203 (locator_item_new 0x3000000 4096)\<rparr>"

definition page_memory :: memory where
  "page_memory = write_bytes 0x10000 (page_bytes [0, 0] page_header) (\<lambda>_. 0)"

lemma page_items: "length (lh_items page_header) = 203"
  by (simp add: page_header_def)

lemma page_memory_shows:
  "memory_shows {0x10000} page_memory \<lparr>w_headers = (\<lambda>_. page_header), w_machine = \<lparr>mem = m, os = st\<rparr>\<rparr>"
  by (simp add: memory_shows_def page_memory_def header_in_page page_items)

theorem page_layout_witness:
  "4096 < unat size_of_LocatorHeader + 204 * unat size_of_LocatorItem \<and> header_in page_memory 0x10000 = page_header"
  using page_layout [where h = "0x10000" and padding = "[0, 0]" and hdr = page_header and i = 0 and j = 1 and m = "\<lambda>_. 0"]
  by (simp add: page_items page_memory_def)

text \<open>Locking the item, in the memory and in the model.\<close>

theorem memory_refines_headers_witness:
  "memory_shows {0x10000} (write_item (Item_Ptr 0x10000 0) ((locator_item_new 0x3000000 4096)\<lparr>li_is_taken := 1\<rparr>) page_memory)
    (put_item (Item_Ptr 0x10000 0) ((locator_item_new 0x3000000 4096)\<lparr>li_is_taken := 1\<rparr>)
      \<lparr>w_headers = (\<lambda>_. page_header), w_machine = \<lparr>mem = (\<lambda>_. 0), os = ()\<rparr>\<rparr>)"
  using memory_refines_headers [where H = "{0x10000}" and h = "0x10000" and m = page_memory and i = 0
      and w = "\<lparr>w_headers = (\<lambda>_. page_header), w_machine = \<lparr>mem = (\<lambda>_. 0), os = ()\<rparr>\<rparr>"]
  by (simp add: pages_def page_memory_shows)

section \<open>The layout of the specification\<close>

text \<open>
  \<open>docs/specification/buffer-locator.md\<close> gives the fields of an item in another order, which the C# library
  follows: base address, taken flag, size, position.
\<close>

definition item_bytes_specified :: "locator_item \<Rightarrow> u8 list" where
  "item_bytes_specified it =
     le_bytes 8 (li_base_address it) @ le_bytes 4 (li_is_taken it) @ le_bytes 4 (li_size it) @ le_bytes 4 (li_position it)"

definition item_of_bytes_specified :: "u8 list \<Rightarrow> locator_item" where
  "item_of_bytes_specified bs = (let f = \<lambda>i. field_bytes (LocatorItem_fields 8) i bs
     in \<lparr>li_base_address = le_word (f 0), li_size = le_word (f 2), li_position = le_word (f 3), li_is_taken = le_word (f 1)\<rparr>)"

lemma item_read_as:
  "item_of_bytes_specified (item_bytes_specified it) = it"
  "item_of_bytes (item_bytes_specified it) = \<lparr>li_base_address = li_base_address it, li_size = li_is_taken it,
     li_position = li_size it, li_is_taken = li_position it\<rparr>"
  "item_of_bytes_specified (item_bytes it) = \<lparr>li_base_address = li_base_address it, li_size = li_position it,
     li_position = li_is_taken it, li_is_taken = li_size it\<rparr>"
  unfolding item_of_bytes_def item_of_bytes_specified_def Let_def item_fields
  by (simp_all add: item_bytes_def item_bytes_specified_def)

text \<open>
  C38 An item that another user of the page writes in the specified order, free, empty and of some size,
  is one of size 0 filled up to that size for the code: \<open>can_use\<close> panics on it in a debug build, and in a release
  build grants room behind the end of the buffer.  The other way round, an unlocked item of the code can never be locked by
  a user that follows the specification.
\<close>

theorem specified_items_misread:
  assumes "li_base_address it \<noteq> 0" and "li_is_taken it = 0" and "li_position it = 0" and "li_size it \<noteq> 0"
  shows "item_of_bytes_specified (item_bytes_specified it) = it \<and>
    item_of_bytes (item_bytes_specified it) = it\<lparr>li_size := 0, li_position := li_size it\<rparr> \<and>
    can_use Debug (item_of_bytes (item_bytes_specified it)) sz mn mx = None \<and>
    (unat sz + unat (li_size it) \<le> 2 ^ 32 \<and> unat (li_base_address it) + unat (li_size it) < 2 ^ 64 \<and>
      mn \<le> li_base_address it + ucast (li_size it) \<and> li_base_address it \<le> mx \<longrightarrow>
      can_use Release (item_of_bytes (item_bytes_specified it)) sz mn mx = Some True) \<and>
    \<not> fst (item_try_lock (item_of_bytes_specified (item_bytes it)))"
proof -
  have as: "item_of_bytes (item_bytes_specified it) = it\<lparr>li_size := 0, li_position := li_size it\<rparr>"
    unfolding item_read_as using assms by (cases it) simp
  have "can_use Release (it\<lparr>li_size := 0, li_position := li_size it\<rparr>) sz mn mx = Some True"
    if "unat sz + unat (li_size it) \<le> 2 ^ 32" "unat (li_base_address it) + unat (li_size it) < 2 ^ 64"
      "mn \<le> li_base_address it + ucast (li_size it)" "li_base_address it \<le> mx"
  proof -
    have "unat (- li_size it) = 2 ^ 32 - unat (li_size it)"
      using assms(4) unat_sub_if_size [of 0 "li_size it"] by (simp add: word_size unat_eq_zero)
    then have "\<not> - li_size it < sz" using that(1) by (simp add: word_less_nat_alt)
    then show ?thesis using assms(1) that
      by (simp add: can_use_def bytes_left_def wsub_def wadd_def is_allocated_def add_with_overflow_cap_def)
  qed
  moreover have "can_use Debug (it\<lparr>li_size := 0, li_position := li_size it\<rparr>) sz mn mx = None"
    using assms(1,4) by (simp add: can_use_def bytes_left_def wsub_def is_allocated_def word_neq_0_conv)
  moreover have "\<not> fst (item_try_lock (item_of_bytes_specified (item_bytes it)))"
    using assms(4) by (simp add: item_read_as item_try_lock_def Let_def)
  ultimately show ?thesis using as item_read_as(1) by simp
qed

theorem specified_items_misread_witness:
  "can_use Debug (item_of_bytes (item_bytes_specified (locator_item_new 0x3000000 4096))) 64 0 0x7FFFFFFF = None \<and>
    can_use Release (item_of_bytes (item_bytes_specified (locator_item_new 0x3000000 4096))) 64 0 0x7FFFFFFF = Some True"
  using specified_items_misread [of "locator_item_new 0x3000000 4096" 64 0 "0x7FFFFFFF"]
  by (auto simp: locator_item_new_def)

end
