(* ===== verification/Copies.thy ===== *)
theory Copies
  imports Header_Facts Locator_Header_Finder
begin

text \<open>
  The copies of the library in a process (each module that links it has its own) and their threads, looking
  for the first header at the same time: \<open>find\<close> and \<open>UnixMemoryMappedFile::new\<close> cut into the steps
  between which another thread can run.
\<close>

section \<open>Steps\<close>

text \<open>
  Where a thread is: outside \<open>find\<close>, waiting for \<open>GLOBAL_LOCK\<close>, before \<open>open\<close>, before \<open>open\<close> with \<open>O_CREAT\<close>,
  before \<open>ftruncate\<close>, before \<open>mmap\<close> (with what it has noted in \<open>already_existed\<close>), about to read the address in an
  existing file, about to store the address of its own mapping, about to set the default values, about to register the rest of
  the page range, and back with an answer.
\<close>

datatype find_pc =
    Unasked
  | Queued
  | Opening
  | Creating
  | Sizing
  | Mapping bool
  | Believing usize
  | Storing usize
  | Clearing usize
  | Dividing usize
  | Answered usize

text \<open>
  The file and its page, which all mappings show; the addresses of the mappings; and for each copy its
  \<open>LOCATOR_HEADER_ADDRESS\<close> and whether its \<open>GLOBAL_LOCK\<close> is taken.
\<close>

record shared_page =
  sp_exists :: bool
  sp_sized :: bool
  sp_page :: locator_header
  sp_mapped :: "usize set"
  sp_found :: "nat \<Rightarrow> usize"
  sp_busy :: "nat \<Rightarrow> bool"

text \<open>
  \<open>len\<close> is the length of the file, \<open>k\<close> the copy.  \<open>O_CREAT\<close> without \<open>O_EXCL\<close> opens the file that another
  has made meanwhile.  Reading a page of a file that has no length yet ends the process, so it is no step; neither is a
  failing call.  The clean-up of stale files does not touch this one.
\<close>

inductive find_step :: "build \<Rightarrow> usize \<Rightarrow> nat \<Rightarrow> shared_page \<Rightarrow> find_pc \<Rightarrow> shared_page \<Rightarrow> find_pc \<Rightarrow> bool" for b len k where
  cached: "sp_found s k \<noteq> 0 \<Longrightarrow> find_step b len k s Unasked s (Answered (sp_found s k))"
| ask: "sp_found s k = 0 \<Longrightarrow> find_step b len k s Unasked s Queued"
| global_lock: "\<not> sp_busy s k \<Longrightarrow> find_step b len k s Queued (s\<lparr>sp_busy := (sp_busy s)(k := True)\<rparr>) Opening"
| open_ok: "sp_exists s \<Longrightarrow> find_step b len k s Opening s (Mapping True)"
| open_fail: "\<not> sp_exists s \<Longrightarrow> find_step b len k s Opening s Creating"
| create: "find_step b len k s Creating (s\<lparr>sp_exists := True\<rparr>) Sizing"
| resize: "find_step b len k s Sizing (s\<lparr>sp_sized := True\<rparr>) (Mapping False)"
| map_old: "a \<noteq> 0 \<Longrightarrow> a \<notin> sp_mapped s \<Longrightarrow>
    find_step b len k s (Mapping True) (s\<lparr>sp_mapped := insert a (sp_mapped s)\<rparr>) (Believing a)"
| map_new: "a \<noteq> 0 \<Longrightarrow> a \<notin> sp_mapped s \<Longrightarrow>
    find_step b len k s (Mapping False) (s\<lparr>sp_mapped := insert a (sp_mapped s)\<rparr>) (Storing a)"
| believe: "sp_sized s \<Longrightarrow> find_step b len k s (Believing a)
    (s\<lparr>sp_found := (sp_found s)(k := lh_this_address (sp_page s)), sp_mapped := sp_mapped s - {a},
       sp_busy := (sp_busy s)(k := False)\<rparr>)
    (Answered (lh_this_address (sp_page s)))"
| store: "find_step b len k s (Storing a) (s\<lparr>sp_found := (sp_found s)(k := a)\<rparr>) (Clearing a)"
| clear: "find_step b len k s (Clearing a) (s\<lparr>sp_page := set_default_values a (sp_page s)\<rparr>) (Dividing a)"
| divide: "wsub b len HEADER_LENGTH = Some remaining \<Longrightarrow>
    initialize_remaining_space_as_buffers b (sp_page s) (ucast remaining) = Some hdr \<Longrightarrow>
    find_step b len k s (Dividing a) (s\<lparr>sp_page := hdr, sp_busy := (sp_busy s)(k := False)\<rparr>) (Answered a)"
| finish: "find_step b len k s (Answered h) s Unasked"

inductive_cases find_stepE: "find_step b len k s p s' p'"

text \<open>A thread that makes the header: it found no file and has not finished initializing the page.\<close>

fun making :: "find_pc \<Rightarrow> bool" where
  "making Creating = True"
| "making Sizing = True"
| "making (Mapping e) = (\<not> e)"
| "making (Storing a) = True"
| "making (Clearing a) = True"
| "making (Dividing a) = True"
| "making _ = False"

text \<open>
  \<open>copy\<close> gives the copy of each thread.  Any thread may take the next step.  In an \<open>in_turn\<close> execution no
  thread opens the file while a thread of another copy is making the header; the code does not enforce this.
\<close>

definition new_process :: "usize set \<Rightarrow> locator_item list \<Rightarrow> shared_page" where
  "new_process views items =
     \<lparr>sp_exists = False, sp_sized = False,
      sp_page = \<lparr>lh_this_address = 0, lh_next_locator_ptr = 0, lh_is_locked = 0, lh_flags = 0, lh_num_items = 0, lh_items = items\<rparr>,
      sp_mapped = views, sp_found = (\<lambda>_. 0), sp_busy = (\<lambda>_. False)\<rparr>"

inductive finds ::
  "bool \<Rightarrow> build \<Rightarrow> usize \<Rightarrow> (nat \<Rightarrow> nat) \<Rightarrow> shared_page \<Rightarrow> shared_page \<Rightarrow> (nat \<Rightarrow> find_pc) \<Rightarrow> bool"
  for in_turn b len copy s0 where
  start: "finds in_turn b len copy s0 s0 (\<lambda>_. Unasked)"
| go: "finds in_turn b len copy s0 s P \<Longrightarrow> find_step b len (copy t) s (P t) s' p' \<Longrightarrow>
    (\<And>u. in_turn \<Longrightarrow> P t = Opening \<Longrightarrow> making (P u) \<Longrightarrow> copy u = copy t) \<Longrightarrow>
    finds in_turn b len copy s0 s' (P(t := p'))"

section \<open>The lock of a copy\<close>

fun in_lock :: "find_pc \<Rightarrow> bool" where
  "in_lock Unasked = False"
| "in_lock Queued = False"
| "in_lock (Answered h) = False"
| "in_lock _ = True"

lemma making_in_lock: "making p \<Longrightarrow> in_lock p"
  by (cases p) simp_all

definition locks_ok :: "(nat \<Rightarrow> nat) \<Rightarrow> shared_page \<Rightarrow> (nat \<Rightarrow> find_pc) \<Rightarrow> bool" where
  "locks_ok copy s P \<longleftrightarrow> (\<forall>t. in_lock (P t) \<longrightarrow> sp_busy s (copy t) \<and> (\<forall>u. in_lock (P u) \<and> copy u = copy t \<longrightarrow> u = t))"

lemma locks_ok_step:
  assumes "locks_ok copy s P" "find_step b len (copy t) s (P t) s' p'"
  shows "locks_ok copy s' (P(t := p'))"
  using assms(2)
proof cases
  case global_lock
  then have "\<not> in_lock (P u)" if "copy u = copy t" for u
    using assms(1) that unfolding locks_ok_def by metis
  with assms(1) global_lock show ?thesis by (auto simp: locks_ok_def)
qed (use assms(1) in \<open>auto simp: locks_ok_def\<close>)

lemma finds_locks: "finds in_turn b len copy (new_process views items) s P \<Longrightarrow> locks_ok copy s P"
proof (induction rule: finds.induct)
  case start
  show ?case by (simp add: locks_ok_def)
qed (rule locks_ok_step)

text \<open>With one copy, every execution is in turn.\<close>

lemma one_copy_in_turn:
  assumes "finds False b len (\<lambda>_. k) s0 s P"
  shows "finds True b len (\<lambda>_. k) s0 s P"
  using assms
proof (induction rule: finds.induct)
  case start
  show ?case by (rule finds.start)
next
  case (go s P t s' p')
  from go(4) go(2) show ?case by (rule finds.go) simp
qed

section \<open>The phases of an execution\<close>

text \<open>Nobody has made the header yet, a thread is making it, or it is there, at one address for everybody.\<close>

datatype phase =
    Early
  | Made_by nat
  | Settled usize

abbreviation resting :: "find_pc \<Rightarrow> bool" where
  "resting p \<equiv> p = Unasked \<or> p = Queued \<or> p = Opening"

abbreviation zero_page :: "locator_item list \<Rightarrow> locator_header" where
  "zero_page items \<equiv> sp_page (new_process {} items)"

text \<open>What holds while a thread of the copy \<open>k\<close> is at a step of making the header.\<close>

fun stage_ok :: "locator_item list \<Rightarrow> shared_page \<Rightarrow> nat \<Rightarrow> find_pc \<Rightarrow> bool" where
  "stage_ok items s k (Dividing a) \<longleftrightarrow> a \<noteq> 0 \<and> sp_exists s \<and> sp_sized s \<and>
     sp_page s = set_default_values a (zero_page items) \<and> sp_found s = (\<lambda>_. 0)(k := a)"
| "stage_ok items s k (Clearing a) \<longleftrightarrow> a \<noteq> 0 \<and> sp_exists s \<and> sp_sized s \<and>
     sp_page s = zero_page items \<and> sp_found s = (\<lambda>_. 0)(k := a)"
| "stage_ok items s k (Storing a) \<longleftrightarrow> a \<noteq> 0 \<and> sp_exists s \<and> sp_sized s \<and> sp_page s = zero_page items \<and> sp_found s = (\<lambda>_. 0)"
| "stage_ok items s k (Mapping e) \<longleftrightarrow> \<not> e \<and> sp_exists s \<and> sp_sized s \<and> sp_page s = zero_page items \<and> sp_found s = (\<lambda>_. 0)"
| "stage_ok items s k Sizing \<longleftrightarrow> sp_exists s \<and> sp_page s = zero_page items \<and> sp_found s = (\<lambda>_. 0)"
| "stage_ok items s k Creating \<longleftrightarrow> sp_page s = zero_page items \<and> sp_found s = (\<lambda>_. 0)"
| "stage_ok items s k _ \<longleftrightarrow> False"

fun phase_ok :: "(nat \<Rightarrow> nat) \<Rightarrow> nat \<Rightarrow> locator_item list \<Rightarrow> shared_page \<Rightarrow> (nat \<Rightarrow> find_pc) \<Rightarrow> phase \<Rightarrow> bool" where
  "phase_ok copy len items s P Early \<longleftrightarrow>
     \<not> sp_exists s \<and> sp_page s = zero_page items \<and> sp_found s = (\<lambda>_. 0) \<and> (\<forall>t. resting (P t))"
| "phase_ok copy len items s P (Made_by t) \<longleftrightarrow> stage_ok items s (copy t) (P t) \<and>
     (\<forall>u. u \<noteq> t \<longrightarrow> resting (P u) \<or> P u = Answered (sp_found s (copy t)) \<and> sp_found s (copy t) \<noteq> 0)"
| "phase_ok copy len items s P (Settled h) \<longleftrightarrow> h \<noteq> 0 \<and> sp_exists s \<and> sp_sized s \<and> sp_page s = fresh_header h len items \<and>
     (\<forall>k. sp_found s k = 0 \<or> sp_found s k = h) \<and> (\<forall>t. \<not> making (P t) \<and> (\<forall>v. P t = Answered v \<longrightarrow> v = h))"

lemma stage_making: "stage_ok items s k p \<Longrightarrow> making p"
  by (cases p) simp_all

lemma early_step:
  assumes "phase_ok copy len items s P Early" "find_step b n (copy t) s (P t) s' p'"
  shows "\<exists>ph. phase_ok copy len items s' (P(t := p')) ph"
proof (cases "p' = Creating")
  case True
  from assms(2) have "phase_ok copy len items s' (P(t := p')) (Made_by t)"
    by cases (use True assms(1) in auto)
  then show ?thesis ..
next
  case False
  from assms(1) have "resting (P t)" by simp
  from assms(2) have "phase_ok copy len items s' (P(t := p')) Early"
    by cases (use False \<open>resting (P t)\<close> assms(1) in auto)
  then show ?thesis ..
qed

lemma settled_step:
  assumes "phase_ok copy len items s P (Settled h)" "find_step b n (copy t) s (P t) s' p'"
  shows "phase_ok copy len items s' (P(t := p')) (Settled h)"
proof -
  from assms(1) have page: "h \<noteq> 0" "sp_exists s" "sp_sized s" "sp_page s = fresh_header h len items" "lh_this_address (sp_page s) = h"
    and found: "\<And>k. sp_found s k \<noteq> 0 \<Longrightarrow> sp_found s k = h" and quiet: "\<And>u. \<not> making (P u)"
    and told: "\<And>u v. P u = Answered v \<Longrightarrow> v = h"
    by (auto simp: fresh_header_def)
  from assms(2) show ?thesis
    by cases (use page found quiet [of t] in \<open>auto simp: quiet dest: told\<close>)
qed

lemma maker_step:
  assumes ph: "phase_ok copy (unat n) items s P (Made_by t)" and step: "find_step b n (copy t) s (P t) s' p'"
    and len: "4096 \<le> unat n" "unat n \<le> 4096 + 203 * 16384" and items: "length items = 203"
  shows "\<exists>ph. phase_ok copy (unat n) items s' (P(t := p')) ph"
proof (cases "making p'")
  case True
  from ph have st: "stage_ok items s (copy t) (P t)" by simp
  from step have "phase_ok copy (unat n) items s' (P(t := p')) (Made_by t)"
    by cases (use True st ph in auto)
  then show ?thesis ..
next
  case False
  from ph have st: "stage_ok items s (copy t) (P t)" by simp
  from step obtain a remaining hdr where d: "P t = Dividing a" "p' = Answered a"
    "s' = s\<lparr>sp_page := hdr, sp_busy := (sp_busy s)(copy t := False)\<rparr>" "wsub b n HEADER_LENGTH = Some remaining"
    "initialize_remaining_space_as_buffers b (sp_page s) (ucast remaining) = Some hdr"
    by cases (use False st in auto)
  then have "hdr = fresh_header a (unat n) items"
    using buffers_default(1) [OF len, of "zero_page items" b] buffers_default(2) [OF len, of "zero_page items" b a] st items by (simp add: new_process_def)
  with d(1-3) st ph have "phase_ok copy (unat n) items s' (P(t := p')) (Settled a)"
    by (auto split: if_splits)
  then show ?thesis ..
qed

lemma other_step:
  assumes ph: "phase_ok copy len items s P (Made_by u)" and step: "find_step b n (copy t) s (P t) s' p'" and "t \<noteq> u"
    and locks: "locks_ok copy s P" and in_turn: "P t = Opening \<Longrightarrow> making (P u) \<Longrightarrow> copy u = copy t"
  shows "phase_ok copy len items s' (P(t := p')) (Made_by u)"
proof -
  from ph assms(3) have st: "stage_ok items s (copy u) (P u)"
    and t: "resting (P t) \<or> P t = Answered (sp_found s (copy u)) \<and> sp_found s (copy u) \<noteq> 0"
    and rest: "\<And>v. v \<noteq> u \<Longrightarrow> resting (P v) \<or> P v = Answered (sp_found s (copy u)) \<and> sp_found s (copy u) \<noteq> 0" by auto
  note maker = stage_making [OF st]
  have no_open: "P t \<noteq> Opening"
  proof
    assume at_open: "P t = Opening"
    with in_turn maker have "copy u = copy t" by blast
    with at_open locks making_in_lock [OF maker] assms(3) show False by (metis in_lock.simps(4) locks_ok_def)
  qed
  have same: "copy t = copy u" if "sp_found s (copy t) \<noteq> 0"
    using st that by (cases "P u") (auto split: if_splits)
  have busy: "stage_ok items (s\<lparr>sp_busy := f\<rparr>) (copy u) (P u) = stage_ok items s (copy u) (P u)" for f
    by (cases "P u") simp_all
  from step show ?thesis
    by cases (use no_open same busy t st rest assms(3) in auto)
qed

lemma phase_step:
  assumes "phase_ok copy (unat n) items s P ph" and "locks_ok copy s P" and "find_step b n (copy t) s (P t) s' p'"
    and "4096 \<le> unat n" "unat n \<le> 4096 + 203 * 16384" and "length items = 203"
    and "\<And>u. P t = Opening \<Longrightarrow> making (P u) \<Longrightarrow> copy u = copy t"
  shows "\<exists>ph. phase_ok copy (unat n) items s' (P(t := p')) ph"
proof (cases ph)
  case Early
  with assms(1,3) early_step show ?thesis by blast
next
  case (Settled h)
  with assms(1,3) settled_step show ?thesis by blast
next
  case (Made_by u)
  then show ?thesis
  proof (cases "t = u")
    case True
    with Made_by maker_step [OF _ _ assms(4-6)] assms(1,3) show ?thesis by blast
  next
    case False
    with Made_by other_step [OF _ assms(3) False assms(2,7)] assms(1) show ?thesis by blast
  qed
qed

lemma finds_phase:
  assumes "finds True b len copy (new_process views items) s P"
    and len: "4096 \<le> unat len" "unat len \<le> 4096 + 203 * 16384" and items: "length items = 203"
  shows "\<exists>ph. phase_ok copy (unat len) items s P ph"
  using assms(1)
proof (induction rule: finds.induct)
  case start
  have "phase_ok copy (unat len) items (new_process views items) (\<lambda>_. Unasked) Early" by (simp add: new_process_def)
  then show ?case ..
next
  case (go s P t s' p')
  from go(4) obtain ph where "phase_ok copy (unat len) items s P ph" by blast
  from phase_step [OF this finds_locks [OF go(1)] go(2) len items] go(3) show ?case by blast
qed

end
