(* ===== verification/Copies_Properties.thy ===== *)
theory Copies_Properties
  imports Copies Finder_Properties
begin

text \<open>
  The first header of a process as its copies of the library find it: they agree when the header is
  made before another copy opens the file, and need not otherwise.
\<close>

section \<open>Runs of one thread\<close>

inductive find_run :: "build \<Rightarrow> usize \<Rightarrow> nat \<Rightarrow> shared_page \<Rightarrow> find_pc \<Rightarrow> shared_page \<Rightarrow> find_pc \<Rightarrow> bool" for b len k where
  stays: "find_run b len k s p s p"
| then_goes: "find_step b len k s p s1 p1 \<Longrightarrow> find_run b len k s1 p1 s' p' \<Longrightarrow> find_run b len k s p s' p'"

lemma run_finds:
  assumes "find_run b len (copy t) s p s' p'" and "finds in_turn b len copy s0 s P" and "P t = p"
    and "\<And>u. in_turn \<Longrightarrow> u \<noteq> t \<Longrightarrow> \<not> making (P u)"
  shows "finds in_turn b len copy s0 s' (P(t := p'))"
  using assms
proof (induction arbitrary: P rule: find_run.induct)
  case (stays s p)
  then have "P(t := p) = P" by auto
  with stays show ?case by simp
next
  case (then_goes s p s1 p1 s' p')
  have "copy u = copy t" if in_turn "P t = Opening" "making (P u)" for u
    using that then_goes.prems(3) by (cases "u = t") auto
  then have "finds in_turn b len copy s0 s1 (P(t := p1))"
    using then_goes.prems then_goes.hyps(1) by (intro finds.go) auto
  then have "finds in_turn b len copy s0 s' ((P(t := p1))(t := p'))"
    by (rule then_goes.IH) (use then_goes.prems(3) in auto)
  then show ?case by (simp only: fun_upd_upd)
qed

text \<open>A copy that finds no file makes the header; one that finds it believes the address in it.\<close>

lemma run_creates:
  assumes "a \<noteq> 0" "a \<notin> sp_mapped s" and len: "4096 \<le> unat len" "unat len \<le> 4096 + 203 * 16384"
    and "length (lh_items (sp_page s)) = 203"
  shows "find_run b len k s Creating
    (s\<lparr>sp_exists := True, sp_sized := True, sp_mapped := insert a (sp_mapped s), sp_found := (sp_found s)(k := a),
       sp_page := fresh_header a (unat len) (lh_items (sp_page s)), sp_busy := (sp_busy s)(k := False)\<rparr>) (Answered a)"
proof -
  note goes = find_run.then_goes
  let ?s2 = "s\<lparr>sp_exists := True, sp_sized := True\<rparr>"
  have 1: "find_step b len k s Creating (s\<lparr>sp_exists := True\<rparr>) Sizing"
    "find_step b len k (s\<lparr>sp_exists := True\<rparr>) Sizing ?s2 (Mapping False)"
    by (rule find_step.create, rule find_step.resize)
  let ?s3 = "?s2\<lparr>sp_mapped := insert a (sp_mapped s)\<rparr>" and ?s4 = "?s2\<lparr>sp_mapped := insert a (sp_mapped s), sp_found := (sp_found s)(k := a)\<rparr>"
  have 2: "find_step b len k ?s2 (Mapping False) ?s3 (Storing a)" "find_step b len k ?s3 (Storing a) ?s4 (Clearing a)"
    using find_step.map_new [where s = ?s2 and a = a and b = b and k = k] find_step.store [where s = ?s3 and b = b and k = k] assms(1,2) by simp_all
  let ?s5 = "?s4\<lparr>sp_page := set_default_values a (sp_page s)\<rparr>"
  let ?s6 = "?s5\<lparr>sp_page := fresh_header a (unat len) (lh_items (sp_page s)), sp_busy := (sp_busy s)(k := False)\<rparr>"
  have 3: "find_step b len k ?s4 (Clearing a) ?s5 (Dividing a)" "find_step b len k ?s5 (Dividing a) ?s6 (Answered a)"
    using find_step.clear [where s = ?s4 and a = a and b = b and k = k]
      find_step.divide [where s = ?s5 and b = b and k = k and len = len]
      buffers_default [OF len assms(5)] by simp_all
  have "find_run b len k s Creating ?s6 (Answered a)"
    by (rule goes [OF 1(1) goes [OF 1(2) goes [OF 2(1) goes [OF 2(2) goes [OF 3(1) goes [OF 3(2) find_run.stays]]]]]])
  then show ?thesis by simp
qed

lemma run_misses:
  assumes "sp_found s k = 0" "\<not> sp_busy s k" "\<not> sp_exists s"
  shows "find_run b len k s Unasked (s\<lparr>sp_busy := (sp_busy s)(k := True)\<rparr>) Creating"
proof -
  note goes = find_run.then_goes
  let ?s1 = "s\<lparr>sp_busy := (sp_busy s)(k := True)\<rparr>"
  have "find_step b len k s Unasked s Queued" "find_step b len k s Queued ?s1 Opening" "find_step b len k ?s1 Opening ?s1 Creating"
    using assms by (auto intro: find_step.intros)
  then show ?thesis by (blast intro: goes find_run.stays)
qed

lemma run_trans: "find_run b len k s p s1 p1 \<Longrightarrow> find_run b len k s1 p1 s' p' \<Longrightarrow> find_run b len k s p s' p'"
  by (induction rule: find_run.induct) (auto intro: find_run.then_goes)

lemma run_makes:
  assumes "sp_found s k = 0" "\<not> sp_busy s k" "\<not> sp_exists s" and "a \<noteq> 0" "a \<notin> sp_mapped s"
    and "4096 \<le> unat len" "unat len \<le> 4096 + 203 * 16384" and "length (lh_items (sp_page s)) = 203"
  obtains s' where "find_run b len k s Unasked s' (Answered a)" "sp_exists s'" "sp_sized s'" "sp_busy s' = (sp_busy s)(k := False)"
    "sp_found s' = (sp_found s)(k := a)" "sp_page s' = fresh_header a (unat len) (lh_items (sp_page s))"
    "sp_mapped s' = insert a (sp_mapped s)"
  using run_trans [OF run_misses [OF assms(1-3)] run_creates [of a _ len b k]] assms(4-8) by simp

lemma run_believes:
  assumes "sp_found s k = 0" "\<not> sp_busy s k" "sp_exists s" "sp_sized s" and "a \<noteq> 0" "a \<notin> sp_mapped s"
  shows "find_run b len k s Unasked
    (s\<lparr>sp_found := (sp_found s)(k := lh_this_address (sp_page s)), sp_busy := (sp_busy s)(k := False)\<rparr>)
    (Answered (lh_this_address (sp_page s)))"
proof -
  note goes = find_run.then_goes
  let ?s1 = "s\<lparr>sp_busy := (sp_busy s)(k := True)\<rparr>" and ?h = "lh_this_address (sp_page s)"
  let ?s2 = "?s1\<lparr>sp_mapped := insert a (sp_mapped s)\<rparr>"
  let ?s3 = "?s2\<lparr>sp_found := (sp_found s)(k := ?h), sp_mapped := sp_mapped s, sp_busy := (sp_busy s)(k := False)\<rparr>"
  have 1: "find_step b len k s Unasked s Queued" "find_step b len k s Queued ?s1 Opening" "find_step b len k ?s1 Opening ?s1 (Mapping True)"
    using assms(1-3) by (auto intro: find_step.intros)
  have 2: "find_step b len k ?s1 (Mapping True) ?s2 (Believing a)" "find_step b len k ?s2 (Believing a) ?s3 (Answered ?h)"
    using find_step.map_old [where s = ?s1 and a = a and b = b and k = k] find_step.believe [where s = ?s2 and a = a and b = b and k = k] assms(4-6) by simp_all
  have "find_run b len k s Unasked ?s3 (Answered ?h)"
    by (rule goes [OF 1(1) goes [OF 1(2) goes [OF 1(3) goes [OF 2(1) goes [OF 2(2) find_run.stays]]]]])
  then show ?thesis by simp
qed

section \<open>Properties\<close>

lemma resting_quiet: "resting p \<Longrightarrow> \<not> making p \<and> p \<noteq> Answered a"
  by auto

lemma phase_agrees:
  assumes ph: "phase_ok copy len items s P ph"
  obtains m c where "\<And>t. making (P t) \<Longrightarrow> m = Some t" and "\<And>t h. P t = Answered h \<Longrightarrow> h = c \<and> c \<noteq> 0"
    and "\<And>t h. P t = Answered h \<Longrightarrow> (\<And>v. \<not> making (P v)) \<Longrightarrow> sp_exists s \<and> sp_page s = fresh_header h len items"
proof (cases ph)
  case Early
  with ph have "resting (P v)" for v by simp
  then have quiet: "\<not> making (P v)" "P v \<noteq> Answered a" for v a using resting_quiet by blast+
  show thesis by (rule that [of None 0]) (use quiet in auto)
next
  case (Made_by w)
  with ph have mk: "making (P w)" and rest: "v \<noteq> w \<Longrightarrow> resting (P v) \<or> P v = Answered (sp_found s (copy w)) \<and> sp_found s (copy w) \<noteq> 0" for v
    using stage_making by auto
  have quiet: "\<not> making (P v)" "P v = Answered a \<Longrightarrow> a = sp_found s (copy w) \<and> sp_found s (copy w) \<noteq> 0" if "v \<noteq> w" for v a
    using rest [OF that] by auto
  have "P w \<noteq> Answered a" for a using mk by auto
  with quiet mk show thesis by (intro that [of "Some w" "sp_found s (copy w)"]) metis+
next
  case (Settled h)
  with ph have "h \<noteq> 0" "sp_exists s" "sp_page s = fresh_header h len items" "\<And>v. \<not> making (P v)"
    "\<And>v a. P v = Answered a \<Longrightarrow> a = h" by auto
  then show thesis by (intro that [of None h]) metis+
qed

text \<open>
  C6 The copies of the library and their threads agree on the first header of the process, when no copy opens the
  file while another one is making the header, or when there is only one copy: at most one thread makes
  it, all answers of \<open>find\<close> are the same address and not null, and once nobody is making it the page holds
  the initialized header with that address.
\<close>

theorem copies_agree:
  assumes "finds in_turn b len copy (new_process views items) s P" and "in_turn \<or> copy = (\<lambda>_. k)"
    and "4096 \<le> unat len" "unat len \<le> 4096 + 203 * 16384" and "length items = 203"
  shows "(making (P t) \<and> making (P u) \<longrightarrow> t = u) \<and>
    (P t = Answered h \<longrightarrow> h \<noteq> 0 \<and> (P u = Answered h' \<longrightarrow> h' = h) \<and>
      ((\<forall>v. \<not> making (P v)) \<longrightarrow> sp_exists s \<and> sp_page s = fresh_header h (unat len) items))"
proof -
  have "finds True b len copy (new_process views items) s P"
  proof (cases in_turn)
    case False
    with assms(1,2) one_copy_in_turn show ?thesis by auto
  qed (use assms(1) in simp)
  from finds_phase [OF this assms(3-5)] obtain ph where "phase_ok copy (unat len) items s P ph" ..
  then obtain m c where "\<And>t. making (P t) \<Longrightarrow> m = Some t" "\<And>t h. P t = Answered h \<Longrightarrow> h = c \<and> c \<noteq> 0"
    "\<And>t h. P t = Answered h \<Longrightarrow> (\<And>v. \<not> making (P v)) \<Longrightarrow> sp_exists s \<and> sp_page s = fresh_header h (unat len) items"
    by (rule phase_agrees) blast
  then show ?thesis by (metis option.inject)
qed

text \<open>A new process with two copies: the first one makes the header, the second one finds it.\<close>

abbreviation empty_items :: "locator_item list" where
  "empty_items \<equiv> replicate 203 (locator_item_new 0 0)"

lemma new_process_sel [simp]:
  "sp_exists (new_process V items) = False" "sp_found (new_process V items) = (\<lambda>_. 0)" "sp_busy (new_process V items) = (\<lambda>_. False)"
  "sp_mapped (new_process V items) = V" "lh_items (sp_page (new_process V items)) = items"
  by (simp_all add: new_process_def)

lemma unset [simp]: "(\<lambda>_. False)(k := False) = (\<lambda>_. False)"
  by auto

lemma first_copy:
  obtains s where "finds in_turn Debug 4096 (\<lambda>t. t) (new_process {} empty_items) s ((\<lambda>_. Unasked)(0 := Answered 0x20000))"
    "sp_exists s" "sp_sized s" "sp_busy s = (\<lambda>_. False)" "sp_found s = (\<lambda>_. 0)(0 := 0x20000)" "sp_page s = fresh_header 0x20000 4096 empty_items"
    "sp_mapped s = {0x20000}"
proof -
  have "finds in_turn Debug 4096 (\<lambda>t. t) (new_process {} empty_items) (new_process {} empty_items) (\<lambda>_. Unasked)"
    by (rule finds.start)
  obtain s where s: "find_run Debug 4096 0 (new_process {} empty_items) Unasked s (Answered 0x20000)" "sp_exists s" "sp_sized s"
    "sp_busy s = (\<lambda>_. False)" "sp_found s = (\<lambda>_. 0)(0 := 0x20000)" "sp_page s = fresh_header 0x20000 4096 empty_items" "sp_mapped s = {0x20000}"
    by (rule run_makes [of "new_process {} empty_items" 0 "0x20000" 4096 Debug]) simp_all
  have "finds in_turn Debug 4096 (\<lambda>t. t) (new_process {} empty_items) s ((\<lambda>_. Unasked)(0 := Answered 0x20000))"
    by (rule run_finds [OF _ finds.start]) (use s(1) in simp_all)
  with s(2-) show thesis by (intro that)
qed

theorem copies_agree_witness:
  "\<exists>s P. finds True Debug 4096 (\<lambda>t. t) (new_process {} empty_items) s P \<and> P 0 = Answered 0x20000 \<and> P 1 = Answered 0x20000 \<and>
    sp_page s = fresh_header 0x20000 4096 empty_items"
proof -
  obtain s where s: "finds True Debug 4096 (\<lambda>t. t) (new_process {} empty_items) s ((\<lambda>_. Unasked)(0 := Answered 0x20000))"
    "sp_exists s" "sp_sized s" "sp_busy s = (\<lambda>_. False)" "sp_found s = (\<lambda>_. 0)(0 := 0x20000)" "sp_page s = fresh_header 0x20000 4096 empty_items"
    "sp_mapped s = {0x20000}"
    by (rule first_copy)
  let ?P = "((\<lambda>_. Unasked)(0 := Answered 0x20000))(1 := Answered 0x20000)"
  have page: "lh_this_address (sp_page s) = 0x20000" using s(6) by (simp add: fresh_header_def)
  have "\<exists>s'. find_run Debug 4096 1 s Unasked s' (Answered 0x20000)"
    using run_believes [of s 1 "0x30000" Debug 4096] s(2-7) page by auto
  then obtain s' where "find_run Debug 4096 1 s Unasked s' (Answered 0x20000)" ..
  then have s': "finds True Debug 4096 (\<lambda>t. t) (new_process {} empty_items) s' ?P"
    by (rule run_finds [OF _ s(1)]) simp_all
  have "\<not> making (?P v)" "?P 0 = Answered 0x20000" for v by simp_all
  with copies_agree [OF s', of 0 0 1 "0x20000"] have "sp_page s' = fresh_header 0x20000 4096 empty_items" by auto
  with s' show ?thesis by (intro exI [of _ s'] exI [of _ ?P]) simp
qed

text \<open>
  C22 The code does not keep that order: \<open>open\<close> comes first and creates without \<open>O_EXCL\<close>.  Two copies that both miss
  the file both make it: each ends with another address, and the page names the second, initialized over
  what the first may have registered there.  And a copy that opens the file before it is initialized reads the
  address in it as null, which \<open>find\<close> returns.
\<close>

theorem copies_disagree:
  "(\<exists>s P. finds False Debug 4096 (\<lambda>t. t) (new_process {} empty_items) s P \<and> P 0 = Answered 0x20000 \<and>
      P 1 = Answered 0x30000 \<and> sp_found s 0 = 0x20000 \<and> sp_page s = fresh_header 0x30000 4096 empty_items) \<and>
    (\<exists>s P. finds False Debug 4096 (\<lambda>t. t) (new_process {} empty_items) s P \<and> P 1 = Answered 0)"
proof
  let ?s0 = "new_process {} empty_items"
  let ?s1 = "?s0\<lparr>sp_busy := (\<lambda>_. False)(0 := True)\<rparr>" and ?s2 = "?s0\<lparr>sp_busy := (\<lambda>_. False)(0 := True, 1 := True)\<rparr>"
  let ?P1 = "(\<lambda>_. Unasked)(0 := Creating)" and ?P2 = "((\<lambda>_. Unasked)(0 := Creating))(1 := Creating)"
  have 1: "finds False Debug 4096 (\<lambda>t. t) ?s0 ?s1 ?P1"
    by (rule run_finds [OF _ finds.start]) (use run_misses [of ?s0 0 Debug 4096] in simp_all)
  have 2: "finds False Debug 4096 (\<lambda>t. t) ?s0 ?s2 ?P2"
    by (rule run_finds [OF _ 1]) (use run_misses [of ?s1 1 Debug 4096] in simp_all)
  obtain s3 where s3: "find_run Debug 4096 0 ?s2 Creating s3 (Answered 0x20000)" "sp_mapped s3 = {0x20000}"
    "sp_found s3 = (\<lambda>_. 0)(0 := 0x20000)" "sp_page s3 = fresh_header 0x20000 4096 empty_items"
    using run_creates [of "0x20000" ?s2 4096 Debug 0] by auto
  have 3: "finds False Debug 4096 (\<lambda>t. t) ?s0 s3 (?P2(0 := Answered 0x20000))"
    by (rule run_finds [OF s3(1) 2]) simp_all
  obtain s4 where s4: "find_run Debug 4096 1 s3 Creating s4 (Answered 0x30000)" "sp_found s4 0 = 0x20000"
    "sp_page s4 = fresh_header 0x30000 4096 (lh_items (sp_page s3))"
    using run_creates [of "0x30000" s3 4096 Debug 1] s3(2-4) by (auto simp: fresh_header_def filled_def chunks_def)
  have "finds False Debug 4096 (\<lambda>t. t) ?s0 s4 ((?P2(0 := Answered 0x20000))(1 := Answered 0x30000))"
    by (rule run_finds [OF s4(1) 3]) simp_all
  moreover have "sp_page s4 = fresh_header 0x30000 4096 empty_items"
    using s4(3) s3(4) by (simp add: fresh_header_def filled_def chunks_def)
  ultimately show "\<exists>s P. finds False Debug 4096 (\<lambda>t. t) ?s0 s P \<and> P 0 = Answered 0x20000 \<and>
      P 1 = Answered 0x30000 \<and> sp_found s 0 = 0x20000 \<and> sp_page s = fresh_header 0x30000 4096 empty_items"
    using s4(2) by (intro exI [of _ s4] exI [of _ "(?P2(0 := Answered 0x20000))(1 := Answered 0x30000)"]) simp
  let ?t2 = "?s1\<lparr>sp_exists := True, sp_sized := True\<rparr>"
  have 4: "find_run Debug 4096 0 ?s1 Creating ?t2 (Mapping False)"
    by (rule find_run.then_goes [OF find_step.create find_run.then_goes [OF find_step.resize find_run.stays]])
  have 5: "finds False Debug 4096 (\<lambda>t. t) ?s0 ?t2 (?P1(0 := Mapping False))"
    by (rule run_finds [OF 4 1]) simp_all
  have "\<exists>s5. find_run Debug 4096 1 ?t2 Unasked s5 (Answered 0)"
    using run_believes [of ?t2 1 "0x30000" Debug 4096] by (auto simp: new_process_def)
  then obtain s5 where "find_run Debug 4096 1 ?t2 Unasked s5 (Answered 0)" ..
  then have "finds False Debug 4096 (\<lambda>t. t) ?s0 s5 ((?P1(0 := Mapping False))(1 := Answered 0))"
    by (rule run_finds [OF _ 5]) simp_all
  then show "\<exists>s P. finds False Debug 4096 (\<lambda>t. t) ?s0 s P \<and> P 1 = Answered 0"
    by (intro exI [of _ s5] exI [of _ "(?P1(0 := Mapping False))(1 := Answered 0)"]) simp
qed

section \<open>The search as a whole\<close>

text \<open>The library of a copy and the state of the steps describe the same process.\<close>

definition file_shows :: "'o platform \<Rightarrow> 'o system_view \<Rightarrow> nat \<Rightarrow> 'o library \<Rightarrow> shared_page \<Rightarrow> bool" where
  "file_shows pl v k lib s \<longleftrightarrow>
     (sp_exists s \<longleftrightarrow> own_path pl \<in> v_files v (w_os (lib_world lib))) \<and> (sp_exists s \<longrightarrow> sp_sized s) \<and>
     sp_found s k = lib_header_address lib \<and> \<not> sp_busy s k \<and> sp_mapped s \<subseteq> v_used v (w_os (lib_world lib)) \<and>
     length (lh_items (sp_page s)) = 203 \<and> v_room v (granularity (pl_sys pl)) (w_os (lib_world lib)) \<and>
     (\<forall>n fd st. w_headers (lib_world lib) (fst (mmap_shared (pl_unix pl) n fd st)) = sp_page s)"

text \<open>A new mapping lies where none is.\<close>

lemma new_mapping:
  assumes sf: "shared_files pl v" and sys: "sane_page (pl_sys pl)" and shows_it: "file_shows pl v k lib s"
  obtains m st where
    "unix_mmf_new (pl_target pl) (pl_unix pl) (''/'' @ own_name pl) (granularity (pl_sys pl)) (w_os (lib_world lib)) = Some (m, st)"
    "um_already_existed m \<longleftrightarrow> sp_exists s" "um_length m = granularity (pl_sys pl)" "um_data m \<noteq> 0" "um_data m \<notin> sp_mapped s"
    "w_headers (lib_world lib) (um_data m) = sp_page s"
proof -
  let ?g = "granularity (pl_sys pl)" and ?st = "w_os (lib_world lib)"
  have room: "v_room v ?g ?st" using shows_it by (simp add: file_shows_def)
  from sf room obtain m st where m:
    "unix_mmf_new (pl_target pl) (pl_unix pl) (''/'' @ own_name pl) ?g ?st = Some (m, st)"
    "um_already_existed m \<longleftrightarrow> own_path pl \<in> v_files v ?st" "um_length m = ?g" "um_data m \<noteq> 0"
    "unat (um_data m) < unat (um_data m) + unat ?g \<Longrightarrow> um_data m \<notin> v_used v ?st"
    "\<exists>fd st1. mmap_shared (pl_unix pl) ?g fd st1 = (um_data m, st)"
    by (rule unix_mmf_new_own) blast
  have "um_data m \<notin> sp_mapped s" using m(5) sane_page_length(1) [OF sys] shows_it by (auto simp: file_shows_def)
  moreover have "w_headers (lib_world lib) (um_data m) = sp_page s"
    using m(6) shows_it by (metis file_shows_def fst_conv)
  ultimately show thesis using m shows_it by (intro that) (auto simp: file_shows_def)
qed

lemma find_new_is_run:
  assumes build: "unix_build pl" "\<not> cfg_macos_aarch64 (pl_target pl)" and sf: "shared_files pl v" and sys: "sane_page (pl_sys pl)"
    and shows_it: "file_shows pl v k lib s" and new: "lib_header_address lib = 0" "\<not> sp_exists s" and mmf: "lib_mmf lib = None"
  shows "\<exists>h lib' s'. find_header pl (\<lambda>l. l) lib = Some (h, lib') \<and>
    find_run (pl_build pl) (granularity (pl_sys pl)) k s Unasked s' (Answered h) \<and> lib_header_address lib' = sp_found s' k \<and>
    w_headers (lib_world lib') h = sp_page s'"
proof -
  let ?g = "granularity (pl_sys pl)" and ?w = "lib_world lib"
  obtain m st where m: "unix_mmf_new (pl_target pl) (pl_unix pl) (''/'' @ own_name pl) ?g (w_os ?w) = Some (m, st)"
    "um_already_existed m \<longleftrightarrow> sp_exists s" "um_length m = ?g" "um_data m \<noteq> 0" "um_data m \<notin> sp_mapped s"
    "w_headers ?w (um_data m) = sp_page s"
    by (rule new_mapping [OF sf sys shows_it])
  obtain st1 where st1: "cleanup (pl_target pl) (pl_unix pl) st = Some st1" using cleanup_returns [OF sf] by blast
  note g = sane_page_length [OF sys]
  let ?w' = "put_header (um_data m) (fresh_header (um_data m) (unat ?g) (lh_items (sp_page s))) (put_os st1 ?w)"
  have s: "sp_found s k = 0" "\<not> sp_busy s k" "length (lh_items (sp_page s)) = 203"
    using shows_it new(1) by (simp_all add: file_shows_def)
  have init: "initialize pl (um_data m) ?g (put_os st1 ?w) = Some ?w'"
    using initialize_buffers [of pl ?g "put_os st1 ?w" "um_data m"] build(2) g s(3) m(6) by simp
  have "find_header pl (\<lambda>l. l) lib = Some (um_data m, lib\<lparr>lib_header_address := um_data m, lib_mmf := Some (Unix_Mmf m), lib_world := ?w'\<rparr>)"
    using build new m(2,3) st1 init mmf
    by (simp add: find_standard init_locatorheader_standard_def open_own [OF build(1) sf m(1)] Let_def cfg_unix_def unix_build_def)
  moreover obtain s' where "find_run (pl_build pl) ?g k s Unasked s' (Answered (um_data m))" "sp_found s' = (sp_found s)(k := um_data m)"
    "sp_page s' = fresh_header (um_data m) (unat ?g) (lh_items (sp_page s))"
    by (rule run_makes [OF s(1,2) new(2) m(4,5) g(1) _ s(3)]) (use g(2) in auto)
  ultimately show ?thesis by (intro exI conjI) (assumption | simp)+
qed

lemma find_old_is_run:
  assumes build: "unix_build pl" and sf: "shared_files pl v" and sys: "sane_page (pl_sys pl)"
    and shows_it: "file_shows pl v k lib s" and old: "lib_header_address lib = 0" "sp_exists s"
  shows "\<exists>h lib' s'. find_header pl (\<lambda>l. l) lib = Some (h, lib') \<and>
    find_run (pl_build pl) (granularity (pl_sys pl)) k s Unasked s' (Answered h) \<and> lib_header_address lib' = sp_found s' k \<and>
    sp_page s' = sp_page s \<and> w_headers (lib_world lib') = w_headers (lib_world lib)"
proof -
  let ?h = "lh_this_address (sp_page s)"
  have s: "own_path pl \<in> v_files v (w_os (lib_world lib))" "v_room v (granularity (pl_sys pl)) (w_os (lib_world lib))"
    "sp_found s k = 0" "\<not> sp_busy s k" "sp_sized s"
    and view: "lh_this_address (w_headers (lib_world lib) (fst (mmap_shared (pl_unix pl) n fd st))) = ?h" for n fd st
    using shows_it old by (simp_all add: file_shows_def)
  obtain st' where found: "find_header pl (\<lambda>l. l) lib = Some (?h, lib\<lparr>lib_header_address := ?h, lib_world := put_os st' (lib_world lib)\<rparr>)"
    by (rule find_again [where wait = "\<lambda>l. l" and h = ?h, OF build sf old(1) s(1,2) view])
  obtain a where "a \<noteq> 0" "a \<notin> sp_mapped s" by (rule new_mapping [OF sf sys shows_it])
  from run_believes [OF s(3,4) old(2) s(5) this] found show ?thesis by (intro exI conjI) (assumption | simp)+
qed

text \<open>
  C17 The search for the first header as the code has it is a run of the steps: from a library and a state
  of the steps that describe the same process, \<open>find\<close> returns, and the steps lead to the same answer, the same address in the
  cache of the copy and, at that address, the same header; an existing header is left as it is.
\<close>

theorem find_header_is_run:
  assumes "unix_build pl" "\<not> cfg_macos_aarch64 (pl_target pl)" and "shared_files pl v" and "sane_page (pl_sys pl)"
    and "file_shows pl v k lib s" and "lib_mmf lib = None"
  shows "\<exists>h lib' s'. find_header pl (\<lambda>l. l) lib = Some (h, lib') \<and>
    find_run (pl_build pl) (granularity (pl_sys pl)) k s Unasked s' (Answered h) \<and> lib_header_address lib' = sp_found s' k \<and>
    (if sp_exists s \<or> lib_header_address lib \<noteq> 0
     then sp_page s' = sp_page s \<and> w_headers (lib_world lib') = w_headers (lib_world lib)
     else w_headers (lib_world lib') h = sp_page s')"
proof (cases "lib_header_address lib = 0")
  case False
  then have "find_header pl (\<lambda>l. l) lib = Some (lib_header_address lib, lib)" by (simp add: find_header_def)
  moreover have found: "sp_found s k = lib_header_address lib" using assms(5) by (simp add: file_shows_def)
  then have "find_step (pl_build pl) (granularity (pl_sys pl)) k s Unasked s (Answered (lib_header_address lib))"
    using find_step.cached [of s k] False by simp
  then have "find_run (pl_build pl) (granularity (pl_sys pl)) k s Unasked s (Answered (lib_header_address lib))"
    by (rule find_run.then_goes [OF _ find_run.stays])
  ultimately show ?thesis using False found by auto
next
  case True
  then show ?thesis
    using find_old_is_run [OF assms(1,3-5)] find_new_is_run [OF assms(1-5) _ _ assms(6)] by (cases "sp_exists s") auto
qed

theorem find_header_is_run_witness:
  "\<exists>h lib' s'. find_header (disk_platform disk_linux) (\<lambda>l. l) disk_library = Some (h, lib') \<and>
    find_run Debug 4096 0 ((new_process {} [])\<lparr>sp_page := paged_header\<rparr>) Unasked s' (Answered h) \<and>
    w_headers (lib_world lib') h = sp_page s'"
proof -
  have "file_shows (disk_platform disk_linux) disk_view 0 disk_library ((new_process {} [])\<lparr>sp_page := paged_header\<rparr>)"
    using disk_fresh(2) [of disk_linux]
    by (simp add: file_shows_def fresh_process_def) (simp add: disk_library_def)
  moreover have "pl_build (disk_platform disk_linux) = Debug" "granularity (pl_sys (disk_platform disk_linux)) = 4096"
    "lib_mmf disk_library = None" "lib_header_address disk_library = 0"
    by (simp_all add: disk_basics sample_granularity disk_library_def) (simp add: disk_platform_def platform_with_def)
  ultimately show ?thesis
    using find_header_is_run [OF disk_basics(1,6) disk_shared_files disk_basics(2), of disk_linux 0 disk_library] by fastforce
qed

end
