(* ===== verification/Memory_Threads.thy ===== *)
theory Memory_Threads
  imports Chain_Threads_Properties Arena
begin

text \<open>
  The bytes behind the chain while its threads run: threads search the chain and append to the items
  they hold, one byte at a time; memory for headers and items is taken from what is not in use.
\<close>

section \<open>Steps\<close>

text \<open>
  The chain, the bytes of memory, the memory that was handed out, and the finished appends: the
  address each returned and its data.
\<close>

record site =
  st_chain :: chain
  st_mem :: memory
  st_taken :: "nat set"
  st_log :: "(usize \<times> u8 list) list"

text \<open>
  A thread of the chain, and the append it has under way: the address, the data, and the positions in
  it of the bytes that were copied (in any order).
\<close>

type_synonym job = "usize \<times> u8 list \<times> nat set"
type_synonym client = "walk \<times> job option"

text \<open>The memory a thread has just been given: the page of a header, or a buffer.\<close>

fun gains :: "usize \<Rightarrow> walk \<Rightarrow> nat set" where
  "gains len (Next h q (Linking a)) = {unat a ..< unat a + unat len}"
| "gains len (At h q (Storing r it)) = item_block it"
| "gains len _ = {}"

text \<open>
  A step of the chain, which does not append; and those of \<open>append_bytes\<close> on the item that the thread
  holds: it takes the address from the item, copies the bytes, and moves the position.
\<close>

inductive site_step :: "build \<Rightarrow> usize \<Rightarrow> usize \<Rightarrow> site \<Rightarrow> client \<Rightarrow> site \<Rightarrow> client \<Rightarrow> bool" for b len h0 where
  moves: "walk_step b len h0 (st_chain s) w c' w' \<Longrightarrow> item_of w = None \<or> w' \<noteq> w \<Longrightarrow>
    gains len w' \<inter> st_taken s = {} \<Longrightarrow>
    site_step b len h0 s (w, None) (s\<lparr>st_chain := c', st_taken := st_taken s \<union> gains len w'\<rparr>) (w', None)"
| begins: "w = At h q (Holding r i) \<Longrightarrow> it = chain_item (st_chain s) (Item_Ptr h i) \<Longrightarrow>
    length d \<le> free_bytes it \<Longrightarrow>
    site_step b len h0 s (w, None) s (w, Some (next_address it, d, {}))"
| copies: "j < length d \<Longrightarrow>
    site_step b len h0 s (w, Some (a, d, D)) (s\<lparr>st_mem := (st_mem s)(a + of_nat j := d ! j)\<rparr>) (w, Some (a, d, insert j D))"
| ends: "w = At h q (Holding r i) \<Longrightarrow> it = chain_item (st_chain s) (Item_Ptr h i) \<Longrightarrow> {..< length d} \<subseteq> D \<Longrightarrow>
    c' = put_chain h (put_slot i (advance (length d) it) (ch_headers (st_chain s) h)) (st_chain s) \<Longrightarrow>
    site_step b len h0 s (w, Some (a, d, D)) (s\<lparr>st_chain := c', st_log := st_log s @ [(a, d)]\<rparr>) (w, None)"

inductive site_run :: "bool \<Rightarrow> build \<Rightarrow> usize \<Rightarrow> usize \<Rightarrow> site \<Rightarrow> site \<Rightarrow> (nat \<Rightarrow> client) \<Rightarrow> bool"
  for ordered b len h0 s0 where
  site_start: "site_run ordered b len h0 s0 s0 (\<lambda>_. (Outside, None))"
| site_go: "site_run ordered b len h0 s0 s U \<Longrightarrow> site_step b len h0 s (U t) s' u' \<Longrightarrow>
    (\<And>h q v. ordered \<Longrightarrow> fst (U t) = At h q Idle \<Longrightarrow> makes (fst (U v)) \<noteq> Some h) \<Longrightarrow>
    site_run ordered b len h0 s0 s' (U(t := u'))"

section \<open>Blocks\<close>

text \<open>
  The blocks of memory in use: the page of a header, the buffer of a registered item, and the buffer
  that a thread is registering.
\<close>

datatype block_id = Page usize | Slot item_ptr | Pending nat

definition slot_live :: "chain \<Rightarrow> (nat \<Rightarrow> walk) \<Rightarrow> item_ptr \<Rightarrow> bool" where
  "slot_live c W p \<longleftrightarrow> ip_header p \<in> ch_used c \<and> made W (ip_header p) \<and>
     ip_index p < unat (lh_num_items (ch_headers c (ip_header p)))"

fun pending :: "locator_item list \<Rightarrow> pc \<Rightarrow> nat set" where
  "pending items (Storing q it) = item_block it"
| "pending items (Counting q i) = item_block (items ! i)"
| "pending items _ = {}"

fun walk_pending :: "chain \<Rightarrow> walk \<Rightarrow> nat set" where
  "walk_pending c (At h q p) = pending (lh_items (ch_headers c h)) p"
| "walk_pending c _ = {}"

fun block :: "chain \<Rightarrow> (nat \<Rightarrow> walk) \<Rightarrow> block_id \<Rightarrow> nat set" where
  "block c W (Page a) = (if a \<in> ch_used c then page_block a else {})"
| "block c W (Slot p) = (if slot_live c W p then item_block (chain_item c p) else {})"
| "block c W (Pending t) = walk_pending c (W t)"

definition blocks_ok :: "nat set \<Rightarrow> (block_id \<Rightarrow> nat set) \<Rightarrow> bool" where
  "blocks_ok T B \<longleftrightarrow> (\<forall>x. B x \<subseteq> T) \<and> (\<forall>x y. x \<noteq> y \<longrightarrow> B x \<inter> B y = {})"

text \<open>A step may take new memory for one block, which replaces another.\<close>

lemma blocks_ok_move:
  assumes ok: "blocks_ok T B" and G: "G \<inter> T = {}" and y: "B' y \<subseteq> B z \<union> G" and z: "y = z \<or> B' z = {}"
    and rest: "\<And>x. x \<noteq> y \<Longrightarrow> x \<noteq> z \<Longrightarrow> B' x \<subseteq> B x"
  shows "blocks_ok (T \<union> G) B'"
proof -
  have sub: "\<And>x. B x \<subseteq> T" and dis: "\<And>x y. x \<noteq> y \<Longrightarrow> B x \<inter> B y = {}" using ok by (simp_all add: blocks_ok_def)
  have far: "B' x \<inter> B' y = {}" if "x \<noteq> y" for x
  proof (cases "x = z")
    case False
    with that rest y dis [of x z] sub [of x] G show ?thesis by blast
  qed (use z that in auto)
  have "B' x \<subseteq> T \<union> G" for x using rest [of x] sub [of x] sub [of z] y z by (cases "x = y"; cases "x = z") auto
  moreover have "B' x \<inter> B' x' = {}" if "x \<noteq> x'" for x x'
  proof (cases "x = y \<or> x' = y")
    case True
    with far [of x] far [of x'] that show ?thesis by blast
  next
    case False
    then have "B' x \<subseteq> B x" "B' x' \<subseteq> B x'" using rest [of x] rest [of x'] z by auto
    with dis [OF that] show ?thesis by blast
  qed
  ultimately show ?thesis by (simp add: blocks_ok_def)
qed

section \<open>What a step of the chain does to the blocks\<close>

lemma made_stays:
  assumes inv: "chain_inv len h0 c W" and step: "walk_step b len h0 c (W t) c' w'"
    and h: "h \<in> ch_used c" "made W h"
  shows "made (W(t := w')) h" "h \<in> ch_used c'"
proof -
  have "makes w' \<noteq> Some h"
    using step h unfolding made_def by cases (auto dest: spec [where x = t])
  with h(2) show "made (W(t := w')) h" by (simp add: made_def)
  show "h \<in> ch_used c'" using step h(1) by cases auto
qed

text \<open>A header that a thread does not make changes by the steps of the item search only.\<close>

lemma walk_step_slots:
  assumes step: "walk_step b len h0 c w c' w'" and "makes w \<noteq> Some h"
  shows "lh_items (ch_headers c' h) = lh_items (ch_headers c h) \<and> lh_num_items (ch_headers c' h) = lh_num_items (ch_headers c h) \<or>
    thread_step b (ch_headers c h) (local h w) (ch_headers c' h) (local h w')"
  using step
proof cases
  case (in_header k p hdr' p' q)
  then show ?thesis by (cases "k = h") auto
next
  case (drop_item k p hdr' q)
  then show ?thesis by (cases "k = h") auto
next
  case (look k hdr' p' q)
  then show ?thesis by (cases "k = h") auto
qed (use assms(2) in \<open>auto simp: header_try_lock_def header_unlock_def Let_def split: if_splits\<close>)

text \<open>The step that registers an item.\<close>

abbreviation counts :: "pc \<Rightarrow> nat \<Rightarrow> bool" where
  "counts p i \<equiv> \<exists>q. p = Counting q i"

lemma thread_step_slots:
  assumes step: "thread_step b hdr (T t) hdr' p'" and ok: "threads_ok hdr T"
    and quiet: "slot_of (T t) = None \<or> p' \<noteq> T t"
  shows "i < unat (lh_num_items hdr) \<Longrightarrow> \<exists>x. lh_items hdr' ! i = (lh_items hdr ! i)\<lparr>li_is_taken := x\<rparr>"
    and "unat (lh_num_items hdr) \<le> unat (lh_num_items hdr')"
    and "unat (lh_num_items hdr) \<le> i \<Longrightarrow> i < unat (lh_num_items hdr') \<Longrightarrow>
      counts (T t) i \<and> lh_items hdr' = lh_items hdr"
proof -
  have me: "thread_ok (unat (lh_num_items hdr)) (lh_items hdr) (T t)" and wf: "wf_header hdr"
    using ok unfolding threads_ok_def by blast+
  have same: "\<exists>x. it = it\<lparr>li_is_taken := x\<rparr>" for it :: locator_item
    by (rule exI [of _ "li_is_taken it"]) simp
  have len: "j < length (lh_items hdr)" if "j < unat (lh_num_items hdr)" for j
    using slot_facts(2) [OF wf that] .
  have num: "unat (n + 1) = Suc (unat n)" if "unat n < 203" for n :: u8
    using that by (simp add: unat_word_ariths)
  show "i < unat (lh_num_items hdr) \<Longrightarrow> \<exists>x. lh_items hdr' ! i = (lh_items hdr ! i)\<lparr>li_is_taken := x\<rparr>"
    using step
    by cases (use me quiet same len in \<open>auto simp: nth_list_update set_slot_def item_try_lock_def Let_def
      safe_drop_def item_unlock_def header_try_lock_def header_unlock_def split: if_splits\<close>)
  have "unat (lh_num_items hdr) \<le> unat (lh_num_items hdr') \<and> (unat (lh_num_items hdr) \<le> i \<longrightarrow>
      i < unat (lh_num_items hdr') \<longrightarrow> counts (T t) i \<and> lh_items hdr' = lh_items hdr)"
    using step
    by cases (use me num in \<open>auto simp: header_try_lock_def header_unlock_def Let_def dest!: wadd_SomeD split: if_splits\<close>)
  then show "unat (lh_num_items hdr) \<le> unat (lh_num_items hdr')"
    "unat (lh_num_items hdr) \<le> i \<Longrightarrow> i < unat (lh_num_items hdr') \<Longrightarrow> counts (T t) i \<and> lh_items hdr' = lh_items hdr"
    by blast+
qed

abbreviation quiet_move :: "walk \<Rightarrow> walk \<Rightarrow> bool" where
  "quiet_move w w' \<equiv> item_of w = None \<or> w' \<noteq> w"

lemma link_slot [simp]: "slot_of (link_local q l) = None"
  by (cases l) simp_all

lemma quiet_local:
  assumes "walk_step b len h0 c w c' w'" and "quiet_move w w'"
  shows "slot_of (local h w) = None \<or> local h w' \<noteq> local h w"
proof (cases "slot_of (local h w)")
  case (Some i)
  then obtain q p where w: "w = At h q p" "slot_of p = Some i" by (cases w) (auto split: if_splits)
  with assms(2) have ne: "w' \<noteq> w" by simp
  show ?thesis using assms(1) w ne by cases auto
qed simp

lemma walk_slots:
  assumes inv: "chain_inv len h0 c W" and step: "walk_step b len h0 c (W t) c' w'" and quiet: "quiet_move (W t) w'"
    and h: "h \<in> ch_used c" "made W h"
  shows "i < unat (lh_num_items (ch_headers c h)) \<Longrightarrow>
      \<exists>x. lh_items (ch_headers c' h) ! i = (lh_items (ch_headers c h) ! i)\<lparr>li_is_taken := x\<rparr>"
    and "unat (lh_num_items (ch_headers c h)) \<le> unat (lh_num_items (ch_headers c' h))"
    and "unat (lh_num_items (ch_headers c h)) \<le> i \<Longrightarrow> i < unat (lh_num_items (ch_headers c' h)) \<Longrightarrow>
      counts (local h (W t)) i \<and> lh_items (ch_headers c' h) = lh_items (ch_headers c h)"
proof -
  have "makes (W t) \<noteq> Some h" using h(2) by (simp add: made_def)
  from walk_step_slots [OF step this] thread_step_slots [OF _ chain_invD(5) [OF inv h] quiet_local [OF step quiet]]
  have or: "lh_items (ch_headers c' h) = lh_items (ch_headers c h) \<and> lh_num_items (ch_headers c' h) = lh_num_items (ch_headers c h) \<or>
    (\<forall>i. i < unat (lh_num_items (ch_headers c h)) \<longrightarrow>
      (\<exists>x. lh_items (ch_headers c' h) ! i = (lh_items (ch_headers c h) ! i)\<lparr>li_is_taken := x\<rparr>)) \<and>
    unat (lh_num_items (ch_headers c h)) \<le> unat (lh_num_items (ch_headers c' h)) \<and>
    (\<forall>i. unat (lh_num_items (ch_headers c h)) \<le> i \<longrightarrow> i < unat (lh_num_items (ch_headers c' h)) \<longrightarrow>
      counts (local h (W t)) i \<and> lh_items (ch_headers c' h) = lh_items (ch_headers c h))"
    by blast
  have "\<exists>x. it = it\<lparr>li_is_taken := x\<rparr>" for it :: locator_item
    by (rule exI [of _ "li_is_taken it"]) simp
  with or show "i < unat (lh_num_items (ch_headers c h)) \<Longrightarrow>
      \<exists>x. lh_items (ch_headers c' h) ! i = (lh_items (ch_headers c h) ! i)\<lparr>li_is_taken := x\<rparr>"
    "unat (lh_num_items (ch_headers c h)) \<le> unat (lh_num_items (ch_headers c' h))"
    "unat (lh_num_items (ch_headers c h)) \<le> i \<Longrightarrow> i < unat (lh_num_items (ch_headers c' h)) \<Longrightarrow>
      counts (local h (W t)) i \<and> lh_items (ch_headers c' h) = lh_items (ch_headers c h)"
    by auto
qed

text \<open>A registered item stays registered, where it is.\<close>

lemma slot_stays:
  assumes "chain_inv len h0 c W" and "walk_step b len h0 c (W t) c' w'" and "quiet_move (W t) w'" and "slot_live c W p"
  shows "slot_live c' (W(t := w')) p" and "\<exists>x. chain_item c' p = (chain_item c p)\<lparr>li_is_taken := x\<rparr>"
  using assms(4) made_stays [OF assms(1,2)] walk_slots [OF assms(1-3), of "ip_header p"]
  unfolding slot_live_def by (auto intro: less_le_trans)

text \<open>An item becomes registered when a thread counts it; a new header of one page has none.\<close>

lemma slot_new:
  assumes inv: "chain_inv len h0 c W" and step: "walk_step b len h0 c (W t) c' w'" and quiet: "quiet_move (W t) w'"
    and len: "len = HEADER_LENGTH"
    and p: "slot_live c' (W(t := w')) p" "\<not> slot_live c W p"
  shows "\<exists>q r. W t = At (ip_header p) q (Counting r (ip_index p)) \<and> chain_item c' p = chain_item c p \<and>
    (\<exists>p'. w' = At (ip_header p) q p' \<and> pending (lh_items (ch_headers c' (ip_header p))) p' = {})"
proof (cases "ip_header p \<in> ch_used c \<and> made W (ip_header p)")
  case True
  then have "unat (lh_num_items (ch_headers c (ip_header p))) \<le> ip_index p"
    "ip_index p < unat (lh_num_items (ch_headers c' (ip_header p)))" using p by (simp_all add: slot_live_def)
  from walk_slots(3) [OF inv step quiet _ _ this] True
  have cnt: "counts (local (ip_header p) (W t)) (ip_index p)"
    and items: "lh_items (ch_headers c' (ip_header p)) = lh_items (ch_headers c (ip_header p))" by blast+
  then obtain q r where w: "W t = At (ip_header p) q (Counting r (ip_index p))"
    by (cases "W t") (auto split: if_splits elim: link_local.elims)
  have "\<exists>p'. w' = At (ip_header p) q p' \<and> pending (lh_items (ch_headers c' (ip_header p))) p' = {}"
    using step unfolding w by cases (auto elim: thread_step.cases)
  with w items show ?thesis by simp
next
  case False
  let ?h = "ip_header p"
  have all: "makes ((W(t := w')) u) \<noteq> Some ?h" for u using p(1) unfolding slot_live_def made_def by blast
  have far: "makes w' \<noteq> Some ?h" "u \<noteq> t \<Longrightarrow> makes (W u) \<noteq> Some ?h" for u using all [of t] all [of u] by simp_all
  have used: "?h \<in> ch_used c'" "0 < unat (lh_num_items (ch_headers c' ?h))"
    using p(1) by (auto simp: slot_live_def)
  have or: "?h \<notin> ch_used c \<or> makes (W t) = Some ?h" using False far(2) unfolding made_def by metis
  have False
    using step
  proof cases
    case (fill remaining a hdr' h q)
    then have "hdr' = (ch_headers c a)\<lparr>lh_num_items := 0\<rparr>"
      using len by (simp add: arith_ok fill_nothing)
    with fill or used show ?thesis by (cases "?h = a") simp_all
  qed (use or far used in auto)
  then show ?thesis ..
qed

text \<open>The item a thread holds or registers is changed by no other thread.\<close>

lemma held_stays:
  assumes inv: "chain_inv len h0 c W" and p: "item_of (W u) = Some p" and tu: "u \<noteq> t"
    and step: "walk_step b len h0 c (W t) c' w'"
  shows "chain_item c' p = chain_item c p"
proof -
  note here = chain_here [OF inv item_of_local(2) [OF p]]
  have "makes (W t) \<noteq> Some (ip_header p)" using here(2) by (simp add: made_def)
  with walk_step_item [OF step this] others_keep_slot [OF here(3) item_of_local(1) [OF p], of t] tu
  show ?thesis by metis
qed

lemma pending_stays:
  assumes "chain_inv len h0 c W" and "walk_step b len h0 c (W t) c' w'" and "u \<noteq> t"
  shows "walk_pending c' (W u) = walk_pending c (W u)"
proof (cases "\<exists>h q r i. W u = At h q (Counting r i)")
  case True
  then obtain h q r i where u: "W u = At h q (Counting r i)" by blast
  then have "item_of (W u) = Some (Item_Ptr h i)" by simp
  from held_stays [OF assms(1) this assms(3,2)] u show ?thesis by simp
next
  case False
  then show ?thesis
  proof (cases "W u")
    case (At h q p)
    with False show ?thesis by (cases p) auto
  qed simp_all
qed

lemma pending_step:
  assumes inv: "chain_inv len h0 c W" and step: "walk_step b len h0 c (W t) c' w'"
  shows "walk_pending c' w' \<subseteq> walk_pending c (W t) \<union> gains len w'"
  using step
proof cases
  case (in_header h p hdr' p' q)
  from in_header(4) show ?thesis
    unfolding in_header(1-3)
    by cases (auto simp: set_slot_def split: if_splits)
qed (auto elim: thread_step.cases)

lemma page_step:
  assumes step: "walk_step b len h0 c w c' w'" and len: "len = HEADER_LENGTH"
  shows "block c' W' (Page a) \<subseteq> block c W (Page a) \<union> (if makes w' = Some a then gains len w' else {})"
    and "block c' W' (Page a) \<subseteq> block c W (Page a) \<or> makes w' = Some a \<and> (\<exists>h q. w = Next h q Reserving)"
  using step by (cases; auto simp: len page_block_def HEADER_LENGTH_def)+

text \<open>The blocks stay apart, if the memory that is handed out was not taken before.\<close>

lemma blocks_step:
  assumes inv: "chain_inv len h0 c W" and step: "walk_step b len h0 c (W t) c' w'" and quiet: "quiet_move (W t) w'"
    and len: "len = HEADER_LENGTH"
    and ok: "blocks_ok T (block c W)" and new: "gains len w' \<inter> T = {}"
  shows "blocks_ok (T \<union> gains len w') (block c' (W(t := w')))"
proof -
  let ?W = "W(t := w')"
  have pages: "block c' ?W (Page a) \<subseteq> block c W (Page a) \<or> makes w' = Some a \<and> (\<exists>h q. W t = Next h q Reserving)" for a
    by (rule page_step(2) [OF step len])
  have slots: "block c' ?W (Slot p) \<subseteq> block c W (Slot p)" if "slot_live c W p \<or> \<not> slot_live c' ?W p" for p
    using that slot_stays [OF inv step quiet, of p] by (auto simp del: slot_live_def)
  have pend: "block c' ?W (Pending u) = block c W (Pending u)" if "u \<noteq> t" for u
    using pending_stays [OF inv step that] that by simp
  have mine: "block c' ?W (Pending t) \<subseteq> block c W (Pending t) \<union> gains len w'"
    using pending_step [OF inv step] by simp
  consider (page) h q a where "W t = Next h q Reserving" "makes w' = Some a"
    | (slot) p where "slot_live c' ?W p" "\<not> slot_live c W p"
    | (other) "\<And>h q a. \<not> (W t = Next h q Reserving \<and> makes w' = Some a)" "\<And>p. slot_live c W p \<or> \<not> slot_live c' ?W p"
    by blast
  then show ?thesis
  proof cases
    case page
    have none: "slot_live c W p \<or> \<not> slot_live c' ?W p" for p
      using slot_new [OF inv step quiet len, of p] page(1) by auto
    show ?thesis
    proof (rule blocks_ok_move [OF ok new, where y = "Page a" and z = "Page a"])
      show "block c' ?W (Page a) \<subseteq> block c W (Page a) \<union> gains len w'"
        using page_step(1) [OF step len, of ?W a W] page(2) by simp
      have "walk_pending c' w' = {}" using step page by cases auto
      then have "block c' ?W (Pending t) = {}" by simp
      with pend have pend': "block c' ?W (Pending u) \<subseteq> block c W (Pending u)" for u by (cases "u = t") blast+
      show "block c' ?W x \<subseteq> block c W x" if "x \<noteq> Page a" for x
        using that pages slots [OF none] pend' page(2) by (cases x) (auto simp del: block.simps)
    qed simp
  next
    case (slot p)
    from slot_new [OF inv step quiet len slot] obtain q r p' where
      t: "W t = At (ip_header p) q (Counting r (ip_index p))" and item: "chain_item c' p = chain_item c p"
      and w': "w' = At (ip_header p) q p'" "pending (lh_items (ch_headers c' (ip_header p))) p' = {}" by blast
    have none: "slot_live c W x \<or> \<not> slot_live c' ?W x" if "x \<noteq> p" for x
      using slot_new [OF inv step quiet len, of x] that t by (cases x; cases p) auto
    show ?thesis
    proof (rule blocks_ok_move [OF ok new, where y = "Slot p" and z = "Pending t"])
      show "block c' ?W (Slot p) \<subseteq> block c W (Pending t) \<union> gains len w'" using t item by simp
      show "Slot p = Pending t \<or> block c' ?W (Pending t) = {}" using w' by simp
      show "block c' ?W x \<subseteq> block c W x" if "x \<noteq> Slot p" "x \<noteq> Pending t" for x
        using that pages slots [OF none] pend t by (cases x) (auto simp del: block.simps)
    qed
  next
    case other
    have pages': "block c' ?W (Page a) \<subseteq> block c W (Page a)" for a using pages [of a] other(1) by blast
    show ?thesis
    proof (rule blocks_ok_move [OF ok new, where y = "Pending t" and z = "Pending t"])
      show "block c' ?W x \<subseteq> block c W x" if "x \<noteq> Pending t" for x
        using that pages' slots [OF other(2)] pend by (cases x) (auto simp del: block.simps)
    qed (use mine in simp_all)
  qed
qed
end
