(* ===== verification/Memory_Threads_Properties.thy ===== *)
theory Memory_Threads_Properties
  imports Memory_Threads
begin

text \<open>
  However its threads are interleaved, data that was appended to the buffers of a chain stays where it
  is; and a sequential \<open>append_bytes\<close> is a run of the steps of one thread.
\<close>

section \<open>The invariant\<close>

abbreviation span :: "usize \<Rightarrow> nat \<Rightarrow> nat set" where
  "span a n \<equiv> {unat a ..< unat a + n}"

abbreviation used_part :: "locator_item \<Rightarrow> nat set" where
  "used_part it \<equiv> span (li_base_address it) (unat (li_position it))"

abbreviation walks_of :: "(nat \<Rightarrow> client) \<Rightarrow> nat \<Rightarrow> walk" where
  "walks_of U \<equiv> \<lambda>t. fst (U t)"

lemma walks_of_upd: "walks_of (U(t := u)) = (walks_of U)(t := fst u)"
  by auto

text \<open>The bytes of the data at the positions \<open>D\<close> are in memory.\<close>

definition in_place :: "memory \<Rightarrow> usize \<Rightarrow> u8 list \<Rightarrow> nat set \<Rightarrow> bool" where
  "in_place m a d D \<longleftrightarrow> (\<forall>j \<in> D. j < length d \<longrightarrow> m (a + of_nat j) = d ! j)"

text \<open>The item to which a thread may append.\<close>

fun holds :: "walk \<Rightarrow> item_ptr option" where
  "holds (At h q (Holding r i)) = Some (Item_Ptr h i)"
| "holds _ = None"

fun job_ok :: "chain \<Rightarrow> memory \<Rightarrow> client \<Rightarrow> bool" where
  "job_ok c m (w, None) = True"
| "job_ok c m (w, Some (a, d, D)) = (\<exists>p. holds w = Some p \<and> a = next_address (chain_item c p) \<and>
     length d \<le> free_bytes (chain_item c p) \<and> in_place m a d D)"

text \<open>A finished append lies in the used part of a registered item.\<close>

definition entry_ok :: "chain \<Rightarrow> (nat \<Rightarrow> walk) \<Rightarrow> memory \<Rightarrow> usize \<Rightarrow> u8 list \<Rightarrow> bool" where
  "entry_ok c W m a d \<longleftrightarrow> in_place m a d {..< length d} \<and>
     (\<exists>p. slot_live c W p \<and> span a (length d) \<subseteq> used_part (chain_item c p))"

definition entries_apart :: "(usize \<times> u8 list) list \<Rightarrow> bool" where
  "entries_apart log \<longleftrightarrow>
     sorted_wrt (\<lambda>x y. span (fst x) (length (snd x)) \<inter> span (fst y) (length (snd y)) = {}) log"

text \<open>The bytes that changed belong to registered items.\<close>

definition site_inv :: "usize \<Rightarrow> usize \<Rightarrow> memory \<Rightarrow> site \<Rightarrow> (nat \<Rightarrow> client) \<Rightarrow> bool" where
  "site_inv len h0 m0 s U \<longleftrightarrow> chain_inv len h0 (st_chain s) (walks_of U) \<and>
     blocks_ok (st_taken s) (block (st_chain s) (walks_of U)) \<and>
     (\<forall>t. job_ok (st_chain s) (st_mem s) (U t)) \<and>
     (\<forall>(a, d) \<in> set (st_log s). entry_ok (st_chain s) (walks_of U) (st_mem s) a d) \<and>
     entries_apart (st_log s) \<and>
     (\<forall>x. st_mem s x \<noteq> m0 x \<longrightarrow> (\<exists>p. unat x \<in> block (st_chain s) (walks_of U) (Slot p)))"

lemma site_invD:
  assumes "site_inv len h0 m0 s U"
  shows "chain_inv len h0 (st_chain s) (walks_of U)" "blocks_ok (st_taken s) (block (st_chain s) (walks_of U))"
    and "job_ok (st_chain s) (st_mem s) (U t)"
    and "(a, d) \<in> set (st_log s) \<Longrightarrow> entry_ok (st_chain s) (walks_of U) (st_mem s) a d"
    and "entries_apart (st_log s)"
    and "st_mem s x \<noteq> m0 x \<Longrightarrow> \<exists>p. unat x \<in> block (st_chain s) (walks_of U) (Slot p)"
  using assms unfolding site_inv_def by blast+

section \<open>Items and their parts\<close>

lemma holds_item: "holds w = Some p \<Longrightarrow> item_of w = Some p"
  by (cases w rule: holds.cases) auto

lemma item_unique:
  assumes inv: "chain_inv len h0 c W" and p: "item_of (W u) = Some p" "item_of (W t) = Some p"
  shows "u = t"
  using chain_here(3) [OF inv item_of_local(2) [OF p(1)]] item_of_local(1) [OF p(1)] item_of_local(1) [OF p(2)]
  unfolding threads_ok_def by blast

lemma held_facts:
  assumes inv: "chain_inv len h0 c W" and p: "holds (W t) = Some p"
  shows "slot_live c W p" "wf_item (chain_item c p)" "ip_index p < length (lh_items (ch_headers c (ip_header p)))"
    "holds (W u) = Some p \<Longrightarrow> u = t"
proof -
  let ?h = "ip_header p" and ?i = "ip_index p"
  note here = chain_here [OF inv item_of_local(2) [OF holds_item [OF p]]]
  have "thread_ok (unat (lh_num_items (ch_headers c ?h))) (lh_items (ch_headers c ?h)) (local ?h (W t))"
    and wf: "wf_header (ch_headers c ?h)" using here(3) unfolding threads_ok_def by blast+
  then have i: "?i < unat (lh_num_items (ch_headers c ?h))"
    using p by (cases "W t" rule: holds.cases) auto
  with here show "slot_live c W p" by (simp add: slot_live_def)
  from slot_facts [OF wf i] show "wf_item (chain_item c p)" "?i < length (lh_items (ch_headers c ?h))"
    by (simp_all add: wf_slot_def)
  show "u = t" if "holds (W u) = Some p" using item_unique [OF inv holds_item [OF that] holds_item [OF p]] .
qed

lemma live_wf:
  assumes "chain_inv len h0 c W" and "slot_live c W p"
  shows "wf_item (chain_item c p)"
  using assms chain_invD(5) [OF assms(1), of "ip_header p"] slot_facts(1)
  by (auto simp: slot_live_def threads_ok_def wf_slot_def)

text \<open>The free part of an item follows its used part.\<close>

lemma item_parts:
  assumes "wf_item it" and "n \<le> free_bytes it"
  shows "used_part it \<subseteq> item_block it" "span (next_address it) n \<subseteq> item_block it"
    and "used_part it \<inter> span (next_address it) n = {}"
    and "used_part (advance n it) = used_part it \<union> span (next_address it) n"
    and "item_block (advance n it) = item_block it"
    and "unat (next_address it) + n < 2 ^ 64"
proof -
  have "unat (li_position it) \<le> unat (li_size it)" using assms(1) by (simp add: wf_item_def word_le_nat_alt)
  then show "used_part it \<subseteq> item_block it" "span (next_address it) n \<subseteq> item_block it"
    using assms(2) unat_next_address(2) [OF assms(1)] by (auto simp: item_block_def free_bytes_def)
  show "used_part it \<inter> span (next_address it) n = {}" using unat_next_address(2) [OF assms(1)] by auto
  show "used_part (advance n it) = used_part it \<union> span (next_address it) n"
    using advance_facts(2) [OF assms] unat_next_address(2) [OF assms(1)] by auto
qed (simp_all add: item_block_def room_in_memory [OF assms, simplified])

lemma byte_address:
  fixes a :: usize
  assumes "j < n" "unat a + n < 2 ^ 64"
  shows "unat (a + of_nat j) = unat a + j"
  using assms by (subst unat_add_small) (simp_all add: unat_of_nat_usize)

lemma in_place_frame:
  assumes "in_place m a d D" and "unat x \<notin> span a (length d)" and "length d = 0 \<or> unat a + length d < 2 ^ 64"
  shows "in_place (m(x := v)) a d D"
  using assms byte_address [of _ "length d" a] by (fastforce simp: in_place_def)

lemma entry_bound:
  assumes inv: "chain_inv len h0 c W" and e: "entry_ok c W m a d"
  shows "length d = 0 \<or> unat a + length d < 2 ^ 64"
proof -
  from e obtain p where p: "slot_live c W p" "span a (length d) \<subseteq> used_part (chain_item c p)"
    by (auto simp: entry_ok_def)
  note it = live_wf [OF inv p(1)]
  show ?thesis
  proof (cases "length d")
    case (Suc n)
    then have "unat a + n \<in> span a (length d)" by simp
    with p(2) have "unat a + n < unat (li_base_address (chain_item c p)) + unat (li_position (chain_item c p))" by auto
    with unat_next_address(1) [OF it] Suc show ?thesis by simp
  qed simp
qed

section \<open>The steps keep the invariant\<close>

text \<open>A step of the chain: items stay where they are, and those that are held do not change.\<close>

lemma site_inv_moves:
  assumes inv: "site_inv len h0 m0 s U" and t: "U t = (w, None)" and len: "len = HEADER_LENGTH"
    and ordered: "\<And>h q v. w = At h q Idle \<Longrightarrow> makes (fst (U v)) \<noteq> Some h"
    and step: "walk_step b len h0 (st_chain s) w c' w'" and quiet: "quiet_move w w'"
    and new: "gains len w' \<inter> st_taken s = {}"
  shows "site_inv len h0 m0 (s\<lparr>st_chain := c', st_taken := st_taken s \<union> gains len w'\<rparr>) (U(t := (w', None)))"
proof -
  note d = site_invD [OF inv]
  let ?W = "walks_of U" and ?c = "st_chain s"
  have wt: "?W t = w" using t by simp
  note step' = step [folded wt] and quiet' = quiet [folded wt]
  have "chain_inv len h0 c' (?W(t := w'))"
    by (rule chain_inv_step [OF d(1) _ _ _ step']) (use len wt ordered in \<open>auto simp: HEADER_LENGTH_def\<close>)
  moreover have "blocks_ok (st_taken s \<union> gains len w') (block c' (?W(t := w')))"
    by (rule blocks_step [OF d(1) step' quiet' len d(2) new])
  moreover have "job_ok c' (st_mem s) (U u)" if "u \<noteq> t" for u
  proof (cases "(c', st_mem s, U u)" rule: job_ok.cases)
    case (2 c m v a dt D)
    from d(3) [of u] 2 obtain p where p: "holds v = Some p" "a = next_address (chain_item ?c p)"
      "length dt \<le> free_bytes (chain_item ?c p)" "in_place (st_mem s) a dt D" by auto
    have "item_of (?W u) = Some p" using 2 holds_item [OF p(1)] by simp
    from held_stays [OF d(1) this that step'] p 2 show ?thesis by auto
  qed auto
  moreover have "entry_ok c' (?W(t := w')) (st_mem s) a dt" if "(a, dt) \<in> set (st_log s)" for a dt
  proof -
    from d(4) [OF that] obtain p where p: "slot_live ?c ?W p" "span a (length dt) \<subseteq> used_part (chain_item ?c p)"
      "in_place (st_mem s) a dt {..< length dt}" by (auto simp: entry_ok_def)
    from slot_stays [OF d(1) step' quiet' p(1)] p show ?thesis by (fastforce simp: entry_ok_def)
  qed
  moreover have "\<exists>p. unat x \<in> block c' (?W(t := w')) (Slot p)" if "st_mem s x \<noteq> m0 x" for x
  proof -
    from d(6) [OF that] obtain p where p: "slot_live ?c ?W p" "unat x \<in> item_block (chain_item ?c p)"
      by (auto split: if_splits)
    from slot_stays [OF d(1) step' quiet' p(1)] p show ?thesis by (intro exI [of _ p]) auto
  qed
  ultimately show ?thesis
    unfolding site_inv_def walks_of_upd using d(5) by (auto simp del: block.simps)
qed

text \<open>A byte of an append goes to the free part of an item that nobody else holds.\<close>

lemma copy_target:
  assumes inv: "site_inv len h0 m0 s U" and t: "U t = (w, Some (a, d, D))" and j: "j < length d"
  shows "\<exists>p. holds w = Some p \<and> a = next_address (chain_item (st_chain s) p) \<and> slot_live (st_chain s) (walks_of U) p \<and>
    length d \<le> free_bytes (chain_item (st_chain s) p) \<and> in_place (st_mem s) a d D \<and>
    unat (a + of_nat j) \<in> item_block (chain_item (st_chain s) p) \<and>
    (\<forall>k < length d. (of_nat k :: usize) = of_nat j \<longrightarrow> k = j) \<and>
    (\<forall>r. slot_live (st_chain s) (walks_of U) r \<longrightarrow> unat (a + of_nat j) \<notin> used_part (chain_item (st_chain s) r)) \<and>
    (\<forall>u r. u \<noteq> t \<longrightarrow> holds (fst (U u)) = Some r \<longrightarrow> unat (a + of_nat j) \<notin> item_block (chain_item (st_chain s) r))"
proof -
  note i = site_invD [OF inv]
  let ?W = "walks_of U" and ?c = "st_chain s" and ?x = "unat (a + of_nat j :: usize)"
  from i(3) [of t] t obtain p where p: "holds (?W t) = Some p" "a = next_address (chain_item ?c p)"
    "length d \<le> free_bytes (chain_item ?c p)" and mine: "in_place (st_mem s) a d D" by auto
  note held = held_facts [OF i(1) p(1)]
  note parts = item_parts [OF held(2) p(3), folded p(2)]
  have x: "?x \<in> span a (length d)" using byte_address [OF j parts(6)] j by simp
  have eq: "k = j" if "k < length d" "(of_nat k :: usize) = of_nat j" for k
    using byte_address [OF that(1) parts(6)] byte_address [OF j parts(6)] that(2) by (metis add_left_cancel)
  have far: "?x \<notin> item_block (chain_item ?c r)" if "slot_live ?c ?W r" "r \<noteq> p" for r
  proof -
    have "block ?c ?W (Slot p) \<inter> block ?c ?W (Slot r) = {}" using i(2) that(2) by (simp add: blocks_ok_def del: block.simps)
    with that held(1) x parts(2) show ?thesis by auto
  qed
  have used: "?x \<notin> used_part (chain_item ?c r)" if "slot_live ?c ?W r" for r
    using far [OF that] item_parts(1) [OF live_wf [OF i(1) that], of 0] x parts(3) by (cases "r = p") auto
  have other: "?x \<notin> item_block (chain_item ?c r)" if "u \<noteq> t" "holds (?W u) = Some r" for u r
    using far [OF held_facts(1) [OF i(1) that(2)]] held(4) [of u] that by blast
  have "?x \<in> item_block (chain_item ?c p)" using x parts(2) by (rule set_mp [rotated])
  moreover have "holds w = Some p" using p(1) t by simp
  moreover have "\<forall>k < length d. (of_nat k :: usize) = of_nat j \<longrightarrow> k = j" using eq by blast
  moreover have "\<forall>r. slot_live ?c ?W r \<longrightarrow> ?x \<notin> used_part (chain_item ?c r)" using used by blast
  moreover have "\<forall>u r. u \<noteq> t \<longrightarrow> holds (?W u) = Some r \<longrightarrow> ?x \<notin> item_block (chain_item ?c r)" using other by blast
  ultimately show ?thesis using p(2,3) held(1) mine by - (intro exI [of _ p] conjI; assumption)
qed

lemma site_inv_copies:
  assumes inv: "site_inv len h0 m0 s U" and t: "U t = (w, Some (a, d, D))" and j: "j < length d"
  shows "site_inv len h0 m0 (s\<lparr>st_mem := (st_mem s)(a + of_nat j := d ! j)\<rparr>) (U(t := (w, Some (a, d, insert j D))))"
proof -
  note i = site_invD [OF inv]
  let ?W = "walks_of U" and ?c = "st_chain s" and ?x = "a + of_nat j :: usize" and ?m = "(st_mem s)(a + of_nat j := d ! j)"
  obtain p where p: "holds w = Some p" "a = next_address (chain_item ?c p)" "slot_live ?c ?W p"
    "length d \<le> free_bytes (chain_item ?c p)" "in_place (st_mem s) a d D" "unat ?x \<in> item_block (chain_item ?c p)"
    "\<forall>k < length d. (of_nat k :: usize) = of_nat j \<longrightarrow> k = j"
    and used: "\<forall>r. slot_live ?c ?W r \<longrightarrow> unat ?x \<notin> used_part (chain_item ?c r)"
    and other: "\<forall>u r. u \<noteq> t \<longrightarrow> holds (?W u) = Some r \<longrightarrow> unat ?x \<notin> item_block (chain_item ?c r)"
    using copy_target [OF inv t j] by blast
  have same: "(walks_of (U(t := (w, Some (a, d, insert j D))))) = ?W" using t by (intro ext) simp
  have entry: "entry_ok ?c ?W ?m e de" if "(e, de) \<in> set (st_log s)" for e de
  proof -
    from i(4) [OF that] obtain r where r: "slot_live ?c ?W r" "span e (length de) \<subseteq> used_part (chain_item ?c r)"
      "in_place (st_mem s) e de {..< length de}" by (auto simp: entry_ok_def)
    with used in_place_frame [OF r(3) _ entry_bound [OF i(1) i(4) [OF that]], of ?x] show ?thesis
      by (auto simp: entry_ok_def)
  qed
  have job: "job_ok ?c ?m (U u)" if "u \<noteq> t" for u
  proof (cases "(?c, ?m, U u)" rule: job_ok.cases)
    case (2 c m v e de E)
    from i(3) [of u] 2 obtain r where r: "holds (?W u) = Some r" "e = next_address (chain_item ?c r)"
      "length de \<le> free_bytes (chain_item ?c r)" "in_place (st_mem s) e de E" by auto
    note parts = item_parts [OF held_facts(2) [OF i(1) r(1)] r(3), folded r(2)]
    from other that r(1) parts(2) have "unat ?x \<notin> span e (length de)" by blast
    with in_place_frame [OF r(4)] parts(6) r 2 show ?thesis by auto
  qed simp
  have "in_place ?m a d (insert j D)" using p(5,7) j by (auto simp: in_place_def)
  then have own: "job_ok ?c ?m (w, Some (a, d, insert j D))" using p by auto
  have "\<exists>p. unat y \<in> block ?c ?W (Slot p)" if "?m y \<noteq> m0 y" for y
    using i(6) [of y] p(3,6) that by (cases "y = ?x") auto
  then show ?thesis
    unfolding site_inv_def same using i(1,2,5) entry job own by (auto simp del: block.simps)
qed

text \<open>Moving the position of an item that is held changes no block.\<close>

lemma advance_blocks:
  assumes inv: "chain_inv len h0 c W" and p: "holds (W t) = Some p" and n: "n \<le> free_bytes (chain_item c p)"
    and c': "c' = put_chain (ip_header p) (put_slot (ip_index p) (advance n (chain_item c p)) (ch_headers c (ip_header p))) c"
  shows "chain_inv len h0 c' W" "block c' W = block c W" "slot_live c' W = slot_live c W"
    and "chain_item c' p = advance n (chain_item c p)" "r \<noteq> p \<Longrightarrow> chain_item c' r = chain_item c r"
proof -
  note held = held_facts [OF inv p]
  let ?h = "ip_header p" and ?i = "ip_index p"
  from p obtain q r where w: "W t = At ?h q (Holding r ?i)" by (cases "W t" rule: holds.cases) auto
  have "thread_step b (ch_headers c ?h) (Holding r ?i) (put_slot ?i (advance n (chain_item c p)) (ch_headers c ?h)) (Holding r ?i)" for b
    by (rule append [OF n])
  from chain_inv_local [OF inv w this] have "chain_inv len h0 c' (W(t := W t))" by (simp add: c' w)
  then show "chain_inv len h0 c' W" by simp
  show live: "slot_live c' W = slot_live c W" by (intro ext) (simp add: slot_live_def c')
  show same: "chain_item c' p = advance n (chain_item c p)" using held(3) by (simp add: c')
  show other: "chain_item c' r = chain_item c r" if "r \<noteq> p" for r
    using that by (cases r; cases p) (auto simp: c')
  have pend: "walk_pending c' (W u) = walk_pending c (W u)" for u
  proof (cases "\<exists>h q r i. W u = At h q (Counting r i)")
    case True
    then obtain h q r i where u: "W u = At h q (Counting r i)" by blast
    have "item_of (W u) = Some (Item_Ptr h i)" using u by simp
    with item_unique [OF inv _ holds_item [OF p], of u] u w have "Item_Ptr h i \<noteq> p" by auto
    from other [OF this] u show ?thesis by simp
  next
    case False
    then show ?thesis
    proof (cases "W u")
      case (At h q p)
      with False show ?thesis by (cases p) auto
    qed simp_all
  qed
  have item: "item_block (chain_item c' r) = item_block (chain_item c r)" for r
    using same other [of r] item_parts(5) [OF held(2) n] by (cases "r = p") simp_all
  show "block c' W = block c W"
  proof
    fix x show "block c' W x = block c W x" using live pend item by (cases x) (simp_all add: c')
  qed
qed

lemma entries_apart_snoc:
  "entries_apart (log @ [(a, d)]) \<longleftrightarrow> entries_apart log \<and>
    (\<forall>(e, de) \<in> set log. span e (length de) \<inter> span a (length d) = {})"
  by (auto simp: entries_apart_def sorted_wrt_append)

text \<open>An append that ends: its bytes are in place, after what was appended before.\<close>

lemma site_inv_ends:
  assumes inv: "site_inv len h0 m0 s U" and t: "U t = (w, Some (a, d, D))" and D: "{..< length d} \<subseteq> D"
    and p: "holds w = Some p"
    and c': "c' = put_chain (ip_header p) (put_slot (ip_index p) (advance (length d) (chain_item (st_chain s) p))
      (ch_headers (st_chain s) (ip_header p))) (st_chain s)"
  shows "site_inv len h0 m0 (s\<lparr>st_chain := c', st_log := st_log s @ [(a, d)]\<rparr>) (U(t := (w, None)))"
proof -
  note i = site_invD [OF inv]
  let ?W = "walks_of U" and ?c = "st_chain s" and ?m = "st_mem s"
  have pt: "holds (?W t) = Some p" using t p by simp
  from i(3) [of t] t p have job: "a = next_address (chain_item ?c p)" "length d \<le> free_bytes (chain_item ?c p)"
    "in_place ?m a d D" by auto
  note held = held_facts [OF i(1) pt]
  note parts = item_parts [OF held(2) job(2), folded job(1)]
  note adv = advance_blocks [OF i(1) pt job(2) c']
  have same: "walks_of (U(t := (w, None))) = ?W" using t by (intro ext) simp
  have mono: "used_part (chain_item ?c r) \<subseteq> used_part (chain_item c' r)" for r
    using adv(4) adv(5) [of r] parts(4) by (cases "r = p") auto
  have "span a (length d) \<subseteq> used_part (chain_item c' p)" unfolding adv(4) parts(4) by (rule Un_upper2)
  moreover have "in_place ?m a d {..< length d}" using D job(3) by (auto simp: in_place_def)
  ultimately have new: "entry_ok c' ?W ?m a d" unfolding entry_ok_def adv(3) using held(1) by blast
  have old: "entry_ok c' ?W ?m e de \<and> span e (length de) \<inter> span a (length d) = {}" if "(e, de) \<in> set (st_log s)" for e de
  proof -
    from i(4) [OF that] obtain r where r: "slot_live ?c ?W r" "span e (length de) \<subseteq> used_part (chain_item ?c r)"
      "in_place ?m e de {..< length de}" unfolding entry_ok_def by blast
    have "used_part (chain_item ?c r) \<inter> span a (length d) = {}"
    proof (cases "r = p")
      case False
      then have "block ?c ?W (Slot p) \<inter> block ?c ?W (Slot r) = {}"
        using i(2) by (simp add: blocks_ok_def del: block.simps)
      then have "item_block (chain_item ?c p) \<inter> item_block (chain_item ?c r) = {}" using r(1) held(1) by simp
      moreover have "used_part (chain_item ?c r) \<subseteq> item_block (chain_item ?c r)"
        by (rule item_parts(1) [OF live_wf [OF i(1) r(1)], of 0]) simp
      ultimately show ?thesis using parts(2) by blast
    qed (simp only: parts(3))
    moreover have "span e (length de) \<subseteq> used_part (chain_item c' r)" using r(2) mono by (rule subset_trans)
    ultimately show ?thesis unfolding entry_ok_def adv(3) using r by blast
  qed
  have jobs: "job_ok c' ?m (U u)" if "u \<noteq> t" for u
  proof (cases "(c', ?m, U u)" rule: job_ok.cases)
    case (2 c m v e de E)
    from i(3) [of u] 2 obtain r where r: "holds (?W u) = Some r" "e = next_address (chain_item ?c r)"
      "length de \<le> free_bytes (chain_item ?c r)" "in_place ?m e de E" by auto
    have "r \<noteq> p" using held(4) [of u] r(1) that by blast
    with adv(5) r 2 show ?thesis by auto
  qed simp
  have log: "\<forall>(e, de) \<in> set (st_log s @ [(a, d)]). entry_ok c' ?W ?m e de" using old new by auto
  have "entries_apart (st_log s @ [(a, d)])" using i(5) old by (auto simp: entries_apart_snoc simp del: atLeastLessThan_iff)
  then show ?thesis
    unfolding site_inv_def same using i(2,6) adv(1) jobs log by (auto simp: adv(2) simp del: block.simps)
qed

lemma site_inv_step:
  assumes inv: "site_inv len h0 m0 s U" and len: "len = HEADER_LENGTH"
    and ordered: "\<And>h q v. fst (U t) = At h q Idle \<Longrightarrow> makes (fst (U v)) \<noteq> Some h"
    and step: "site_step b len h0 s (U t) s' u'"
  shows "site_inv len h0 m0 s' (U(t := u'))"
  using step
proof cases
  case (moves w c' w')
  with ordered show ?thesis by (auto intro!: site_inv_moves [OF inv _ len])
next
  case (begins w h q r i it d)
  have same: "walks_of (U(t := (w, Some (next_address it, d, {})))) = walks_of U" using begins(1) by (intro ext) simp
  have "job_ok (st_chain s) (st_mem s) (w, Some (next_address it, d, {}))"
    using begins by (auto simp: in_place_def)
  with inv show ?thesis unfolding site_inv_def begins(2,3) same by (auto simp del: block.simps)
next
  case (copies j d w a D)
  with site_inv_copies [OF inv] show ?thesis by simp
next
  case (ends w h q r i it d D c' a)
  then show ?thesis by (auto intro!: site_inv_ends [OF inv, where p = "Item_Ptr h i"])
qed

section \<open>Runs\<close>

text \<open>The system before its threads start.\<close>

definition quiet_site :: "usize \<Rightarrow> site \<Rightarrow> bool" where
  "quiet_site h0 s \<longleftrightarrow> quiet_chain h0 (st_chain s) \<and> st_log s = [] \<and>
     blocks_ok (st_taken s) (block (st_chain s) (\<lambda>_. Outside))"

lemma site_run_inv:
  assumes "site_run True b len h0 s0 s U" and "quiet_site h0 s0" and len: "len = HEADER_LENGTH"
  shows "site_inv len h0 (st_mem s0) s U"
  using assms(1,2)
proof (induction rule: site_run.induct)
  case site_start
  have "chain_inv len h0 (st_chain s0) (\<lambda>_. Outside)"
    by (rule walks_inv [OF walks.start]) (use site_start len in \<open>auto simp: quiet_site_def HEADER_LENGTH_def\<close>)
  with site_start show ?case by (simp add: site_inv_def quiet_site_def entries_apart_def del: block.simps)
next
  case (site_go s U t s' u')
  show ?case by (rule site_inv_step [OF site_go.IH [OF site_go.prems] len]) (use site_go.hyps in blast)+
qed

lemma site_go_quiet:
  assumes "site_run ordered b len h0 s0 s U" and "U t = (w, j)" and "site_step b len h0 s (w, j) s' u'"
    and "\<And>h q v. ordered \<Longrightarrow> w = At h q Idle \<Longrightarrow> makes (fst (U v)) \<noteq> Some h"
  shows "site_run ordered b len h0 s0 s' (U(t := u'))"
  using assms by (intro site_go [OF assms(1)]) simp_all

text \<open>A step of the chain that takes no memory.\<close>

lemma site_moves:
  assumes "site_run ordered b len h0 s0 s U" and "U t = (w, None)" and "walk_step b len h0 (st_chain s) w c' w'"
    and "quiet_move w w'" and "gains len w' = {}"
    and "\<And>h q v. ordered \<Longrightarrow> w = At h q Idle \<Longrightarrow> makes (fst (U v)) \<noteq> Some h"
  shows "site_run ordered b len h0 s0 (s\<lparr>st_chain := c'\<rparr>) (U(t := (w', None)))"
proof -
  have "s\<lparr>st_chain := c', st_taken := st_taken s \<union> gains len w'\<rparr> = s\<lparr>st_chain := c'\<rparr>"
    using assms(5) by (cases s) simp
  with moves [OF assms(3,4)] assms(5) have "site_step b len h0 s (w, None) (s\<lparr>st_chain := c'\<rparr>) (w', None)" by simp
  with assms show ?thesis by (intro site_go_quiet [OF assms(1,2)]) auto
qed

text \<open>The bytes of an append, one after another.\<close>

lemma write_bytes_Suc:
  assumes "k < length d" and "unat a + length d < 2 ^ 64"
  shows "write_bytes a (take (Suc k) d) m = (write_bytes a (take k d) m)(a + of_nat k := d ! k)"
proof
  fix x
  have k: "unat (of_nat k :: usize) = k" using assms by (intro unat_of_nat_usize) simp
  have "x = a + of_nat k \<longleftrightarrow> unat (x - a) = k"
  proof
    assume "unat (x - a) = k"
    with k have "x - a = of_nat k" by (simp add: word_unat_eq_iff)
    then show "x = a + of_nat k" by (simp add: algebra_simps)
  qed (simp add: k)
  then show "write_bytes a (take (Suc k) d) m x = ((write_bytes a (take k d) m)(a + of_nat k := d ! k)) x"
    using assms(1) by (auto simp: write_bytes_def min_def less_Suc_eq nth_append take_Suc_conv_app_nth)
qed

lemma copies_run:
  assumes "site_run ordered b len h0 s0 s U" and t: "U t = (w, Some (a, d, {}))" and w: "\<And>h q. w \<noteq> At h q Idle"
    and fits: "unat a + length d < 2 ^ 64" and k: "k \<le> length d"
  shows "site_run ordered b len h0 s0 (s\<lparr>st_mem := write_bytes a (take k d) (st_mem s)\<rparr>) (U(t := (w, Some (a, d, {..< k}))))"
  using k
proof (induction k)
  case 0
  have "write_bytes a [] (st_mem s) = st_mem s" by (intro ext) (simp add: write_bytes_def)
  with assms(1) t show ?case by (simp add: fun_upd_idem)
next
  case (Suc k)
  let ?s = "s\<lparr>st_mem := write_bytes a (take k d) (st_mem s)\<rparr>" and ?U = "U(t := (w, Some (a, d, {..< k})))"
  have run: "site_run ordered b len h0 s0 ?s ?U" using Suc.IH Suc.prems by (simp del: fun_upd_apply)
  have "site_step b len h0 ?s (w, Some (a, d, {..< k})) (?s\<lparr>st_mem := (st_mem ?s)(a + of_nat k := d ! k)\<rparr>)
      (w, Some (a, d, insert k {..< k}))" using Suc.prems by (intro copies) simp
  from site_go_quiet [OF run _ this, of t] w
  have "site_run ordered b len h0 s0 (?s\<lparr>st_mem := (st_mem ?s)(a + of_nat k := d ! k)\<rparr>)
      (?U(t := (w, Some (a, d, insert k {..< k}))))" by simp
  then show ?case using write_bytes_Suc [OF _ fits, of k "st_mem s"] Suc.prems
    by (simp add: lessThan_Suc del: fun_upd_apply)
qed

lemma append_run:
  assumes run: "site_run ordered b len h0 s0 s U" and t: "U t = (At h q (Holding r i), None)"
    and it: "it = chain_item (st_chain s) (Item_Ptr h i)" "wf_item it" "length d \<le> free_bytes it"
  shows "site_run ordered b len h0 s0
    (s\<lparr>st_mem := write_bytes (next_address it) d (st_mem s),
      st_chain := put_chain h (put_slot i (advance (length d) it) (ch_headers (st_chain s) h)) (st_chain s),
      st_log := st_log s @ [(next_address it, d)]\<rparr>) U"
proof -
  let ?a = "next_address it" and ?w = "At h q (Holding r i)"
  have "site_step b len h0 s (?w, None) s (?w, Some (?a, d, {}))" using it by (intro begins) simp_all
  from site_go_quiet [OF run t this]
  have 1: "site_run ordered b len h0 s0 s (U(t := (?w, Some (?a, d, {}))))" by simp
  let ?s = "s\<lparr>st_mem := write_bytes ?a d (st_mem s)\<rparr>"
  have "site_run ordered b len h0 s0 ?s (U(t := (?w, Some (?a, d, {..< length d}))))"
    using copies_run [OF 1, of t ?w ?a d "length d"] room_in_memory [OF it(2,3)] by simp
  note 2 = this
  define c' where "c' = put_chain h (put_slot i (advance (length d) it) (ch_headers (st_chain s) h)) (st_chain s)"
  have "site_step b len h0 ?s (?w, Some (?a, d, {..< length d})) (?s\<lparr>st_chain := c', st_log := st_log s @ [(?a, d)]\<rparr>) (?w, None)"
    using ends [where s = ?s and w = ?w and it = it and d = d and D = "{..< length d}" and c' = c' and a = ?a and b = b
      and len = len and ?h0.0 = h0] it(1) by (simp add: c'_def)
  from site_go_quiet [OF 2 _ this, of t] t show ?thesis unfolding c'_def
    by (simp add: fun_upd_idem)
qed

section \<open>A sample site\<close>

definition paged_site :: site where
  "paged_site = \<lparr>st_chain = paged_chain, st_mem = (\<lambda>_. 0),
     st_taken = page_block 0x10000 \<union> {0x3000000 ..< 0x3001000}, st_log = []\<rparr>"

lemma paged_site_sel:
  "st_chain paged_site = paged_chain" "st_mem paged_site = (\<lambda>_. 0)" "st_log paged_site = []"
  "st_taken paged_site = page_block 0x10000 \<union> {0x3000000 ..< 0x3001000}"
  by (simp_all add: paged_site_def)

lemma paged_chain_sel: "ch_headers paged_chain a = paged_header" "ch_used paged_chain = {0x10000}"
  by (simp_all add: paged_chain_def)

lemma paged_site_quiet: "quiet_site 0x10000 paged_site"
proof -
  let ?B = "block paged_chain (\<lambda>_. Outside)"
  have page: "?B (Page a) = (if a = 0x10000 then page_block 0x10000 else {})" for a
    by (simp add: paged_chain_sel)
  have "slot_live paged_chain (\<lambda>_. Outside) p \<longleftrightarrow> p = Item_Ptr 0x10000 0" for p
    by (cases p) (auto simp: slot_live_def paged_chain_sel paged_items made_def)
  then have slot: "?B (Slot p) = (if p = Item_Ptr 0x10000 0 then {0x3000000 ..< 0x3001000} else {})" for p
    by (simp add: paged_chain_sel paged_items item_block_def)
  have pend: "?B (Pending t) = {}" for t by simp
  have "?B x \<subseteq> page_block 0x10000 \<union> {0x3000000 ..< 0x3001000}" for x
    by (cases x) (simp_all only: page slot pend split: if_splits, auto)
  moreover have "?B x \<inter> ?B y = {}" if "x \<noteq> y" for x y
    using that by (cases x; cases y) (auto simp only: page slot pend block_id.inject page_block_def split: if_splits, auto)
  ultimately have "blocks_ok (page_block 0x10000 \<union> {0x3000000 ..< 0x3001000}) ?B" by (simp add: blocks_ok_def del: block.simps)
  then show ?thesis unfolding quiet_site_def paged_site_sel using paged_chain_quiet by simp
qed

abbreviation paged_holder :: walk where
  "paged_holder \<equiv> At 0x10000 request (Holding request 0)"

text \<open>Thread 1 finds the item.\<close>

lemma paged_site_holds:
  "site_run True Debug HEADER_LENGTH 0x10000 paged_site (paged_site\<lparr>st_chain := put_chain 0x10000 locked_slot paged_chain\<rparr>)
    ((\<lambda>_. (Outside, None))(1 := (paged_holder, None)))"
proof -
  let ?run = "site_run True Debug HEADER_LENGTH 0x10000 paged_site" and ?h = "0x10000 :: usize"
  let ?at = "\<lambda>w. (\<lambda>_. (Outside, None))(1 := (w, None :: job option))" and ?scan = "Scan request 0 1" and ?probe = "Trying request 0 1"
  have same: "paged_site\<lparr>st_chain := paged_chain\<rparr> = paged_site" by (simp add: paged_site_def)
  have 1: "?run paged_site (?at (At ?h request Idle))"
    using site_moves [OF site_start [of True Debug HEADER_LENGTH ?h paged_site], where t = 1 and w = Outside and c' = paged_chain and w' = "At ?h request Idle"]
      begin_search [of Debug HEADER_LENGTH ?h paged_chain request] same
    by (simp add: paged_site_sel)
  have "walk_step Debug HEADER_LENGTH ?h paged_chain (At ?h request Idle) (put_chain ?h (ch_headers paged_chain ?h) paged_chain) (At ?h request ?scan)"
    using look [OF enter refl, of Debug HEADER_LENGTH ?h paged_chain ?h request] by (simp add: paged_chain_sel paged_items)
  then have 2: "?run paged_site (?at (At ?h request ?scan))"
    using site_moves [OF 1, where t = 1 and w = "At ?h request Idle" and c' = paged_chain and w' = "At ?h request ?scan"] same by (simp add: paged_site_sel put_chain_same)
  have "thread_step Debug paged_header ?scan paged_header ?probe"
    by (rule scan_yes) (simp_all add: paged_items paged_can_use)
  then have "walk_step Debug HEADER_LENGTH ?h paged_chain (At ?h request ?scan) (put_chain ?h (ch_headers paged_chain ?h) paged_chain) (At ?h request ?probe)"
    by (intro in_header) (simp_all add: paged_chain_sel)
  then have 3: "?run paged_site (?at (At ?h request ?probe))"
    using site_moves [OF 2, where t = 1 and w = "At ?h request ?scan" and c' = paged_chain and w' = "At ?h request ?probe"] same by (simp add: paged_site_sel put_chain_same)
  have "thread_step Debug paged_header ?probe locked_slot (Holding request 0)"
    by (rule try_ok) (simp add: paged_items item_try_lock_def)
  then have "walk_step Debug HEADER_LENGTH ?h paged_chain (At ?h request ?probe) (put_chain ?h locked_slot paged_chain) paged_holder"
    by (intro in_header) (simp_all add: paged_chain_sel)
  then show ?thesis
    using site_moves [OF 3, where t = 1 and w = "At ?h request ?probe" and c' = "put_chain ?h locked_slot paged_chain" and w' = paged_holder] by (simp add: paged_site_sel)
qed

text \<open>And appends two bytes to it.\<close>

lemma paged_slot: "wf_item (chain_item (put_chain 0x10000 locked_slot paged_chain) (Item_Ptr 0x10000 0))"
  "free_bytes (chain_item (put_chain 0x10000 locked_slot paged_chain) (Item_Ptr 0x10000 0)) = 4096"
  "next_address (chain_item (put_chain 0x10000 locked_slot paged_chain) (Item_Ptr 0x10000 0)) = 0x3000000"
  by (simp_all add: wf_item_def free_bytes_def next_address_def paged_items)

lemma paged_site_appends:
  "\<exists>s U. site_run True Debug HEADER_LENGTH 0x10000 paged_site s U \<and> st_log s = [(0x3000000, [7, 8])] \<and>
    0x10000 \<in> ch_used (st_chain s)"
proof -
  let ?c = "put_chain 0x10000 locked_slot paged_chain"
  let ?s = "paged_site\<lparr>st_chain := ?c\<rparr>" and ?it = "chain_item (put_chain 0x10000 locked_slot paged_chain) (Item_Ptr 0x10000 0)"
  have len: "length [7, 8 :: u8] \<le> free_bytes ?it" by (simp only: paged_slot) simp
  have it: "?it = chain_item (st_chain ?s) (Item_Ptr 0x10000 0)" by simp
  note run = append_run [OF paged_site_holds _ it paged_slot(1) len, of 1]
  show ?thesis
    by (rule exI, rule exI, rule conjI, rule run) (simp_all add: paged_items next_address_def paged_site_sel paged_chain_sel)
qed

section \<open>The guarantees\<close>



text \<open>
  C18 A thread that runs alone through its append does what the sequential operation does, be it
  \<open>append_bytes\<close>, \<open>append_code\<close> or \<open>append_copy\<close>: the operation returns, and the steps lead to the memory and
  the item that it returns, with the append recorded at the address it returns.
\<close>

theorem appends_are_runs:
  assumes "site_run ordered b len h0 s0 s U" and "U t = (At h q (Holding r i), None)"
    and "it = chain_item (st_chain s) (Item_Ptr h i)" and "wf_item it" and "length d \<le> free_bytes it"
    and "mem m = st_mem s" and "app \<in> {append_bytes b tg api, append_code b tg api, append_copy b tg api}"
  shows "\<exists>a it' m'. app d it m = Some (a, it', m') \<and>
    site_run ordered b len h0 s0 (s\<lparr>st_mem := mem m',
      st_chain := put_chain h (put_slot i it' (ch_headers (st_chain s) h)) (st_chain s), st_log := st_log s @ [(a, d)]\<rparr>) U"
proof -
  have "\<exists>st. app d it m = Some (next_address it, advance (length d) it,
      m\<lparr>mem := write_bytes (next_address it) d (mem m), os := st\<rparr>)"
    using assms(7) append_bytes_writes [OF assms(4,5), of b tg api m] append_code_writes [OF assms(4,5), of b tg api m]
      append_copy_writes [OF assms(4,5), of b tg api m] by blast
  then show ?thesis using append_run [OF assms(1-5)] assms(6) by auto
qed

theorem appends_are_runs_witness:
  "\<exists>s. site_run True Debug HEADER_LENGTH 0x10000 paged_site s ((\<lambda>_. (Outside, None))(1 := (paged_holder, None))) \<and>
    st_log s = [(0x3000000, [7, 8])]"
proof -
  let ?it = "chain_item (put_chain 0x10000 locked_slot paged_chain) (Item_Ptr 0x10000 0)"
  let ?tg = "\<lparr>tgt_os = Linux, tgt_arch = X86_64\<rparr>" and ?m = "\<lparr>mem = (\<lambda>_. 0), os = ()\<rparr>"
  let ?api = "\<lparr>mach_vm_protect_code = (\<lambda>_ _ _ s. s), cache_line_flush_with_ptr = (\<lambda>_ _ s. s), FlushInstructionCache = (\<lambda>_ _ s. s)\<rparr>"
  have len: "length [7, 8 :: u8] \<le> free_bytes ?it" by (simp only: paged_slot) simp
  let ?s = "paged_site\<lparr>st_chain := put_chain 0x10000 locked_slot paged_chain\<rparr>"
  have m: "mem ?m = st_mem ?s" by (simp add: paged_site_sel)
  have it: "?it = chain_item (st_chain ?s) (Item_Ptr 0x10000 0)" by simp
  obtain a it' m' where app: "append_code Debug ?tg ?api [7, 8] ?it ?m = Some (a, it', m')"
    and run: "site_run True Debug HEADER_LENGTH 0x10000 paged_site (?s\<lparr>st_mem := mem m',
      st_chain := put_chain 0x10000 (put_slot 0 it' (ch_headers (st_chain ?s) 0x10000)) (st_chain ?s),
      st_log := st_log ?s @ [(a, [7, 8])]\<rparr>) ((\<lambda>_. (Outside, None))(1 := (paged_holder, None)))"
    using appends_are_runs [where t = 1 and app = "append_code Debug ?tg ?api" and b = Debug and tg = ?tg and api = ?api,
      OF paged_site_holds _ it paged_slot(1) len m] by auto
  have "a = 0x3000000" using append_code_writes [OF paged_slot(1) len, of Debug ?tg ?api ?m] app unfolding paged_slot(3) by simp
  with run show ?thesis by (intro exI, intro conjI) (simp, simp add: paged_site_sel)
qed

end
