(* ===== verification/Crate_Tests.thy ===== *)
theory Crate_Tests
  imports Memory_Map Settings Locator_Item
begin

text \<open>
  The crate's own unit tests of its pure functions, as predicates over the model: the arguments, calls
  and assertions of each \<open>#[test]\<close> function, under its name (with the module in front where two modules
  use the same name).
\<close>

text \<open>A test goes on with the value a call returns; a call that panics fails it.\<close>

definition on_return :: "'a option \<Rightarrow> ('a \<Rightarrow> bool) \<Rightarrow> bool" where
  "on_return r P = (case r of None \<Rightarrow> False | Some x \<Rightarrow> P x)"

lemma on_return [simp]: "on_return None P = False" "on_return (Some x) P = P x"
  by (simp_all add: on_return_def)

lemma on_return_iff: "on_return r P \<longleftrightarrow> (\<exists>x. r = Some x \<and> P x)"
  by (cases r) simp_all

section \<open>\<open>address_range.rs\<close>\<close>

definition contains_should_be_true_when_other_range_is_inside :: bool where
  "contains_should_be_true_when_other_range_is_inside =
     (let range = address_range_new 100 200; other_range = address_range_new 120 180
      in address_range_contains range other_range)"

definition contains_should_be_false_when_other_range_is_not_inside :: bool where
  "contains_should_be_false_when_other_range_is_not_inside =
     (let range = address_range_new 100 200; other_range = address_range_new 80 220
      in \<not> address_range_contains range other_range)"

definition overlaps_should_be_true_when_other_range_overlaps :: bool where
  "overlaps_should_be_true_when_other_range_overlaps =
     (let range = address_range_new 100 200; other_range = address_range_new 150 220
      in address_range_overlaps range other_range)"

definition overlaps_should_be_false_when_other_range_does_not_overlap :: bool where
  "overlaps_should_be_false_when_other_range_does_not_overlap =
     (let range = address_range_new 100 200; other_range = address_range_new 300 400
      in \<not> address_range_overlaps range other_range)"

definition overlaps_should_be_true_when_ranges_are_same :: bool where
  "overlaps_should_be_true_when_ranges_are_same =
     (let range = address_range_new 100 200; other_range = address_range_new 100 200
      in address_range_overlaps range other_range)"

definition overlaps_should_be_true_when_one_range_is_fully_inside_other :: bool where
  "overlaps_should_be_true_when_one_range_is_fully_inside_other =
     (let range = address_range_new 100 200; other_range = address_range_new 120 180
      in address_range_overlaps range other_range)"

definition overlaps_should_be_true_when_ranges_are_adjacent :: bool where
  "overlaps_should_be_true_when_ranges_are_adjacent =
     (let range = address_range_new 100 200; other_range = address_range_new 200 300
      in address_range_overlaps range other_range)"

definition overlaps_should_be_true_when_other_range_starts_inside_range :: bool where
  "overlaps_should_be_true_when_other_range_starts_inside_range =
     (let range = address_range_new 100 200; other_range = address_range_new 150 250
      in address_range_overlaps range other_range)"

definition overlaps_should_be_true_when_other_range_ends_inside_range :: bool where
  "overlaps_should_be_true_when_other_range_ends_inside_range =
     (let range = address_range_new 100 200; other_range = address_range_new 50 150
      in address_range_overlaps range other_range)"

lemmas address_range_test_defs = contains_should_be_true_when_other_range_is_inside_def
  contains_should_be_false_when_other_range_is_not_inside_def overlaps_should_be_true_when_other_range_overlaps_def
  overlaps_should_be_false_when_other_range_does_not_overlap_def overlaps_should_be_true_when_ranges_are_same_def
  overlaps_should_be_true_when_one_range_is_fully_inside_other_def overlaps_should_be_true_when_ranges_are_adjacent_def
  overlaps_should_be_true_when_other_range_starts_inside_range_def
  overlaps_should_be_true_when_other_range_ends_inside_range_def

lemma address_range_tests:
  "contains_should_be_true_when_other_range_is_inside" "contains_should_be_false_when_other_range_is_not_inside"
  "overlaps_should_be_true_when_other_range_overlaps" "overlaps_should_be_false_when_other_range_does_not_overlap"
  "overlaps_should_be_true_when_ranges_are_same" "overlaps_should_be_true_when_one_range_is_fully_inside_other"
  "overlaps_should_be_true_when_ranges_are_adjacent" "overlaps_should_be_true_when_other_range_starts_inside_range"
  "overlaps_should_be_true_when_other_range_ends_inside_range"
  by (simp_all add: address_range_test_defs address_range_new_def address_range_contains_def
      address_range_overlaps_def point_in_range_def)

section \<open>\<open>buffer_allocator.rs\<close>\<close>

text \<open>The arithmetic of a test is that of the build \<open>b\<close>, and indexing an empty slice panics.\<close>

definition ALLOCATION_GRANULARITY :: usize where
  "ALLOCATION_GRANULARITY = 65536"

definition first_of :: "'a list option \<Rightarrow> 'a option" where
  "first_of r = (case r of Some (x # _) \<Rightarrow> Some x | _ \<Rightarrow> None)"

definition page_does_not_overlap_with_min_max :: "build \<Rightarrow> bool" where
  "page_does_not_overlap_with_min_max b =
     (let min_ptr = 100000; max_ptr = 200000; page_size = 50000; buf_size = 30000;
          page_start = max_ptr + 1; page_end = page_start + page_size
      in on_return (get_possible_buffer_addresses b min_ptr max_ptr page_start page_end buf_size
           ALLOCATION_GRANULARITY) (\<lambda>result. length result = 0))"

definition buffer_size_greater_than_page :: "build \<Rightarrow> bool" where
  "buffer_size_greater_than_page b =
     (let min_ptr = 100000; max_ptr = 200000; page_size = 30000; buf_size = 50000;
          page_start = min_ptr; page_end = page_start + page_size
      in on_return (get_possible_buffer_addresses b min_ptr max_ptr page_start page_end buf_size
           ALLOCATION_GRANULARITY) (\<lambda>result. length result = 0))"

definition round_up_from_ptr_min :: "build \<Rightarrow> bool" where
  "round_up_from_ptr_min b =
     (let min_ptr = 100000; max_ptr = 200000; page_size = 200000; buf_size = 30000;
          page_start = min_ptr - 50000; page_end = page_start + page_size
      in on_return (first_of (get_possible_buffer_addresses b min_ptr max_ptr page_start page_end buf_size
           ALLOCATION_GRANULARITY)) (\<lambda>result. result > 0))"

definition round_up_from_page_min :: "build \<Rightarrow> bool" where
  "round_up_from_page_min b =
     (let min_ptr = 1; max_ptr = 200000; page_size = 100000; buf_size = 30000;
          page_start = min_ptr + 5000; page_end = page_start + page_size
      in on_return (first_of (get_possible_buffer_addresses b min_ptr max_ptr page_start page_end buf_size
           ALLOCATION_GRANULARITY)) (\<lambda>result. Some result = round_up b page_start ALLOCATION_GRANULARITY))"

definition round_down_from_ptr_max :: "build \<Rightarrow> bool" where
  "round_down_from_ptr_max b =
     (let min_ptr = 10000; max_ptr = 200000 - 5000; page_size = 1000000; buf_size = 30000;
          page_start = 80000; page_end = page_start + page_size
      in on_return (first_of (get_possible_buffer_addresses b min_ptr max_ptr page_start page_end buf_size
           ALLOCATION_GRANULARITY)) (\<lambda>result. Some result = round_down b (max_ptr - buf_size) ALLOCATION_GRANULARITY))"

definition round_down_from_page_max :: "build \<Rightarrow> bool" where
  "round_down_from_page_max b =
     (let min_ptr = 1; max_ptr = 200000; page_size = 120000; buf_size = 30000;
          page_start = min_ptr; page_end = page_start + page_size - 5000
      in on_return (first_of (get_possible_buffer_addresses b min_ptr max_ptr page_start page_end buf_size
           ALLOCATION_GRANULARITY)) (\<lambda>result. Some result = round_down b (page_end - buf_size) ALLOCATION_GRANULARITY))"

lemmas candidate_test_defs = page_does_not_overlap_with_min_max_def buffer_size_greater_than_page_def
  round_up_from_ptr_min_def round_up_from_page_min_def round_down_from_ptr_max_def round_down_from_page_max_def

lemma candidate_tests:
  "page_does_not_overlap_with_min_max b" "buffer_size_greater_than_page b" "round_up_from_ptr_min b"
  "round_up_from_page_min b" "round_down_from_ptr_max b" "round_down_from_page_max b"
  by (simp_all add: candidate_test_defs get_possible_buffer_addresses_def candidate_def address_range_new_def
      address_range_contains_def address_range_overlaps_def point_in_range_def address_range_size_def first_of_def
      round_up_def round_down_def arith_ok add_with_overflow_cap_def subtract_with_underflow_cap_def
      ALLOCATION_GRANULARITY_def Let_def)

section \<open>\<open>buffer_search_settings.rs\<close> and \<open>buffer_allocator_settings.rs\<close>\<close>

definition search_test_default_settings :: "cached \<Rightarrow> bool" where
  "search_test_default_settings sys =
     (let settings = search_settings_new sys
      in bss_min_address settings = 0 \<and> bss_max_address settings = ci_max_address sys \<and> bss_size settings = 4096)"

definition search_test_from_proximity :: bool where
  "search_test_from_proximity =
     (let proximity = 1000; target = 2000; size = 3000;
          settings = search_settings_from_proximity proximity target size
      in bss_max_address settings = add_with_overflow_cap target proximity \<and>
         bss_min_address settings = subtract_with_underflow_cap target proximity \<and> bss_size settings = ucast size)"

definition allocator_test_default_settings :: "cached \<Rightarrow> bool" where
  "allocator_test_default_settings sys =
     (let settings = allocator_settings_new sys
      in bas_min_address settings = 0 \<and> bas_max_address settings = ci_max_address sys \<and> bas_size settings = 4096 \<and>
         bas_target_process_id settings = ci_this_process_id sys \<and> bas_retry_count settings = 8 \<and>
         bas_brute_force settings)"

definition allocator_test_from_proximity :: "cached \<Rightarrow> bool" where
  "allocator_test_from_proximity sys =
     (let proximity = 1000; target = 2000; size = 3000;
          settings = allocator_settings_from_proximity sys proximity target size
      in bas_max_address settings = add_with_overflow_cap target proximity \<and>
         bas_min_address settings = subtract_with_underflow_cap target proximity \<and> bas_size settings = ucast size \<and>
         bas_target_process_id settings = ci_this_process_id sys \<and> bas_retry_count settings = 8 \<and>
         bas_brute_force settings)"

definition test_sanitize :: "build \<Rightarrow> target \<Rightarrow> cached \<Rightarrow> bool" where
  "test_sanitize b t sys =
     (let settings = (allocator_settings_new sys)\<lparr>bas_min_address := 0, bas_size := 1\<rparr>
      in on_return (sanitize b t sys settings) (\<lambda>settings.
           (if cfg_windows t then bas_min_address settings = granularity sys else bas_min_address settings = 0) \<and>
           on_return (round_up b (max 1 1) (granularity sys)) (\<lambda>rounded. bas_size settings = ucast rounded)))"

lemma settings_tests:
  "search_test_default_settings sys" "search_test_from_proximity" "allocator_test_default_settings sys"
  "allocator_test_from_proximity sys"
  by (simp_all add: search_test_default_settings_def search_settings_new_def search_test_from_proximity_def
      search_settings_from_proximity_def allocator_test_default_settings_def allocator_settings_new_def
      allocator_test_from_proximity_def allocator_settings_from_proximity_def)

lemma sanitize_test:
  assumes "sane_sys sys"
  shows "test_sanitize b t sys"
proof -
  obtain r where r: "round_up b 1 (granularity sys) = Some r"
    using sanitize_round_up [OF assms, of b 1] by (metis max.idem unsigned_1)
  have "0 < granularity sys" using sane_granularity(1) [OF assms] by (simp add: word_gt_0)
  with r show ?thesis
    by (auto simp: test_sanitize_def sanitize_def allocator_settings_new_def Let_def)
qed

section \<open>\<open>map_parser_utilities.rs\<close>\<close>

definition get_free_regions_with_no_gap :: "cached \<Rightarrow> bool" where
  "get_free_regions_with_no_gap sys =
     (let regions = [memory_map_entry_new 0 10, memory_map_entry_new 10 20, memory_map_entry_new 20 (- 1)];
          free_regions = get_free_regions sys regions
      in length free_regions = 0)"

definition get_free_regions_single_gap :: "cached \<Rightarrow> bool" where
  "get_free_regions_single_gap sys =
     (let regions = [memory_map_entry_new 0 10, memory_map_entry_new 10 20, memory_map_entry_new 30 (- 1)];
          free_regions = get_free_regions sys regions
      in length free_regions = 1 \<and> start_address (free_regions ! 0) = 20 \<and> end_address (free_regions ! 0) = 29)"

definition get_free_regions_multiple_gaps :: "cached \<Rightarrow> bool" where
  "get_free_regions_multiple_gaps sys =
     (let regions = [memory_map_entry_new 0 10, memory_map_entry_new 20 30, memory_map_entry_new 40 (- 1)];
          free_regions = get_free_regions sys regions
      in length free_regions = 2 \<and> start_address (free_regions ! 0) = 10 \<and> end_address (free_regions ! 0) = 19 \<and>
         start_address (free_regions ! 1) = 30 \<and> end_address (free_regions ! 1) = 39)"

lemma region_tests:
  "get_free_regions_with_no_gap sys" "get_free_regions_single_gap sys" "get_free_regions_multiple_gaps sys"
proof -
  have top: "\<not> - 1 < ci_max_address sys" by (simp add: word_order.extremum_strict)
  show "get_free_regions_with_no_gap sys" "get_free_regions_single_gap sys" "get_free_regions_multiple_gaps sys"
    by (simp_all add: get_free_regions_with_no_gap_def get_free_regions_single_gap_def
        get_free_regions_multiple_gaps_def get_free_regions_def top)
qed

section \<open>\<open>linux_map_parser.rs\<close>\<close>

text \<open>The tests of a 64-bit target; the last but one expects a panic of \<open>unwrap\<close>.\<close>

definition parse_memory_map_entry_valid_line :: bool where
  "parse_memory_map_entry_valid_line =
     (let line = ''7f9c89991000-7f9c89993000 r--p 00000000 08:01 3932177                    /path/to/file''
      in on_return (parse_memory_map_entry line) (\<lambda>result.
           start_address result = 0x7f9c89991000 \<and> end_address result = 0x7f9c89993000))"

definition parse_memory_map_entry_invalid_line :: bool where
  "parse_memory_map_entry_invalid_line = (parse_memory_map_entry ''Invalid line'' = None)"

definition parse_memory_map_valid_lines :: bool where
  "parse_memory_map_valid_lines =
     (let lines = [''7f9c89991000-7f9c89993000 r--p 00000000 08:01 3932177                    /path/to/file'',
            ''7f9c89994000-7f9c89995000 r--p 00000000 08:01 3932178                    /path/to/file''];
          result = parse_memory_map_from_lines lines
      in length result = 2 \<and>
         start_address (result ! 0) = 0x7f9c89991000 \<and> end_address (result ! 0) = 0x7f9c89993000 \<and>
         start_address (result ! 1) = 0x7f9c89994000 \<and> end_address (result ! 1) = 0x7f9c89995000)"

text \<open>Only the first piece of a line is read.\<close>

lemma parse_first_piece:
  assumes "list_all (\<lambda>c. \<not> ascii_whitespace c) piece" and "piece \<noteq> []"
  shows "parse_memory_map_entry (piece @ CHR '' '' # rest) =
    (let addresses = split_on (CHR ''-'') piece in
     if length addresses = 2
     then (case (from_str_radix_16 (addresses ! 0), from_str_radix_16 (addresses ! 1)) of
             (Some s, Some e) \<Rightarrow> Some (memory_map_entry_new s e)
           | _ \<Rightarrow> None)
     else None)"
proof -
  have space: "ascii_whitespace CHR '' ''" by (simp add: ascii_whitespace_def)
  have "dropWhile ascii_whitespace (piece @ CHR '' '' # rest) = piece @ CHR '' '' # rest"
    using assms by (cases piece) simp_all
  moreover have "takeWhile (\<lambda>c. \<not> ascii_whitespace c) (piece @ CHR '' '' # rest) = piece"
    using assms(1) space by (simp add: takeWhile_append2 list_all_iff)
  ultimately have "\<exists>ps. split_ascii_whitespace (piece @ CHR '' '' # rest) = piece # ps"
    by (subst split_ascii_whitespace.simps) (simp add: Let_def)
  then show ?thesis by (auto simp: parse_memory_map_entry_def)
qed

lemma parser_test_addresses:
  "from_str_radix_16 ''7f9c89991000'' = Some 0x7f9c89991000" "from_str_radix_16 ''7f9c89993000'' = Some 0x7f9c89993000"
  "from_str_radix_16 ''7f9c89994000'' = Some 0x7f9c89994000" "from_str_radix_16 ''7f9c89995000'' = Some 0x7f9c89995000"
  by (simp_all add: from_str_radix_16_def hex_digit_def)

lemma parser_test_lines:
  "parse_memory_map_entry ''7f9c89991000-7f9c89993000 r--p 00000000 08:01 3932177                    /path/to/file''
    = Some (memory_map_entry_new 0x7f9c89991000 0x7f9c89993000)"
  "parse_memory_map_entry ''7f9c89994000-7f9c89995000 r--p 00000000 08:01 3932178                    /path/to/file''
    = Some (memory_map_entry_new 0x7f9c89994000 0x7f9c89995000)"
  "parse_memory_map_entry ''Invalid line'' = None"
  using parse_first_piece [of "''7f9c89991000-7f9c89993000''" "''r--p 00000000 08:01 3932177                    /path/to/file''"]
    parse_first_piece [of "''7f9c89994000-7f9c89995000''" "''r--p 00000000 08:01 3932178                    /path/to/file''"]
    parse_first_piece [of "''Invalid''" "''line''"]
  by (simp_all add: ascii_whitespace_def parser_test_addresses)

lemma parser_tests:
  "parse_memory_map_entry_valid_line" "parse_memory_map_entry_invalid_line" "parse_memory_map_valid_lines"
  by (simp_all only: parse_memory_map_entry_valid_line_def parse_memory_map_entry_invalid_line_def
      parse_memory_map_valid_lines_def Let_def parser_test_lines parse_memory_map_from_lines.simps option.case on_return)
    simp_all

section \<open>\<open>locator_item.rs\<close>\<close>

text \<open>\<open>size_of::<usize>()\<close> is \<open>w\<close>, and \<open>offset_of!\<close> reads the layout.\<close>

definition item_is_correct_size :: "nat \<Rightarrow> bool" where
  "item_is_correct_size w =
     (let offsets = field_offsets 0 (LocatorItem_fields w); struct_size = (if w = 4 then 16 else 20);
          size = ly_size (repr_c (LocatorItem_fields w))
      in 0 = offsets ! 0 \<and> w = offsets ! 1 \<and> w + 4 = offsets ! 2 \<and> w + 8 = offsets ! 3 \<and> size = struct_size)"

definition try_lock_should_lock_item_when_lock_is_available :: bool where
  "try_lock_should_lock_item_when_lock_is_available =
     (let item = locator_item_new 0 0; (result, item) = item_try_lock item
      in result \<and> item_is_taken item)"

definition try_lock_should_not_lock_item_when_lock_is_already_acquired :: bool where
  "try_lock_should_not_lock_item_when_lock_is_already_acquired =
     (let item = locator_item_new 0 0; (_, item) = item_try_lock item; (result, item) = item_try_lock item
      in \<not> result \<and> item_is_taken item)"

definition item_lock_should_acquire_lock_when_lock_is_available :: bool where
  "item_lock_should_acquire_lock_when_lock_is_available =
     on_return (item_lock (\<lambda>it. it) (locator_item_new 0 0)) item_is_taken"

definition unlock_should_release_lock_when_item_is_locked :: bool where
  "unlock_should_release_lock_when_item_is_locked =
     on_return (item_lock (\<lambda>it. it) (locator_item_new 0 0)) (\<lambda>item. \<not> item_is_taken (item_unlock item))"

definition min_address_should_return_base_address_when_called :: bool where
  "min_address_should_return_base_address_when_called =
     (let base_address = 10; size = 20; item = locator_item_new base_address size
      in item_min_address item = base_address)"

definition max_address_should_return_sum_of_base_address_and_size_when_called :: "build \<Rightarrow> bool" where
  "max_address_should_return_sum_of_base_address_and_size_when_called b =
     (let base_address = 10; size = 20; item = locator_item_new base_address size
      in on_return (item_max_address b item) (\<lambda>result. result = base_address + ucast size))"

definition can_use_should_return_expected_result :: "build \<Rightarrow> bool" where
  "can_use_should_return_expected_result b =
     (let test_cases = [(50, 100, 200, 50, True), (50, 100, 200, 80, False), (50, 100, 200, 300, False),
            (0, 100, 150, 0, True)]
      in list_all (\<lambda>(position, base_address, max_address, size, expected).
           let locator_item = \<lparr>li_base_address = base_address, li_size = ucast (max_address - base_address),
             li_position = position, li_is_taken = 0\<rparr>
           in on_return (can_use b locator_item size base_address max_address) (\<lambda>result. result = expected))
           test_cases)"

text \<open>The array on the stack is somewhere in memory; its address \<open>a\<close> is a parameter.\<close>

definition append_bytes_should_append_data_to_buffer ::
  "build \<Rightarrow> target \<Rightarrow> 'o code_api \<Rightarrow> usize \<Rightarrow> 'o machine \<Rightarrow> bool" where
  "append_bytes_should_append_data_to_buffer b t api a m =
     (let size = 20; data = [1, 2, 3, 4]; item = locator_item_new a size
      in on_return (append_bytes b t api data item m) (\<lambda>(result, item, _).
           result = a \<and> li_position item = of_nat (length data)))"

definition append_copy_should_append_data_to_buffer ::
  "build \<Rightarrow> target \<Rightarrow> 'o code_api \<Rightarrow> usize \<Rightarrow> 'o machine \<Rightarrow> bool" where
  "append_copy_should_append_data_to_buffer b t api a m =
     (let size = 20; data = 42 :: u32; item = locator_item_new a size
      in on_return (append_copy b t api (le_bytes 4 data) item m) (\<lambda>(result, item, _).
           result = a \<and> li_position item = 4))"

lemma item_tests:
  "item_is_correct_size 8" "item_is_correct_size 4" "try_lock_should_lock_item_when_lock_is_available"
  "try_lock_should_not_lock_item_when_lock_is_already_acquired" "item_lock_should_acquire_lock_when_lock_is_available"
  "unlock_should_release_lock_when_item_is_locked" "min_address_should_return_base_address_when_called"
  "max_address_should_return_sum_of_base_address_and_size_when_called b"
  by (simp_all add: item_is_correct_size_def item_layout try_lock_should_lock_item_when_lock_is_available_def
      try_lock_should_not_lock_item_when_lock_is_already_acquired_def item_try_lock_def item_is_taken_def
      item_lock_should_acquire_lock_when_lock_is_available_def item_lock_fresh item_unlock_def
      unlock_should_release_lock_when_item_is_locked_def min_address_should_return_base_address_when_called_def
      max_address_should_return_sum_of_base_address_and_size_when_called_def item_min_address_def
      item_max_address_def arith_ok Let_def)

lemma can_use_test: "can_use_should_return_expected_result b"
  by (simp add: can_use_should_return_expected_result_def can_use_def is_allocated_def bytes_left_def arith_ok
      add_with_overflow_cap_def)

lemma append_tests:
  assumes "unat a + 20 < 2 ^ 64"
  shows "append_bytes_should_append_data_to_buffer b t api a m" "append_copy_should_append_data_to_buffer b t api a m"
proof -
  have it: "wf_item (locator_item_new a 20)" "free_bytes (locator_item_new a 20) = 20"
    "next_address (locator_item_new a 20) = a" "li_position (advance 4 (locator_item_new a 20)) = 4"
    using assms by (simp_all add: wf_item_def free_bytes_def next_address_def advance_def)
  show "append_bytes_should_append_data_to_buffer b t api a m"
    using append_bytes_writes [OF it(1), of "[1, 2, 3, 4]" b t api m] it
    by (auto simp: append_bytes_should_append_data_to_buffer_def advance_def)
  show "append_copy_should_append_data_to_buffer b t api a m"
    using append_copy_writes [OF it(1), of "le_bytes 4 (42 :: u32)" b t api m] it
    by (auto simp: append_copy_should_append_data_to_buffer_def advance_def)
qed
end
