(* ===== verification/Header_Tests.thy ===== *)
theory Header_Tests
  imports Crate_Tests Arena
begin

text \<open>
  The unit tests of \<open>locator_header.rs\<close>, on any system: what a test asks of the system (an allocation
  that succeeds, memory from the heap) is a hypothesis of the lemma that it passes.
\<close>

section \<open>Layout, lock and version\<close>

definition header_is_correct_size :: "nat \<Rightarrow> bool" where
  "header_is_correct_size w =
     (let expected = (if w = 4 then 16 else 24); expected_offset = (\<lambda>x y. if w = 8 then x else y);
          offsets = field_offsets 0 (LocatorHeader_fields w)
      in ly_size (repr_c (LocatorHeader_fields w)) = expected \<and>
         expected_offset 0 0 = offsets ! 0 \<and> expected_offset 8 4 = offsets ! 1 \<and> expected_offset 16 8 = offsets ! 2 \<and>
         expected_offset 20 12 = offsets ! 3 \<and> expected_offset 21 13 = offsets ! 4)"

text \<open>On a target of 64 bits.\<close>

definition has_correct_max_item_count :: bool where
  "has_correct_max_item_count = (MAX_ITEM_COUNT = 203)"

text \<open>\<open>LocatorHeader::new\<close>, for tests only: a header on the stack, with no slots behind it.\<close>

definition locator_header_new :: locator_header where
  "locator_header_new = \<lparr>lh_this_address = 0, lh_next_locator_ptr = 0, lh_is_locked = 0, lh_flags = 0,
     lh_num_items = 0, lh_items = []\<rparr>"

definition header_lock :: "locator_header \<Rightarrow> locator_header option" where
  "header_lock hdr = spin_lock header_try_lock (\<lambda>hdr. hdr) hdr"

definition try_lock_should_lock_header_when_lock_is_available :: bool where
  "try_lock_should_lock_header_when_lock_is_available =
     (let header = locator_header_new; (result, header) = header_try_lock header
      in result \<and> 1 = lh_is_locked header)"

definition try_lock_should_not_lock_header_when_lock_is_already_acquired :: bool where
  "try_lock_should_not_lock_header_when_lock_is_already_acquired =
     (let header = locator_header_new; (_, header) = header_try_lock header; (result, header) = header_try_lock header
      in \<not> result \<and> 1 = lh_is_locked header)"

definition header_lock_should_acquire_lock_when_lock_is_available :: bool where
  "header_lock_should_acquire_lock_when_lock_is_available =
     on_return (header_lock locator_header_new) (\<lambda>header. 1 = lh_is_locked header)"

definition unlock_should_release_lock_when_header_is_locked :: "build \<Rightarrow> bool" where
  "unlock_should_release_lock_when_header_is_locked b =
     on_return (header_lock locator_header_new) (\<lambda>header.
       on_return (header_unlock b header) (\<lambda>header. 0 = lh_is_locked header))"

definition version_should_be_3_bits :: bool where
  "version_should_be_3_bits =
     (let header = fold (\<lambda>value (ok, header). let header = set_version value header
            in (ok \<and> version header = value, header)) [0, 1, 2, 3, 4, 5, 6, 7] (True, locator_header_new)
      in fst header \<and> version (set_version 8 (snd header)) = 0)"

text \<open>Compiled in debug builds only; it expects a panic.\<close>

definition unlock_should_throw_exception_when_header_is_not_locked :: bool where
  "unlock_should_throw_exception_when_header_is_not_locked = (header_unlock Debug locator_header_new = None)"

lemma header_new_sel [simp]: "lh_is_locked locator_header_new = 0" "lh_flags locator_header_new = 0"
  by (simp_all add: locator_header_new_def)

lemma new_header_lock: "header_lock locator_header_new = Some (locator_header_new\<lparr>lh_is_locked := 1\<rparr>)"
  using header_lock.spin_free [of locator_header_new "\<lambda>hdr. hdr"]
  by (simp add: header_lock_def header_try_lock_def locator_header_new_def)

lemma header_state_tests:
  "header_is_correct_size 8" "header_is_correct_size 4" "has_correct_max_item_count"
  "try_lock_should_lock_header_when_lock_is_available" "try_lock_should_not_lock_header_when_lock_is_already_acquired"
  "header_lock_should_acquire_lock_when_lock_is_available" "unlock_should_release_lock_when_header_is_locked b"
  "unlock_should_throw_exception_when_header_is_not_locked"
  by (simp_all add: header_is_correct_size_def header_layout has_correct_max_item_count_def Let_def new_header_lock
      try_lock_should_lock_header_when_lock_is_available_def header_try_lock_def
      try_lock_should_not_lock_header_when_lock_is_already_acquired_def header_unlock_def
      header_lock_should_acquire_lock_when_lock_is_available_def unlock_should_release_lock_when_header_is_locked_def
      unlock_should_throw_exception_when_header_is_not_locked_def)

lemma version_test: "version_should_be_3_bits"
  by (simp add: version_should_be_3_bits_def version_def set_version_def)

section \<open>Finding an item\<close>

text \<open>A buffer of \<open>LENGTH\<close> zero bytes at \<open>h\<close>, made a header with two items by hand.\<close>

definition header_buf :: "usize \<Rightarrow> u32 \<Rightarrow> 'o world \<Rightarrow> 'o world" where
  "header_buf h position w =
     (let zeros = \<lparr>lh_this_address = 0, lh_next_locator_ptr = 0, lh_is_locked = 0, lh_flags = 0, lh_num_items = 0,
            lh_items = replicate 203 (locator_item_new 0 0)\<rparr>;
          w = put_header h (zeros\<lparr>lh_this_address := h, lh_num_items := 2\<rparr>) w;
          first_item = Item_Ptr h 0; second_item = Item_Ptr h 1;
          w = put_item first_item ((item_at w first_item)\<lparr>li_base_address := 100, li_size := 50, li_position := position\<rparr>) w
      in put_item second_item ((item_at w second_item)\<lparr>li_base_address := 200, li_size := 50, li_position := position\<rparr>) w)"

definition get_first_available_item_locked_should_return_expected_result :: "'o platform \<Rightarrow> usize \<Rightarrow> 'o world \<Rightarrow> bool" where
  "get_first_available_item_locked_should_return_expected_result pl h w =
     on_return (get_first_available_item_locked pl h 25 100 300 (header_buf h 25 w)) (\<lambda>(result, w).
       on_return result (\<lambda>item. li_base_address (item_at w item) = 100 \<and> item_is_taken (item_at w item)))"

definition get_first_available_item_locked_size_is_insufficient :: "'o platform \<Rightarrow> usize \<Rightarrow> 'o world \<Rightarrow> bool" where
  "get_first_available_item_locked_size_is_insufficient pl h w =
     on_return (get_first_available_item_locked pl h 25 100 300 (header_buf h 30 w)) (\<lambda>(result, w). result = None)"

definition get_first_available_item_locked_no_buffer_fits_range :: "'o platform \<Rightarrow> usize \<Rightarrow> 'o world \<Rightarrow> bool" where
  "get_first_available_item_locked_no_buffer_fits_range pl h w =
     on_return (get_first_available_item_locked pl h 25 0 100 (header_buf h 0 w)) (\<lambda>(result, w). result = None)"

lemma header_buf:
  "lh_num_items (w_headers (header_buf h position w) h) = 2"
  "take 2 (lh_items (w_headers (header_buf h position w) h)) = map (\<lambda>a. \<lparr>li_base_address = a, li_size = 50,
     li_position = position, li_is_taken = 0\<rparr>) [100, 200]"
  by (simp_all add: header_buf_def put_item_def item_at_def Let_def numeral_2_eq_2 locator_item_new_def take_update_swap)

lemma find_tests:
  "get_first_available_item_locked_should_return_expected_result pl h w"
  "get_first_available_item_locked_size_is_insufficient pl h w"
  "get_first_available_item_locked_no_buffer_fits_range pl h w"
proof -
  note defs = get_first_available_item_locked_def header_buf Let_def can_use_def is_allocated_def bytes_left_def
    arith_ok add_with_overflow_cap_def item_try_lock_def item_at_def item_is_taken_def
  show "get_first_available_item_locked_should_return_expected_result pl h w"
    unfolding get_first_available_item_locked_should_return_expected_result_def
    by (simp add: defs)
  show "get_first_available_item_locked_size_is_insufficient pl h w"
    unfolding get_first_available_item_locked_size_is_insufficient_def by (simp add: defs)
  show "get_first_available_item_locked_no_buffer_fits_range pl h w"
    unfolding get_first_available_item_locked_no_buffer_fits_range_def by (simp add: defs)
qed

section \<open>Registering an item\<close>

text \<open>
  The tests allocate \<open>LENGTH\<close> bytes at \<open>ptr\<close> and initialize them; what the memory held before is \<open>w\<close>.
\<close>

definition try_allocate_item_should_allocate_item_when_header_is_not_full_and_within_address_limits ::
  "'o platform \<Rightarrow> ('o world \<Rightarrow> 'o world) \<Rightarrow> usize \<Rightarrow> 'o world \<Rightarrow> bool" where
  "try_allocate_item_should_allocate_item_when_header_is_not_full_and_within_address_limits pl yield ptr w =
     on_return (initialize pl ptr HEADER_LENGTH w) (\<lambda>w.
       let size = 100; min_address = ci_max_address (pl_sys pl) div 2; max_address = ci_max_address (pl_sys pl);
           item_count = lh_num_items (w_headers w ptr)
       in on_return (try_allocate_item pl yield ptr size min_address max_address w) (\<lambda>(result, w).
            on_return (wadd (pl_build pl) item_count 1) (\<lambda>n. n = lh_num_items (w_headers w ptr)) \<and>
            (case result of
               Inr item \<Rightarrow> (let address = li_base_address (item_at w item) in address \<ge> min_address \<and> address \<le> max_address)
             | Inl _ \<Rightarrow> False)))"

definition try_allocate_item_should_not_allocate_item_when_header_is_full ::
  "'o platform \<Rightarrow> ('o world \<Rightarrow> 'o world) \<Rightarrow> usize \<Rightarrow> 'o world \<Rightarrow> bool" where
  "try_allocate_item_should_not_allocate_item_when_header_is_full pl yield ptr w =
     on_return (initialize pl ptr HEADER_LENGTH w) (\<lambda>w.
       let w = put_header ptr ((w_headers w ptr)\<lparr>lh_num_items := ucast MAX_ITEM_COUNT\<rparr>) w;
           size = 100; min_address = ci_max_address (pl_sys pl) div 2; max_address = ci_max_address (pl_sys pl);
           item_count = lh_num_items (w_headers w ptr)
       in on_return (try_allocate_item pl yield ptr size min_address max_address w) (\<lambda>(result, w).
            item_count = lh_num_items (w_headers w ptr) \<and> (case result of Inl _ \<Rightarrow> True | Inr _ \<Rightarrow> False)))"

definition try_allocate_item_should_not_allocate_item_when_outside_address_limits ::
  "'o platform \<Rightarrow> ('o world \<Rightarrow> 'o world) \<Rightarrow> usize \<Rightarrow> 'o world \<Rightarrow> bool" where
  "try_allocate_item_should_not_allocate_item_when_outside_address_limits pl yield ptr w =
     on_return (initialize pl ptr HEADER_LENGTH w) (\<lambda>w.
       let size = 100; min_address = 0; max_address = 10
       in on_return (try_allocate_item pl yield ptr size min_address max_address w) (\<lambda>(result, w).
            case result of Inl _ \<Rightarrow> True | Inr _ \<Rightarrow> False))"

definition get_next_locator_should_allocate_when_newly_created ::
  "'o platform \<Rightarrow> ('o world \<Rightarrow> 'o world) \<Rightarrow> usize \<Rightarrow> 'o world \<Rightarrow> bool" where
  "get_next_locator_should_allocate_when_newly_created pl yield ptr w =
     on_return (initialize pl ptr HEADER_LENGTH w) (\<lambda>w.
       let w = put_header ptr ((w_headers w ptr)\<lparr>lh_num_items := ucast MAX_ITEM_COUNT\<rparr>) w
       in on_return (get_next_locator pl yield ptr w) (\<lambda>(result, w).
            case result of Inl _ \<Rightarrow> False
            | Inr nxt \<Rightarrow> on_return (get_next_locator pl yield ptr w) (\<lambda>(result, w).
                case result of Inl _ \<Rightarrow> False
                | Inr next_cached \<Rightarrow> nxt = next_cached \<and> nxt \<noteq> 0)))"

lemma made_page:
  assumes slots: "\<And>a. length (lh_items (w_headers w a)) = 203"
  obtains w1 where "initialize pl ptr HEADER_LENGTH w = Some w1" "w_os w1 = w_os w" "wf_header (w_headers w1 ptr)"
    "lh_is_locked (w_headers w1 ptr) = 0" "lh_num_items (w_headers w1 ptr) = 0" "\<not> has_next_locator (w_headers w1 ptr)"
    "\<And>a. length (lh_items (w_headers w1 a)) = 203"
  by (rule that [OF initialize_page [OF slots]])
    (use slots wf_default [OF slots] in \<open>simp_all add: set_default_values_def has_next_locator_def\<close>)

lemma full_test:
  assumes "\<And>a. length (lh_items (w_headers w a)) = 203"
  shows "try_allocate_item_should_not_allocate_item_when_header_is_full pl yield ptr w"
proof -
  obtain w1 where w1: "initialize pl ptr HEADER_LENGTH w = Some w1" by (rule made_page [OF assms])
  let ?w = "put_header ptr ((w_headers w1 ptr)\<lparr>lh_num_items := ucast MAX_ITEM_COUNT\<rparr>) w1"
  have "is_full (w_headers ?w ptr)" by (simp add: is_full_iff)
  then show ?thesis
    using w1 try_allocate_full [of ?w ptr]
    by (simp add: try_allocate_item_should_not_allocate_item_when_header_is_full_def Let_def)
qed

lemma allocate_test:
  assumes slots: "\<And>a. length (lh_items (w_headers w a)) = 203"
    and al: "allocate pl (request_settings (pl_sys pl) 100 (ci_max_address (pl_sys pl) div 2) (ci_max_address (pl_sys pl))) (w_os w)
      = Some (Inr it, s', st)"
    and honest: "honest_os pl" and req: "sane_request (pl_sys pl) 100 (ci_max_address (pl_sys pl))"
  shows "try_allocate_item_should_allocate_item_when_header_is_not_full_and_within_address_limits pl yield ptr w"
proof -
  obtain w1 where w1: "initialize pl ptr HEADER_LENGTH w = Some w1" "w_os w1 = w_os w" "wf_header (w_headers w1 ptr)"
    "lh_is_locked (w_headers w1 ptr) = 0" "lh_num_items (w_headers w1 ptr) = 0"
    "\<And>a. length (lh_items (w_headers w1 a)) = 203" by (rule made_page [OF slots]) blast
  let ?w = "put_header ptr ((w_headers w1 ptr)\<lparr>lh_is_locked := 1\<rparr>) w1"
  have nf: "\<not> is_full (w_headers w1 ptr)" "\<not> is_full (w_headers ?w ptr)" using w1(5) by (simp_all add: is_full_iff)
  have it: "serves_request 100 (ci_max_address (pl_sys pl) div 2) (ci_max_address (pl_sys pl)) it" "li_is_taken it = 0"
    "li_position it = 0"
    using allocate_fresh(1-3) [OF al honest] req by simp_all
  have base: "ci_max_address (pl_sys pl) div 2 \<le> li_base_address it" "li_base_address it \<le> ci_max_address (pl_sys pl)"
    using it(1,3) by (auto simp: serves_request_def next_address_def word_le_nat_alt)
  have "try_allocate_item pl yield ptr 100 (ci_max_address (pl_sys pl) div 2) (ci_max_address (pl_sys pl)) w1
      = Some (Inr (Item_Ptr ptr 0), put_header ptr (registered it (w_headers ?w ptr)) (put_os st ?w))"
    using try_allocate_item_registers [OF nf(1) lock_at_free [OF w1(4)] nf(2) _ _ it(2)] al w1(2,3,5) by simp
  then show ?thesis
    using w1(1,5,6) base
    by (simp add: try_allocate_item_should_allocate_item_when_header_is_not_full_and_within_address_limits_def
        Let_def arith_ok registered_def item_at_def)
qed

lemma outside_test:
  assumes slots: "\<And>a. length (lh_items (w_headers w a)) = 203"
    and al: "allocate pl (request_settings (pl_sys pl) 100 0 10) (w_os w) = Some (r, s', st)"
    and honest: "honest_os pl" and req: "sane_request (pl_sys pl) 100 10"
  shows "try_allocate_item_should_not_allocate_item_when_outside_address_limits pl yield ptr w"
proof -
  obtain w1 where w1: "initialize pl ptr HEADER_LENGTH w = Some w1" "w_os w1 = w_os w"
    "lh_is_locked (w_headers w1 ptr) = 0" "lh_num_items (w_headers w1 ptr) = 0" by (rule made_page [OF slots])
  obtain e where e: "r = Inl e"
  proof (cases r)
    case (Inr it)
    have "serves_request 100 0 10 it" using allocate_fresh(1) [OF al [unfolded Inr] honest] req by simp
    then show ?thesis by (auto simp: serves_request_def free_bytes_def)
  qed
  have "\<not> is_full (w_headers w1 ptr)" using w1(4) by (simp add: is_full_iff)
  with w1 al e lock_at_free [OF w1(3), of yield] show ?thesis
    by (simp add: try_allocate_item_should_not_allocate_item_when_outside_address_limits_def try_allocate_item_def
        Let_def unlock_at_held)
qed

lemma next_test:
  assumes slots: "\<And>a. length (lh_items (w_headers w a)) = 203"
    and mac: "\<not> cfg_macos_aarch64 (pl_target pl)" and page: "sane_page (pl_sys pl)"
    and "layout_ok (granularity (pl_sys pl)) (ucast (ci_page_size (pl_sys pl)))"
    and "pl_heap_alloc pl (granularity (pl_sys pl)) (ucast (ci_page_size (pl_sys pl))) (w_os w) = (a, st)" "a \<noteq> 0" "a \<noteq> ptr"
  shows "get_next_locator_should_allocate_when_newly_created pl yield ptr w"
proof -
  let ?g = "granularity (pl_sys pl)"
  obtain w1 where w1: "initialize pl ptr HEADER_LENGTH w = Some w1" "w_os w1 = w_os w" "lh_is_locked (w_headers w1 ptr) = 0"
    "\<not> has_next_locator (w_headers w1 ptr)" "\<And>a. length (lh_items (w_headers w1 a)) = 203" by (rule made_page [where pl = pl and ptr = ptr, OF slots]) blast
  let ?w = "put_header ptr ((w_headers w1 ptr)\<lparr>lh_num_items := ucast MAX_ITEM_COUNT\<rparr>) w1"
  let ?w1 = "put_header ptr ((w_headers ?w ptr)\<lparr>lh_is_locked := 1\<rparr>) ?w"
  let ?w3 = "put_header ptr ((w_headers ?w1 ptr)\<lparr>lh_next_locator_ptr := a\<rparr>) (put_os st ?w1)"
  have g: "4096 \<le> unat ?g" "unat ?g \<le> 4096 + 203 * 16384"
    using page sane_granularity(3) by (auto simp: sane_page_def)
  have "initialize pl a ?g ?w3 = Some (put_header a (fresh_header a (unat ?g) (lh_items (w_headers ?w3 a))) ?w3)"
    using w1(5) by (intro initialize_buffers [OF mac g]) simp
  moreover have "lock_at yield ptr ?w = Some ?w1" using w1(3) by (intro lock_at_free) simp
  moreover have "\<not> has_next_locator (w_headers ?w ptr)" using w1(4) by (simp add: has_next_locator_def)
  ultimately show ?thesis
    using w1(1,2) assms(4-7)
    by (simp add: get_next_locator_should_allocate_when_newly_created_def get_next_locator_def Let_def unlock_at_held
        has_next_locator_def)
qed

end
