(* ===== verification/Library_Tests.thy ===== *)
theory Library_Tests
  imports Header_Tests Finder_Facts C_Api
begin

text \<open>
  The unit tests that need a system: those of \<open>buffer_allocator.rs\<close>, \<open>private_allocation.rs\<close> and
  \<open>locator_header_finder.rs\<close>, and the process they run in.  A test takes the state of the process it starts
  in; tests run one after the other.
\<close>

section \<open>\<open>buffer_allocator.rs\<close> and \<open>private_allocation.rs\<close>\<close>

text \<open>\<open>free\<close>: on Windows with an assertion.\<close>

definition free_test_item :: "'o platform \<Rightarrow> locator_item \<Rightarrow> 'o \<Rightarrow> bool" where
  "free_test_item pl item st =
     (if cfg_windows (pl_target pl)
      then fst (virtual_free (LocalKernel32 (pl_windows pl)) (li_base_address item) 0 st)
      else (let _ = munmap (pl_linux pl) (li_base_address item) (ucast (li_size item)) st in True))"

definition can_allocate_in_2gib :: "'o platform \<Rightarrow> 'o \<Rightarrow> bool" where
  "can_allocate_in_2gib pl st =
     (let settings = \<lparr>bas_min_address = 0, bas_max_address = 0x7FFFFFFF, bas_size = 4096,
            bas_target_process_id = ci_this_process_id (pl_sys pl), bas_retry_count = 8, bas_brute_force = False\<rparr>
      in on_return (allocate pl settings st) (\<lambda>(result, settings, st).
           case result of Inl _ \<Rightarrow> False
           | Inr item \<Rightarrow> (let base_addr = li_base_address item
               in base_addr \<noteq> 0 \<and> li_size item \<ge> bas_size settings \<and> free_test_item pl item st)))"

definition can_allocate_up_to_max_address :: "'o platform \<Rightarrow> 'o \<Rightarrow> bool" where
  "can_allocate_up_to_max_address pl st =
     (let settings = \<lparr>bas_min_address = ci_max_address (pl_sys pl) div 2, bas_max_address = ci_max_address (pl_sys pl),
            bas_size = 4096, bas_target_process_id = ci_this_process_id (pl_sys pl), bas_retry_count = 8,
            bas_brute_force = False\<rparr>
      in on_return (allocate pl settings st) (\<lambda>(result, settings, st).
           case result of Inl _ \<Rightarrow> False
           | Inr item \<Rightarrow> (let base_addr = li_base_address item
               in base_addr \<noteq> 0 \<and> li_size item \<ge> bas_size settings \<and> free_test_item pl item st)))"

definition test_private_allocation :: "'o platform \<Rightarrow> 'o \<Rightarrow> bool" where
  "test_private_allocation pl st =
     (let settings = (allocator_settings_new (pl_sys pl))
            \<lparr>bas_min_address := ci_max_address (pl_sys pl) div 2, bas_max_address := ci_max_address (pl_sys pl)\<rparr>
      in on_return (allocate pl settings st) (\<lambda>(result, settings, st).
           case result of Inl _ \<Rightarrow> False
           | Inr alloc \<Rightarrow>
               if li_base_address alloc = 0 then False
               else (let result = private_allocation_new (li_base_address alloc) (ucast (li_size alloc))
                       (ci_this_process_id (pl_sys pl))
                     in base_address result \<noteq> 0 \<and> allocation_size result \<ge> 4096)))"

text \<open>The system has memory for requests of a size in a range, whatever its state.\<close>

definition has_memory :: "'o platform \<Rightarrow> u32 \<Rightarrow> usize \<Rightarrow> usize \<Rightarrow> bool" where
  "has_memory pl sz mn mx \<longleftrightarrow> (\<forall>st brute. \<exists>it s' st'.
     allocate pl ((request_settings (pl_sys pl) sz mn mx)\<lparr>bas_brute_force := brute\<rparr>) st = Some (Inr it, s', st'))"

lemma has_memoryD:
  assumes "has_memory pl sz mn mx"
  shows "\<exists>it s' st'. allocate pl (request_settings (pl_sys pl) sz mn mx) st = Some (Inr it, s', st')"
proof -
  have "(request_settings (pl_sys pl) sz mn mx)\<lparr>bas_brute_force := True\<rparr> = request_settings (pl_sys pl) sz mn mx"
    by (simp add: allocator_settings_new_def)
  then show ?thesis using assms unfolding has_memory_def by metis
qed

text \<open>They pass on every honest system that has the memory.\<close>

lemma allocation_result:
  assumes ok: "allocate pl s st = Some (Inr it, s', st')" and honest: "honest_os pl"
    and g: "granularity (pl_sys pl) \<noteq> 0" and top: "below_top (bas_max_address s)"
  shows "li_base_address it \<noteq> 0" "li_size it = bas_size s'"
proof -
  from ok have s': "sanitize (pl_build pl) (pl_target pl) (pl_sys pl) s = Some s'" and os: "allocate_os pl s' st = Some (Inr it, st')"
    by (auto simp: allocate_def result_cases)
  have "bas_max_address s' = bas_max_address s"
    using s' by (auto simp: sanitize_def Let_def Option.bind_eq_Some_conv)
  with os_allocator.alloc_placed [OF honest os g] top show "li_base_address it \<noteq> 0" "li_size it = bas_size s'"
    by (simp_all add: placed_def)
qed

lemma allocator_tests:
  assumes honest: "honest_os pl" and sys: "sane_sys (pl_sys pl)"
    and freed: "\<And>it st. free_test_item pl it st"
  shows "has_memory pl 4096 0 0x7FFFFFFF \<Longrightarrow> can_allocate_in_2gib pl st"
    and "has_memory pl 4096 (ci_max_address (pl_sys pl) div 2) (ci_max_address (pl_sys pl)) \<Longrightarrow>
      can_allocate_up_to_max_address pl st"
proof -
  have settings: "\<lparr>bas_min_address = mn, bas_max_address = mx, bas_size = 4096,
      bas_target_process_id = ci_this_process_id (pl_sys pl), bas_retry_count = 8, bas_brute_force = False\<rparr>
      = (request_settings (pl_sys pl) 4096 mn mx)\<lparr>bas_brute_force := False\<rparr>" for mn mx
    by (simp add: allocator_settings_new_def)
  have pass: "on_return (allocate pl ((request_settings (pl_sys pl) 4096 mn mx)\<lparr>bas_brute_force := False\<rparr>) st)
      (\<lambda>(result, settings, st). case result of Inl _ \<Rightarrow> False
        | Inr item \<Rightarrow> (let base_addr = li_base_address item
            in base_addr \<noteq> 0 \<and> li_size item \<ge> bas_size settings \<and> free_test_item pl item st))"
    if mem: "has_memory pl 4096 mn mx" and top: "below_top mx" for mn mx
  proof -
    obtain it s' st' where al: "allocate pl ((request_settings (pl_sys pl) 4096 mn mx)\<lparr>bas_brute_force := False\<rparr>) st
        = Some (Inr it, s', st')" using mem unfolding has_memory_def by blast
    from allocation_result [OF al honest sane_granularity(1) [OF sys]] top al freed show ?thesis by simp
  qed
  have "below_top (0x7FFFFFFF :: usize)" "below_top (ci_max_address (pl_sys pl))"
    using sys by (simp_all add: below_top_def sane_sys_def)
  with pass show "has_memory pl 4096 0 0x7FFFFFFF \<Longrightarrow> can_allocate_in_2gib pl st"
    "has_memory pl 4096 (ci_max_address (pl_sys pl) div 2) (ci_max_address (pl_sys pl)) \<Longrightarrow> can_allocate_up_to_max_address pl st"
    unfolding can_allocate_in_2gib_def can_allocate_up_to_max_address_def settings Let_def by blast+
qed

lemma private_allocation_test:
  assumes "honest_os pl" and req: "sane_request (pl_sys pl) 4096 (ci_max_address (pl_sys pl))"
    and mem: "has_memory pl 4096 (ci_max_address (pl_sys pl) div 2) (ci_max_address (pl_sys pl))"
  shows "test_private_allocation pl st"
proof -
  let ?sys = "pl_sys pl"
  obtain it s' st' where al: "allocate pl (request_settings ?sys 4096 (ci_max_address ?sys div 2) (ci_max_address ?sys)) st
      = Some (Inr it, s', st')" using has_memoryD [OF mem] by blast
  have "serves_request 4096 (ci_max_address ?sys div 2) (ci_max_address ?sys) it"
    using allocate_fresh(1) [OF al assms(1)] req by simp
  then have "li_base_address it \<noteq> 0" "4096 \<le> unat (li_size it)" by (auto simp: serves_request_def free_bytes_def)
  moreover have "request_settings ?sys 4096 (ci_max_address ?sys div 2) (ci_max_address ?sys) = (allocator_settings_new ?sys)
      \<lparr>bas_min_address := ci_max_address ?sys div 2, bas_max_address := ci_max_address ?sys\<rparr>"
    by (simp add: allocator_settings_new_def)
  ultimately show ?thesis
    using al by (simp add: test_private_allocation_def private_allocation_new_def base_address_def allocation_size_def
        word_le_nat_alt)
qed

section \<open>A fresh process\<close>

text \<open>
  A lawful Unix system, and a process in which the library has not been used: the state in which
  \<open>cargo test\<close> starts a test on its own.
\<close>

definition test_process :: "'o platform \<Rightarrow> 'o system_view \<Rightarrow> 'o library \<Rightarrow> bool" where
  "test_process pl v lib \<longleftrightarrow> unix_build pl \<and> shared_files pl v \<and> \<not> cfg_macos_aarch64 (pl_target pl) \<and> honest_os pl \<and>
     sane_page (pl_sys pl) \<and> lib_header_address lib = 0 \<and> fresh_process pl v lib"

text \<open>With pages of 4 KiB, the first request registers an item in the first slot of a new header.\<close>

lemma first_buffer:
  assumes test: "test_process pl v lib" and mem: "has_memory pl (bss_size s) (bss_min_address s) (bss_max_address s)"
    and req: "sane_request (pl_sys pl) (bss_size s) (bss_max_address s)" and gran: "granularity (pl_sys pl) = HEADER_LENGTH"
  shows "\<exists>h lib' it. get_buffer pl (\<lambda>l. l) (\<lambda>w. w) s lib = Some (Inr (Item_Ptr h 0), lib') \<and>
    item_at (lib_world lib') (Item_Ptr h 0) = it \<and>
    serves_request (bss_size s) (bss_min_address s) (bss_max_address s) it \<and> li_position it = 0 \<and>
    li_is_taken it = 1 \<and> 4096 dvd unat (li_base_address it) \<and>
    granted (bss_size s) (bss_min_address s) (bss_max_address s) (Item_Ptr h 0) (lib_world lib')"
proof -
  let ?mn = "bss_min_address s" and ?mx = "bss_max_address s" and ?sz = "bss_size s"
  have build: "unix_build pl" "shared_files pl v" "\<not> cfg_macos_aarch64 (pl_target pl)" "honest_os pl"
    "sane_page (pl_sys pl)" "lib_header_address lib = 0" "fresh_process pl v lib"
    using test by (simp_all add: test_process_def)
  obtain h lib1 where first: "find_header pl (\<lambda>l. l) lib = Some (h, lib1)" "chain_ok (v_used v) {h} (lib_world lib1)"
    "lh_is_locked (w_headers (lib_world lib1) h) = 0" "\<not> is_full (w_headers (lib_world lib1) h)"
    "unat (lh_num_items (w_headers (lib_world lib1) h)) = chunks (unat (granularity (pl_sys pl)) - 4096)"
    by (rule find_creates [where wait = "\<lambda>l. l", OF build(1,2,5,6,7)]) (use build(3) in blast)
  let ?w = "lib_world lib1"
  let ?w1 = "put_header h ((w_headers ?w h)\<lparr>lh_is_locked := 1\<rparr>) ?w"
  have none: "lh_num_items (w_headers ?w h) = 0"
    using first(5) gran by (simp add: HEADER_LENGTH_def chunks_simps(1) unat_eq_0)
  have wf: "wf_header (w_headers ?w h)" using chain_ok_wf [OF first(2)] by simp
  obtain it0 s' st where al: "allocate pl (request_settings (pl_sys pl) ?sz ?mn ?mx) (w_os ?w) = Some (Inr it0, s', st)"
    using has_memoryD [OF mem] by blast
  have it0: "serves_request ?sz ?mn ?mx it0" "li_position it0 = 0" "li_is_taken it0 = 0" "4096 dvd unat (li_base_address it0)"
    using allocate_fresh(1-4) [OF al build(4)] req gran by (simp_all add: HEADER_LENGTH_def)
  have "get_first_available_item_locked pl h ?sz ?mn ?mx ?w = Some (None, ?w)"
    using none by (simp add: get_first_available_item_locked_def Let_def)
  moreover have "try_allocate_item pl (\<lambda>w. w) h ?sz ?mn ?mx ?w
      = Some (Inr (Item_Ptr h 0), put_header h (registered it0 (w_headers ?w1 h)) (put_os st ?w1))"
    using try_allocate_item_registers [OF first(4) lock_at_free [OF first(3)] _ _ _ it0(3),
      where yield = "\<lambda>w. w" and pl = pl and sz = ?sz and mn = ?mn and mx = ?mx and s' = s' and st = st]
      first(4) wf al none by simp
  ultimately have "get_buffer pl (\<lambda>l. l) (\<lambda>w. w) s lib
      = Some (Inr (Item_Ptr h 0), lib1\<lparr>lib_world := put_header h (registered it0 (w_headers ?w1 h)) (put_os st ?w1)\<rparr>)"
    using first(1) by (simp add: get_buffer_def) (subst get_buffer_recursive.simps, simp)
  moreover have "lh_items (registered it0 (w_headers ?w1 h)) ! 0 = it0\<lparr>li_is_taken := 1\<rparr>"
    using none wf by (simp add: registered_def wf_header_def)
  moreover have "wf_header (registered it0 (w_headers ?w1 h))" "lh_num_items (registered it0 (w_headers ?w1 h)) = 1"
    using wf_registered [OF wf first(4), of it0] none it0(1)
    by (simp_all add: registered_def wf_header_def serves_request_def)
  ultimately show ?thesis using it0 by (simp add: item_at_def granted_def)
qed

section \<open>\<open>locator_header_finder.rs\<close>\<close>

text \<open>
  The builds with tests remember why \<open>find\<close> returned what it returned.  The variable is set to \<open>Cached\<close>
  on entry and to another reason where the header is found or made.
\<close>

datatype find_reason = Cached | PreviouslyExisted | Created

definition LAST_FIND_REASON :: "'o platform \<Rightarrow> 'o library \<Rightarrow> find_reason option" where
  "LAST_FIND_REASON pl lib =
     (if lib_header_address lib \<noteq> 0 then Some Cached
      else if tgt_os (pl_target pl) = Android \<or> pl_all_private pl then Some Created
      else do {
        (mmf, _) \<leftarrow> open_or_create_memory_mapped_file pl (w_os (lib_world lib));
        Some (if already_existed mmf then PreviouslyExisted else Created)
      })"

text \<open>\<open>reset\<close> forgets the header, and drops the mapping.\<close>

definition reset_library :: "'o platform \<Rightarrow> 'o library \<Rightarrow> 'o library" where
  "reset_library pl lib =
     (let st = (case lib_mmf lib of
          None \<Rightarrow> w_os (lib_world lib)
        | Some old \<Rightarrow> mmf_drop (pl_unix pl) (pl_file_mapping pl) old (w_os (lib_world lib)))
      in lib\<lparr>lib_header_address := 0, lib_mmf := None, lib_world := put_os st (lib_world lib)\<rparr>)"

definition find_should_return_address_when_previously_exists :: "'o platform \<Rightarrow> 'o library \<Rightarrow> bool" where
  "find_should_return_address_when_previously_exists pl lib =
     (let lib = reset_library pl lib
      in on_return (open_or_create_memory_mapped_file pl (w_os (lib_world lib))) (\<lambda>(_, st).
           let lib = lib\<lparr>lib_world := put_os st (lib_world lib)\<rparr>
           in on_return (find_header pl (\<lambda>l. l) lib) (\<lambda>_. LAST_FIND_REASON pl lib = Some PreviouslyExisted)))"

definition find_should_return_address_when_created :: "'o platform \<Rightarrow> 'o library \<Rightarrow> bool" where
  "find_should_return_address_when_created pl lib =
     (let lib = reset_library pl lib
      in on_return (find_header pl (\<lambda>l. l) lib) (\<lambda>(address, _).
           address \<noteq> 0 \<and> LAST_FIND_REASON pl lib = Some Created))"

definition find_should_return_cached_address_when_called_twice :: "'o platform \<Rightarrow> 'o library \<Rightarrow> bool" where
  "find_should_return_cached_address_when_called_twice pl lib =
     (let lib = reset_library pl lib
      in on_return (find_header pl (\<lambda>l. l) lib) (\<lambda>(first_address, lib1).
           let first_reason = LAST_FIND_REASON pl lib
           in on_return (find_header pl (\<lambda>l. l) lib1) (\<lambda>(second_address, _).
                let second_reason = LAST_FIND_REASON pl lib1
                in first_address \<noteq> 0 \<and> first_reason = Some Created \<and> second_address \<noteq> 0 \<and>
                   second_reason = Some Cached \<and> first_address = second_address)))"

text \<open>
  The expected count is computed in \<open>f64\<close>, exactly here: the nearest integer to a multiple of
  \<open>2 ^ -14\<close>, halves up, cut off at 255 by the cast to \<open>u8\<close>.
\<close>

definition expected_num_items :: "cached \<Rightarrow> u8" where
  "expected_num_items sys = (let n = sint (ci_allocation_granularity sys) - sint (ucast size_of_LocatorHeader :: i32)
     in of_int (max 0 (min 255 ((2 * n + int (unat LENGTH_OF_PREALLOCATED_CHUNKS)) div (2 * int (unat LENGTH_OF_PREALLOCATED_CHUNKS))))))"

definition find_should_initialize_correctly_when_created :: "'o platform \<Rightarrow> 'o library \<Rightarrow> bool" where
  "find_should_initialize_correctly_when_created pl lib =
     (let lib = reset_library pl lib
      in on_return (find_header pl (\<lambda>l. l) lib) (\<lambda>(address, lib).
           address \<noteq> 0 \<and>
           (let header = w_headers (lib_world lib) address
            in lh_num_items header = expected_num_items (pl_sys pl) \<and>
               list_all (\<lambda>i. let item = item_at (lib_world lib) (Item_Ptr address i)
                 in li_position item = 0 \<and> 0 \<noteq> li_base_address item \<and> li_size item > 0)
                 [0 ..< unat (lh_num_items header)])))"

lemma reset_fresh:
  assumes "test_process pl v lib"
  shows "reset_library pl lib = lib"
  using assms by (cases lib) (simp add: reset_library_def test_process_def fresh_process_def)

lemma expected_items:
  assumes sys: "sane_page sys"
  shows "unat (expected_num_items sys) = (unat (granularity sys) + 8168) div 16384"
proof -
  let ?g = "unat (granularity sys)"
  have g: "sint (ci_allocation_granularity sys) = int ?g" "?g \<le> 4096 + 202 * 16384" "4096 \<le> ?g"
    using sys sint_nonneg_i32 [of "ci_allocation_granularity sys"] unat_granularity [of sys] sane_page_length [OF sys]
    by (simp_all add: sane_page_def sane_sys_def)
  define n where "n = ?g"
  have "(2 * (int n - 24) + 16384) div (2 * 16384) = (int n + 8168) div 16384"
    by (simp add: zdiv_zmult2_eq)
  then have "unat (expected_num_items sys) = unat (of_int (max 0 (min 255 ((int n + 8168) div 16384))) :: u8)"
    using g(1) [folded n_def] by (simp add: expected_num_items_def Let_def LENGTH_OF_PREALLOCATED_CHUNKS_def)
  also have "max 0 (min 255 ((int n + 8168) div 16384)) = int ((n + 8168) div 16384)"
    using g(2) [folded n_def] by (simp add: zdiv_int)
  finally show ?thesis using g(2) by (simp add: unat_of_nat n_def)
qed

lemma reason_created:
  assumes test: "test_process pl v lib"
  shows "LAST_FIND_REASON pl lib = Some Created"
proof -
  have t: "unix_build pl" "shared_files pl v" "lib_header_address lib = 0" "own_path pl \<notin> v_files v (w_os (lib_world lib))"
    "v_room v (granularity (pl_sys pl)) (w_os (lib_world lib))" using test by (simp_all add: test_process_def fresh_process_def)
  from t(2,5) obtain m st where m: "unix_mmf_new (pl_target pl) (pl_unix pl) (''/'' @ own_name pl) (granularity (pl_sys pl))
      (w_os (lib_world lib)) = Some (m, st)" "\<not> um_already_existed m"
    by (rule unix_mmf_new_own) (use t(4) in blast)
  with open_own [OF t(1,2) m(1)] t show ?thesis by (simp add: LAST_FIND_REASON_def unix_build_def)
qed

lemma finder_tests:
  assumes test: "test_process pl v lib"
  shows "find_should_return_address_when_created pl lib" "find_should_return_cached_address_when_called_twice pl lib"
proof -
  have t: "unix_build pl" "shared_files pl v" "sane_page (pl_sys pl)" "lib_header_address lib = 0" "fresh_process pl v lib"
    using test by (simp_all add: test_process_def)
  obtain h lib1 where first: "find_header pl (\<lambda>l. l) lib = Some (h, lib1)" "lib_header_address lib1 = h" "h \<noteq> 0"
    by (rule find_creates [where wait = "\<lambda>l. l", OF t]) blast
  have "find_header pl (\<lambda>l. l) lib1 = Some (h, lib1)" using first(2,3) by (simp add: find_header_def)
  with first reason_created [OF test] show "find_should_return_address_when_created pl lib"
    "find_should_return_cached_address_when_called_twice pl lib"
    by (simp_all add: find_should_return_address_when_created_def Let_def reset_fresh [OF test]
        find_should_return_cached_address_when_called_twice_def LAST_FIND_REASON_def [of pl lib1])
qed

text \<open>The file can be mapped a second time.\<close>

definition room_for_two :: "'o platform \<Rightarrow> 'o system_view \<Rightarrow> 'o library \<Rightarrow> bool" where
  "room_for_two pl v lib \<longleftrightarrow> (\<forall>m st. open_or_create_memory_mapped_file pl (w_os (lib_world lib)) = Some (m, st) \<longrightarrow>
     v_room v (granularity (pl_sys pl)) st)"

lemma previously_exists_test:
  assumes test: "test_process pl v lib" and two: "room_for_two pl v lib"
  shows "find_should_return_address_when_previously_exists pl lib"
proof -
  let ?g = "granularity (pl_sys pl)"
  have t: "unix_build pl" "shared_files pl v" "lib_header_address lib = 0" "v_room v ?g (w_os (lib_world lib))"
    using test by (simp_all add: test_process_def fresh_process_def)
  from t(2,4) obtain m st where m: "unix_mmf_new (pl_target pl) (pl_unix pl) (''/'' @ own_name pl) ?g (w_os (lib_world lib))
      = Some (m, st)" "own_path pl \<in> v_files v st" by (rule unix_mmf_new_own) blast
  note open1 = open_own [OF t(1,2) m(1)]
  have "v_room v ?g st" using two open1 unfolding room_for_two_def by blast
  with t(2) obtain m2 st2 where m2: "unix_mmf_new (pl_target pl) (pl_unix pl) (''/'' @ own_name pl) ?g st = Some (m2, st2)"
    "um_already_existed m2" by (rule unix_mmf_new_own) (use m(2) in blast)
  with open1 open_own [OF t(1,2) m2(1)] t(1,3) show ?thesis
    by (simp add: find_should_return_address_when_previously_exists_def reset_fresh [OF test] LAST_FIND_REASON_def
        find_header_def unix_build_def init_locatorheader_standard_def Let_def)
qed

text \<open>
  The test of the initialization passes exactly when its formula counts the registered items, which it
  does not for pages of 8 KiB and a multiple of 16 KiB more.
\<close>

lemma counts_agree:
  assumes "4096 \<le> n" "4096 dvd n"
  shows "(n + 8168) div 16384 = chunks (n - 4096) \<longleftrightarrow> n mod 16384 \<noteq> 8192"
proof -
  obtain k where k: "n = 4096 * k" using assms(2) by blast
  then have "1 \<le> k" using assms(1) by simp
  have "chunks (n - 4096) = (k + 2) div 4"
  proof -
    have "n - 4096 + 16383 = 4095 + 4096 * (k + 2)" using k \<open>1 \<le> k\<close> by simp
    then have "chunks (n - 4096) = (4095 + 4096 * (k + 2)) div 4096 div 4"
      unfolding chunks_def by (simp add: div_mult2_eq [symmetric])
    then show ?thesis by simp
  qed
  moreover have "(n + 8168) div 16384 = (k + 1) div 4"
  proof -
    have "n + 8168 = 4072 + 4096 * (k + 1)" using k by simp
    then have "(n + 8168) div 16384 = (4072 + 4096 * (k + 1)) div 4096 div 4"
      by (simp add: div_mult2_eq [symmetric])
    then show ?thesis by simp
  qed
  moreover have "n mod 16384 = 4096 * (k mod 4)" using k mult_mod_right [of 4096 k 4] by simp
  moreover have "(k + 1) div 4 = (k + 2) div 4 \<longleftrightarrow> k mod 4 \<noteq> 2" by presburger
  ultimately show ?thesis by simp
qed

lemma initialization_test:
  assumes test: "test_process pl v lib"
  shows "find_should_initialize_correctly_when_created pl lib \<longleftrightarrow> unat (granularity (pl_sys pl)) mod 16384 \<noteq> 8192"
proof -
  let ?g = "unat (granularity (pl_sys pl))"
  have t: "unix_build pl" "shared_files pl v" "sane_page (pl_sys pl)" "lib_header_address lib = 0" "fresh_process pl v lib"
    "\<not> cfg_macos_aarch64 (pl_target pl)" using test by (simp_all add: test_process_def)
  note g = sane_page_length [OF t(3)]
  obtain h lib1 items where first: "find_header pl (\<lambda>l. l) lib = Some (h, lib1)" "h \<noteq> 0"
    "block_in (v_used v (w_os (lib_world lib1))) h ?g"
    "unat (lh_num_items (w_headers (lib_world lib1) h)) = chunks (?g - 4096)"
    "w_headers (lib_world lib1) h = fresh_header h ?g items"
    by (rule find_creates [where wait = "\<lambda>l. l", OF t(1-5)]) (use t(6) in blast)
  have dvd: "4096 dvd ?g" using t(3) sane_granularity(4) by (simp add: sane_page_def)
  have slot: "li_position (item_at (lib_world lib1) (Item_Ptr h i)) = 0 \<and> 0 \<noteq> li_base_address (item_at (lib_world lib1) (Item_Ptr h i)) \<and>
      0 < li_size (item_at (lib_world lib1) (Item_Ptr h i))" if "i < chunks (?g - 4096)" for i
  proof -
    have "unat (h + HEADER_LENGTH) = unat h + 4096"
      using first(3) g(1) by (subst unat_add_small) (simp_all add: HEADER_LENGTH_def block_in_def)
    then have "h + HEADER_LENGTH \<noteq> 0" by (metis add_eq_0_iff_both_eq_0 unat_0 zero_neq_numeral)
    moreover have "16384 * i < ?g - 4096" using that unfolding chunks_def by (simp add: less_eq_div_iff_mult_less_eq Suc_le_eq)
    then have "0 < chunk_length (?g - 4096) i" "chunk_length (?g - 4096) i < 4294967296" by (simp_all add: chunk_length_def)
    ultimately show ?thesis
      by (simp add: item_at_def first(5) fresh_header_slot [OF that] word_less_nat_alt unat_of_nat_u32)
  qed
  have "find_should_initialize_correctly_when_created pl lib \<longleftrightarrow> (?g + 8168) div 16384 = chunks (?g - 4096)"
    using first(1,2,4) slot expected_items [OF t(3)]
    by (auto simp: find_should_initialize_correctly_when_created_def Let_def reset_fresh [OF test] list_all_iff word_unat_eq_iff)
  with counts_agree [OF g(1) dvd] show ?thesis by simp
qed

end
