(* ===== verification/Client_Tests.thy ===== *)
theory Client_Tests
  imports Library_Tests
begin

text \<open>
  The unit tests of the public interfaces: \<open>buffers.rs\<close> and \<open>buffers_c_buffers.rs\<close>.
\<close>

section \<open>\<open>buffers.rs\<close>\<close>

definition allocate_private_memory_in_2gib :: "'o platform \<Rightarrow> 'o \<Rightarrow> bool" where
  "allocate_private_memory_in_2gib pl st =
     (let settings = (allocator_settings_new (pl_sys pl))\<lparr>bas_min_address := 0, bas_max_address := 0x7FFFFFFF\<rparr>
      in on_return (allocate_private_memory pl settings st) (\<lambda>(result, settings, st).
           case result of Inl _ \<Rightarrow> False
           | Inr item \<Rightarrow> allocation_size item \<ge> ucast (bas_size settings)))"

definition allocate_private_memory_up_to_max_address :: "'o platform \<Rightarrow> 'o \<Rightarrow> bool" where
  "allocate_private_memory_up_to_max_address pl st =
     (let settings = (allocator_settings_new (pl_sys pl))
            \<lparr>bas_min_address := ci_max_address (pl_sys pl) div 2, bas_max_address := ci_max_address (pl_sys pl)\<rparr>
      in on_return (allocate_private_memory pl settings st) (\<lambda>(result, settings, st).
           case result of Inl _ \<Rightarrow> False
           | Inr item \<Rightarrow> allocation_size item \<ge> ucast (bas_size settings)))"

text \<open>The request of most tests.\<close>

abbreviation upper_half :: "cached \<Rightarrow> buffer_search_settings" where
  "upper_half sys \<equiv> \<lparr>bss_min_address = ci_max_address sys div 2, bss_max_address = ci_max_address sys, bss_size = 4096\<rparr>"

text \<open>A test goes on with the item of a search, and fails when there is none.\<close>

definition with_item ::
  "((buffer_search_error + item_ptr) \<times> 'o library) option \<Rightarrow> (item_ptr \<Rightarrow> 'o library \<Rightarrow> bool) \<Rightarrow> bool" where
  "with_item r P = on_return r (\<lambda>(result, lib). case result of Inl _ \<Rightarrow> False | Inr item \<Rightarrow> P item lib)"

definition get_buffer_baseline :: "'o platform \<Rightarrow> 'o library \<Rightarrow> bool" where
  "get_buffer_baseline pl lib =
     with_item (get_buffer pl (\<lambda>l. l) (\<lambda>w. w) (upper_half (pl_sys pl)) lib) (\<lambda>item lib.
       let data = replicate 4096 0
       in on_return (append_bytes (pl_build pl) (pl_target pl) (pl_code pl) data (item_at (lib_world lib) item)
            (w_machine (lib_world lib))) (\<lambda>_. True))"

definition test_append_unaligned :: "'o platform \<Rightarrow> 'o library \<Rightarrow> bool" where
  "test_append_unaligned pl lib =
     with_item (get_buffer pl (\<lambda>l. l) (\<lambda>w. w) (upper_half (pl_sys pl)) lib) (\<lambda>item lib.
       let data = [0xAA, 0xBB, 0xCC, 0xDD]; it = item_at (lib_world lib) item; m = w_machine (lib_world lib);
           buffer_ptr = li_base_address it; m = m\<lparr>mem := (mem m)(buffer_ptr := 0xFF)\<rparr>
       in on_return (append_bytes (pl_build pl) (pl_target pl) (pl_code pl) data it m) (\<lambda>(_, it, m).
            on_return (append_code (pl_build pl) (pl_target pl) (pl_code pl) data it m) (\<lambda>_. True)))"

text \<open>
  The processor is a parameter: \<open>run m a\<close> is what a call of the function at \<open>a\<close> returns.  The two tests
  differ in the target they are compiled for and in the code.
\<close>

definition returns_constant :: "'o platform \<Rightarrow> (memory \<Rightarrow> usize \<Rightarrow> 64 word option) \<Rightarrow> u8 list \<Rightarrow> 'o library \<Rightarrow> bool" where
  "returns_constant pl run code lib =
     with_item (get_buffer pl (\<lambda>l. l) (\<lambda>w. w) (upper_half (pl_sys pl)) lib) (\<lambda>item lib.
       let it = item_at (lib_world lib) item; code_ptr = li_base_address it
       in on_return (append_code (pl_build pl) (pl_target pl) (pl_code pl) code it (w_machine (lib_world lib))) (\<lambda>(_, _, m).
            on_return (run (mem m) code_ptr) (\<lambda>result. result = 0x1234567812345678)))"

definition memory_is_executable_x64 :: "'o platform \<Rightarrow> (memory \<Rightarrow> usize \<Rightarrow> 64 word option) \<Rightarrow> 'o library \<Rightarrow> bool" where
  "memory_is_executable_x64 pl run =
     returns_constant pl run [0x48, 0xB8, 0x78, 0x56, 0x34, 0x12, 0x78, 0x56, 0x34, 0x12, 0xC3]"

definition memory_is_executable_aarch64 :: "'o platform \<Rightarrow> (memory \<Rightarrow> usize \<Rightarrow> 64 word option) \<Rightarrow> 'o library \<Rightarrow> bool" where
  "memory_is_executable_aarch64 pl run =
     returns_constant pl run [0x00, 0xCF, 0x8A, 0xD2, 0x80, 0x46, 0xA2, 0xF2, 0x00, 0xCF, 0xCA, 0xF2, 0x80, 0x46, 0xE2, 0xF2,
       0xC0, 0x03, 0x5F, 0xD6]"

definition get_buffer_aligned_test :: "'o platform \<Rightarrow> u32 \<Rightarrow> 'o library \<Rightarrow> bool" where
  "get_buffer_aligned_test pl alignment lib =
     with_item (get_buffer_aligned pl (\<lambda>l. l) (\<lambda>w. w) (upper_half (pl_sys pl)) alignment lib) (\<lambda>item lib.
       li_base_address (item_at (lib_world lib) item) mod ucast alignment = 0)"

text \<open>
  With memory for the request these tests pass: the item is empty, in a page of its own, and what is
  appended fits.
\<close>

definition test_machine :: "'o platform \<Rightarrow> 'o system_view \<Rightarrow> 'o library \<Rightarrow> u32 \<Rightarrow> bool" where
  "test_machine pl v lib sz \<longleftrightarrow> test_process pl v lib \<and> granularity (pl_sys pl) = HEADER_LENGTH \<and>
     has_memory pl sz (ci_max_address (pl_sys pl) div 2) (ci_max_address (pl_sys pl))"

lemma test_item:
  assumes "test_machine pl v lib sz" and "unat sz < 2 ^ 31"
  shows "\<exists>h lib' it. get_buffer pl (\<lambda>l. l) (\<lambda>w. w) ((upper_half (pl_sys pl))\<lparr>bss_size := sz\<rparr>) lib
      = Some (Inr (Item_Ptr h 0), lib') \<and> item_at (lib_world lib') (Item_Ptr h 0) = it \<and>
    wf_item it \<and> unat sz \<le> free_bytes it \<and> li_position it = 0 \<and> 4096 dvd unat (li_base_address it) \<and>
    granted sz (ci_max_address (pl_sys pl) div 2) (ci_max_address (pl_sys pl)) (Item_Ptr h 0) (lib_world lib')"
proof -
  let ?s = "(upper_half (pl_sys pl))\<lparr>bss_size := sz\<rparr>"
  have m: "test_process pl v lib" "granularity (pl_sys pl) = HEADER_LENGTH"
    "has_memory pl (bss_size ?s) (bss_min_address ?s) (bss_max_address ?s)"
    using assms(1) by (simp_all add: test_machine_def)
  have "sane_request (pl_sys pl) (bss_size ?s) (bss_max_address ?s)"
    using m(1,2) assms(2) by (simp add: sane_request_def test_process_def sane_page_def sane_sys_def HEADER_LENGTH_def)
  from first_buffer [OF m(1,3) this m(2)] show ?thesis by (auto simp: serves_request_def)
qed

lemma baseline_tests:
  assumes "test_machine pl v lib 4096"
  shows "get_buffer_baseline pl lib" and "test_append_unaligned pl lib"
proof -
  obtain h lib' it where it: "get_buffer pl (\<lambda>l. l) (\<lambda>w. w) (upper_half (pl_sys pl)) lib = Some (Inr (Item_Ptr h 0), lib')"
    "item_at (lib_world lib') (Item_Ptr h 0) = it" "wf_item it" "4096 \<le> free_bytes it"
    using test_item [OF assms] by auto
  let ?b = "pl_build pl" and ?t = "pl_target pl" and ?c = "pl_code pl"
  show "get_buffer_baseline pl lib"
    using append_bytes_writes [OF it(3), of "replicate 4096 0" ?b ?t ?c "w_machine (lib_world lib')"] it
    by (auto simp: get_buffer_baseline_def with_item_def)
  let ?d = "[0xAA, 0xBB, 0xCC, 0xDD] :: u8 list" and ?m = "w_machine (lib_world lib')"
  let ?m1 = "?m\<lparr>mem := (mem ?m)(li_base_address it := 0xFF)\<rparr>"
  obtain m2 where bytes: "append_bytes ?b ?t ?c ?d it ?m1 = Some (next_address it, advance 4 it, m2)"
    using append_bytes_writes [OF it(3), of ?d ?b ?t ?c ?m1] it(4) by (auto simp: eval_nat_numeral)
  have "wf_item (advance 4 it)" "4 \<le> free_bytes (advance 4 it)"
    using advance_facts(3,4) [OF it(3), of 4] it(4) by simp_all
  then obtain r where code: "append_code ?b ?t ?c ?d (advance 4 it) m2 = Some r"
    using append_code_writes [of "advance 4 it" ?d ?b ?t ?c m2] by auto
  show "test_append_unaligned pl lib"
    using it(1,2) bytes code by (simp add: test_append_unaligned_def with_item_def Let_def)
qed

text \<open>The code is appended at the base of the item, where the test calls it.\<close>

lemma executable_test:
  assumes test: "test_machine pl v lib 4096" and fits: "length code \<le> 4096"
    and run: "\<And>m a. read_bytes a (length code) m = code \<Longrightarrow> run m a = Some 0x1234567812345678"
  shows "returns_constant pl run code lib"
proof -
  obtain h lib' it where it: "get_buffer pl (\<lambda>l. l) (\<lambda>w. w) (upper_half (pl_sys pl)) lib = Some (Inr (Item_Ptr h 0), lib')"
    "item_at (lib_world lib') (Item_Ptr h 0) = it" "wf_item it" "4096 \<le> free_bytes it" "li_position it = 0"
    using test_item [OF test] by auto
  have base: "next_address it = li_base_address it" using it(5) by (simp add: next_address_def)
  have room: "length code \<le> free_bytes it" using it(4) fits by simp
  have "read_bytes (li_base_address it) (length code) (write_bytes (li_base_address it) code m) = code" for m
    using fits by (intro read_write_same) simp
  with run have "run (write_bytes (li_base_address it) code m) (li_base_address it) = Some 0x1234567812345678" for m by blast
  with append_code_writes [OF it(3) room, of "pl_build pl" "pl_target pl" "pl_code pl" "w_machine (lib_world lib')"] it(1,2) base
  show ?thesis by (auto simp: returns_constant_def with_item_def)
qed

lemma executable_tests:
  assumes "test_machine pl v lib 4096"
  shows "(\<And>m a. read_bytes a 11 m = [0x48, 0xB8, 0x78, 0x56, 0x34, 0x12, 0x78, 0x56, 0x34, 0x12, 0xC3] \<Longrightarrow>
      run m a = Some 0x1234567812345678) \<Longrightarrow> memory_is_executable_x64 pl run lib"
    and "(\<And>m a. read_bytes a 20 m = [0x00, 0xCF, 0x8A, 0xD2, 0x80, 0x46, 0xA2, 0xF2, 0x00, 0xCF, 0xCA, 0xF2,
      0x80, 0x46, 0xE2, 0xF2, 0xC0, 0x03, 0x5F, 0xD6] \<Longrightarrow> run m a = Some 0x1234567812345678) \<Longrightarrow>
    memory_is_executable_aarch64 pl run lib"
  unfolding memory_is_executable_x64_def memory_is_executable_aarch64_def
  by (rule executable_test [OF assms]; simp add: eval_nat_numeral)+

lemma aligned_test:
  assumes test: "test_machine pl v lib (4096 + (al - 1))" and al: "al \<in> {64, 128, 256}"
  shows "get_buffer_aligned_test pl al lib"
proof -
  have n: "unat (4096 + (al - 1)) = 4096 + (unat al - 1)" "al \<noteq> 0" "unat al dvd 4096" using al by auto
  let ?sz = "4096 + (al - 1)" and ?mn = "ci_max_address (pl_sys pl) div 2" and ?mx = "ci_max_address (pl_sys pl)"
  obtain h lib' it where it: "get_buffer pl (\<lambda>l. l) (\<lambda>w. w) ((upper_half (pl_sys pl))\<lparr>bss_size := ?sz\<rparr>) lib
      = Some (Inr (Item_Ptr h 0), lib')" "item_at (lib_world lib') (Item_Ptr h 0) = it" "4096 dvd unat (li_base_address it)"
    "granted ?sz ?mn ?mx (Item_Ptr h 0) (lib_world lib')"
    using test_item [OF test] n(1) al by auto
  have mx: "below_top ?mx" using test by (simp add: test_machine_def test_process_def sane_page_def sane_sys_def)
  have sz: "unat ?sz = unat (4096 :: u32) + (unat al - 1)" using n(1) by simp
  obtain it' where al': "align_item (pl_build pl) al (item_at (lib_world lib') (Item_Ptr h 0)) = Some it'"
    "item_at (put_item (Item_Ptr h 0) it' (lib_world lib')) (Item_Ptr h 0) = it'"
    by (rule aligned_item [OF it(4) n(2) sz mx, of "pl_build pl"]) blast
  have "li_base_address it' = li_base_address it"
    using al'(1) it(2) by (auto simp: align_item_def Option.bind_eq_Some_conv)
  then have "li_base_address it' mod ucast al = 0"
    using it(3) n(3) by (auto simp: word_unat_eq_iff unat_mod dvd_eq_mod_eq_0 [symmetric] elim: dvd_trans)
  moreover have "wadd (pl_build pl) 4096 (al - 1) = Some ?sz" using n(1) al by (auto simp: arith_ok)
  ultimately show ?thesis
    using it(1) al' n(2) by (simp add: get_buffer_aligned_test_def get_buffer_aligned_def with_item_def)
qed

text \<open>The difference of two addresses as \<open>i64\<close>, and its absolute value.\<close>

definition i64_distance :: "build \<Rightarrow> usize \<Rightarrow> usize \<Rightarrow> 64 word option" where
  "i64_distance b x y =
     (if b = Debug \<and> sint (x - y) \<noteq> sint x - sint y then None
      else if b = Debug \<and> x - y = 0x8000000000000000 then None
      else Some (if x - y <s 0 then - (x - y) else x - y))"

definition get_buffer_with_proximity :: "'o platform \<Rightarrow> 'o library \<Rightarrow> bool" where
  "get_buffer_with_proximity pl lib =
     (let SIZE = 4096 :: usize; base_address = ci_max_address (pl_sys pl) - 0x7FFFFFFF; lib = reset_library pl lib
      in with_item (get_buffer pl (\<lambda>l. l) (\<lambda>w. w) (search_settings_from_proximity 0x7FFFFFFF base_address SIZE) lib)
           (\<lambda>item lib. let locator_item = item_at (lib_world lib) item
             in ucast (li_size locator_item) \<ge> SIZE \<and>
                on_return (i64_distance (pl_build pl) (li_base_address locator_item) base_address)
                  (\<lambda>offset. offset <s 0x7FFFFFFF)))"

text \<open>
  The bound of this test is strict: an item at the first address of the range would fail it, so that it
  needs a range that does not start with a page.
\<close>

lemma sint_of_int: "\<bar>i\<bar> < 2 ^ 63 \<Longrightarrow> sint (of_int i :: usize) = i"
  by (simp add: sint_sbintrunc' signed_take_bit_int_eq_self_iff abs_less_iff)

lemma i64_distance_small:
  assumes "unat x < 2 ^ 63" "unat y < 2 ^ 63"
  shows "i64_distance b x y = Some (of_int \<bar>int (unat x) - int (unat y)\<bar>)"
proof -
  have "int (unat x) < int (2 ^ 63)" "int (unat y) < int (2 ^ 63)" using assms by (simp_all only: of_nat_less_iff)
  then have "uint x < 2 ^ 63" "uint y < 2 ^ 63" by simp_all
  moreover from this have "uint x - uint y < 2 ^ 63" "uint y - uint x < 2 ^ 63"
    using uint_nonnegative [of x] uint_nonnegative [of y] by linarith+
  ultimately have "sint (x - y) = uint x - uint y" "sint x = uint x" "sint y = uint y"
    using sint_of_int [of "uint x - uint y"] sint_of_int [of "uint x"] sint_of_int [of "uint y"]
    by (simp_all add: abs_less_iff)
  then have d: "sint (x - y) = uint x - uint y" "sint x = uint x" "sint y = uint y" by simp_all
  have "x - y \<noteq> 0x8000000000000000"
  proof
    assume "x - y = 0x8000000000000000"
    then have "uint x - uint y = - (2 ^ 63)" using d(1) by simp
    with \<open>uint y < 2 ^ 63\<close> uint_nonnegative [of x] show False by linarith
  qed
  moreover have "x - y <s 0 \<longleftrightarrow> uint x - uint y < 0" using d(1) by (simp add: word_sless_alt)
  ultimately show ?thesis using d by (simp add: i64_distance_def abs_if)
qed

text \<open>The machine of this test: at least 4 GiB of addresses, and memory in the last 4 GiB of them.\<close>

definition proximity_machine :: "'o platform \<Rightarrow> 'o system_view \<Rightarrow> 'o library \<Rightarrow> bool" where
  "proximity_machine pl v lib \<longleftrightarrow> (let mx = ci_max_address (pl_sys pl) in
     test_process pl v lib \<and> granularity (pl_sys pl) = HEADER_LENGTH \<and> 0xFFFFFFFE \<le> unat mx \<and> unat mx < 2 ^ 63 \<and>
     \<not> 4096 dvd unat mx + 2 \<and> has_memory pl 4096 (mx - 0xFFFFFFFE) mx)"

lemma proximity_item:
  assumes "proximity_machine pl v lib"
  shows "\<exists>h lib' it. get_buffer pl (\<lambda>l. l) (\<lambda>w. w)
      (search_settings_from_proximity 0x7FFFFFFF (ci_max_address (pl_sys pl) - 0x7FFFFFFF) 4096) lib
      = Some (Inr (Item_Ptr h 0), lib') \<and> item_at (lib_world lib') (Item_Ptr h 0) = it \<and> reset_library pl lib = lib \<and>
    li_position it = 0 \<and> 4096 \<le> unat (li_size it) \<and>
    on_return (i64_distance (pl_build pl) (li_base_address it) (ci_max_address (pl_sys pl) - 0x7FFFFFFF))
      (\<lambda>offset. offset <s 0x7FFFFFFF)"
proof -
  let ?mx = "ci_max_address (pl_sys pl)"
  have test: "test_process pl v lib" and gran: "granularity (pl_sys pl) = HEADER_LENGTH"
    and mx: "0xFFFFFFFE \<le> unat ?mx" "unat ?mx < 2 ^ 63" "\<not> 4096 dvd unat ?mx + 2"
    and mem: "has_memory pl 4096 (?mx - 0xFFFFFFFE) ?mx"
    using assms by (simp_all add: proximity_machine_def Let_def)
  let ?base = "?mx - 0x7FFFFFFF"
  let ?s = "search_settings_from_proximity 0x7FFFFFFF ?base 4096"
  have base: "unat ?base = unat ?mx - 0x7FFFFFFF" using mx(1) by (subst unat_sub) (simp_all add: word_le_nat_alt)
  have low: "unat (?mx - 0xFFFFFFFE) = unat ?mx - 0xFFFFFFFE" using mx(1) by (subst unat_sub) (simp_all add: word_le_nat_alt)
  have "bss_min_address ?s = ?mx - 0xFFFFFFFE" "bss_max_address ?s = ?mx" "bss_size ?s = 4096"
    using base mx low by (simp_all add: search_settings_from_proximity_def word_unat_eq_iff
        unat_subtract_with_underflow_cap unat_add_with_overflow_cap)
  moreover from this have "sane_request (pl_sys pl) (bss_size ?s) (bss_max_address ?s)"
    using test gran by (simp add: sane_request_def test_process_def sane_page_def sane_sys_def HEADER_LENGTH_def)
  ultimately obtain h lib' it where it: "get_buffer pl (\<lambda>l. l) (\<lambda>w. w) ?s lib = Some (Inr (Item_Ptr h 0), lib')"
    "item_at (lib_world lib') (Item_Ptr h 0) = it" "serves_request 4096 (?mx - 0xFFFFFFFE) ?mx it" "li_position it = 0"
    "4096 dvd unat (li_base_address it)"
    using first_buffer [OF test _ _ gran, of ?s] mem by auto
  let ?a = "unat (li_base_address it)"
  have a: "unat ?mx - 0xFFFFFFFE \<le> ?a" "?a + unat (li_size it) \<le> unat ?mx" "4096 \<le> unat (li_size it)"
    using it(3,4) low by (simp_all add: serves_request_def next_address_def word_le_nat_alt free_bytes_def)
  have "unat ?mx - 0xFFFFFFFE \<noteq> ?a"
  proof
    assume "unat ?mx - 0xFFFFFFFE = ?a"
    then have "unat ?mx + 2 = ?a + 4096 * 0x100000" using mx(1) by simp
    then show False using mx(3) it(5) by (metis dvd_add dvd_triv_left)
  qed
  then have "\<bar>int ?a - int (unat ?base)\<bar> < 0x7FFFFFFF" using a base mx(1) by linarith
  moreover have "i64_distance (pl_build pl) (li_base_address it) ?base = Some (of_int \<bar>int ?a - int (unat ?base)\<bar>)"
    using a mx(2) base by (intro i64_distance_small) simp_all
  ultimately have "on_return (i64_distance (pl_build pl) (li_base_address it) ?base) (\<lambda>offset. offset <s 0x7FFFFFFF)"
    using sint_of_int [of "\<bar>int ?a - int (unat ?base)\<bar>"] by (simp add: word_sless_alt)
  with it(1,2,4) a(3) reset_fresh [OF test] show ?thesis by blast
qed

lemma proximity_test: "proximity_machine pl v lib \<Longrightarrow> get_buffer_with_proximity pl lib"
  by (drule proximity_item) (auto simp: get_buffer_with_proximity_def with_item_def word_le_nat_alt Let_def)

lemma private_memory_returns:
  assumes honest: "honest_os pl" and sys: "sane_sys (pl_sys pl)" and mem: "has_memory pl 4096 mn mx" and top: "below_top mx"
  shows "\<exists>a s' st'. allocate_private_memory pl ((allocator_settings_new (pl_sys pl))
      \<lparr>bas_min_address := mn, bas_max_address := mx\<rparr>) st = Some (Inr a, s', st') \<and> ucast (bas_size s') \<le> allocation_size a"
proof -
  obtain it s' st' where al: "allocate pl (request_settings (pl_sys pl) 4096 mn mx) st = Some (Inr it, s', st')"
    using has_memoryD [OF mem] by blast
  from allocation_result [OF al honest sane_granularity(1) [OF sys]] top al show ?thesis
    by (simp add: allocate_private_memory_def private_allocation_new_def allocation_size_def allocator_settings_new_def)
qed

lemma private_memory_tests:
  assumes "honest_os pl" and sys: "sane_sys (pl_sys pl)"
  shows "has_memory pl 4096 0 0x7FFFFFFF \<Longrightarrow> allocate_private_memory_in_2gib pl st"
    and "has_memory pl 4096 (ci_max_address (pl_sys pl) div 2) (ci_max_address (pl_sys pl)) \<Longrightarrow>
      allocate_private_memory_up_to_max_address pl st"
proof -
  have "below_top (0x7FFFFFFF :: usize)" "below_top (ci_max_address (pl_sys pl))"
    using sys by (simp_all add: below_top_def sane_sys_def)
  note a = private_memory_returns [OF assms _ this(1), of 0 st]
    private_memory_returns [OF assms _ this(2), of "ci_max_address (pl_sys pl) div 2" st]
  show "allocate_private_memory_in_2gib pl st" if "has_memory pl 4096 0 0x7FFFFFFF"
    using a(1) [OF that] by (auto simp: allocate_private_memory_in_2gib_def)
  show "allocate_private_memory_up_to_max_address pl st"
    if "has_memory pl 4096 (ci_max_address (pl_sys pl) div 2) (ci_max_address (pl_sys pl))"
    using a(2) [OF that] by (auto simp: allocate_private_memory_up_to_max_address_def)
qed

section \<open>\<open>buffers_c_buffers.rs\<close>\<close>

definition c_allocate_private_memory_in_2gib :: "'o platform \<Rightarrow> 'o c_state \<Rightarrow> bool" where
  "c_allocate_private_memory_in_2gib pl c =
     (let settings = (allocator_settings_new (pl_sys pl))\<lparr>bas_min_address := 0, bas_max_address := 0x7FFFFFFF\<rparr>
      in on_return (buffers_allocate_private_memory pl settings c) (\<lambda>(result, settings, c).
           ar_is_ok result \<and> allocation_size (ar_ok result) \<ge> ucast (bas_size settings) \<and>
           on_return (free_allocation_result pl result c) (\<lambda>_. True)))"

definition c_allocate_private_memory_up_to_max_address :: "'o platform \<Rightarrow> 'o c_state \<Rightarrow> bool" where
  "c_allocate_private_memory_up_to_max_address pl c =
     (let settings = (allocator_settings_new (pl_sys pl))
            \<lparr>bas_min_address := ci_max_address (pl_sys pl) div 2, bas_max_address := ci_max_address (pl_sys pl)\<rparr>
      in on_return (buffers_allocate_private_memory pl settings c) (\<lambda>(result, settings, c).
           ar_is_ok result \<and> allocation_size (ar_ok result) \<ge> ucast (bas_size settings) \<and>
           on_return (free_allocation_result pl result c) (\<lambda>_. True)))"

text \<open>The array of 4096 zeros of this test is at \<open>data\<close>; a result that is not an item fails the test.\<close>

definition c_get_buffer_baseline :: "'o platform \<Rightarrow> usize \<Rightarrow> 'o c_state \<Rightarrow> bool" where
  "c_get_buffer_baseline pl data c =
     on_return (buffers_get_buffer pl (\<lambda>l. l) (\<lambda>w. w) (upper_half (pl_sys pl)) c) (\<lambda>(result, c).
       gr_is_ok result \<and> on_return (gr_ok result) (\<lambda>item.
         on_return (locatoritem_append_bytes pl item data 4096 (c_world c)) (\<lambda>(_, w).
           on_return (free_get_buffer_result pl result (put_c_world w c)) (\<lambda>_. True))))"

definition c_get_buffer_aligned_test :: "'o platform \<Rightarrow> u32 \<Rightarrow> 'o c_state \<Rightarrow> bool" where
  "c_get_buffer_aligned_test pl alignment c =
     on_return (buffers_get_buffer_aligned pl (\<lambda>l. l) (\<lambda>w. w) (upper_half (pl_sys pl)) alignment c) (\<lambda>(result, c).
       gr_is_ok result \<and> on_return (gr_ok result) (\<lambda>item.
         locatoritem_min_address item (c_world c) mod ucast alignment = 0 \<and>
         on_return (free_get_buffer_result pl result c) (\<lambda>_. True)))"

definition c_get_buffer_with_proximity :: "'o platform \<Rightarrow> 'o c_state \<Rightarrow> bool" where
  "c_get_buffer_with_proximity pl c =
     (let SIZE = 4096 :: usize; base_address = ci_max_address (pl_sys pl) - 0x7FFFFFFF;
          c = c\<lparr>cs_lib := reset_library pl (cs_lib c)\<rparr>;
          settings = buffersearchsettings_from_proximity 0x7FFFFFFF base_address SIZE
      in on_return (buffers_get_buffer pl (\<lambda>l. l) (\<lambda>w. w) settings c) (\<lambda>(result, c).
           gr_is_ok result \<and> on_return (gr_ok result) (\<lambda>item.
             on_return (locatoritem_bytes_left (pl_build pl) item (c_world c)) (\<lambda>left. left \<ge> ucast SIZE) \<and>
             on_return (i64_distance (pl_build pl) (locatoritem_min_address item (c_world c)) base_address)
               (\<lambda>offset. offset <s 0x7FFFFFFF) \<and>
             on_return (free_get_buffer_result pl result c) (\<lambda>_. True))))"

text \<open>They pass where their Rust counterparts do; giving a result back never fails on Linux, Windows and macOS.\<close>

lemma c_get_buffer_result:
  assumes "get_buffer pl wait yield s (cs_lib c) = Some (Inr p, lib')"
  shows "buffers_get_buffer pl wait yield s c = Some (\<lparr>gr_is_ok = True, gr_ok = Some p, gr_err = 0\<rparr>, c\<lparr>cs_lib := lib'\<rparr>)"
  using assms by (simp add: buffers_get_buffer_def)

lemma c_baseline_test:
  assumes "test_machine pl v (cs_lib c) 4096"
  shows "c_get_buffer_baseline pl data c"
proof -
  obtain h lib' it where it: "get_buffer pl (\<lambda>l. l) (\<lambda>w. w) (upper_half (pl_sys pl)) (cs_lib c) = Some (Inr (Item_Ptr h 0), lib')"
    "item_at (lib_world lib') (Item_Ptr h 0) = it" "wf_item it" "4096 \<le> free_bytes it"
    using test_item [OF assms] by auto
  let ?m = "w_machine (lib_world lib')"
  have "\<exists>r. locatoritem_append_bytes pl (Item_Ptr h 0) data 4096 (lib_world lib') = Some r"
    using append_bytes_writes [OF it(3), of "read_bytes data 4096 (mem ?m)" "pl_build pl" "pl_target pl" "pl_code pl" ?m] it(2,4)
    by (auto simp: locatoritem_append_bytes_def)
  then show ?thesis
    by (auto simp: c_get_buffer_baseline_def c_get_buffer_result [OF it(1)] free_get_buffer_result_def free_locator_item_def)
qed

lemma c_aligned_test:
  assumes "get_buffer_aligned_test pl al (cs_lib c)"
  shows "c_get_buffer_aligned_test pl al c"
proof -
  obtain r lib' where r: "get_buffer_aligned pl (\<lambda>l. l) (\<lambda>w. w) (upper_half (pl_sys pl)) al (cs_lib c) = Some (r, lib')"
    using assms by (cases "get_buffer_aligned pl (\<lambda>l. l) (\<lambda>w. w) (upper_half (pl_sys pl)) al (cs_lib c)")
      (auto simp: get_buffer_aligned_test_def with_item_def)
  then obtain p where "r = Inr p" "li_base_address (item_at (lib_world lib') p) mod ucast al = 0"
    using assms by (cases r) (simp_all add: get_buffer_aligned_test_def with_item_def)
  with r show ?thesis
    by (simp add: c_get_buffer_aligned_test_def buffers_get_buffer_aligned_def locatoritem_min_address_def
        item_min_address_def free_get_buffer_result_def free_locator_item_def)
qed

lemma c_proximity_test:
  assumes "proximity_machine pl v (cs_lib c)"
  shows "c_get_buffer_with_proximity pl c"
proof -
  obtain h lib' it where it: "get_buffer pl (\<lambda>l. l) (\<lambda>w. w)
      (search_settings_from_proximity 0x7FFFFFFF (ci_max_address (pl_sys pl) - 0x7FFFFFFF) 4096) (cs_lib c)
      = Some (Inr (Item_Ptr h 0), lib')" "item_at (lib_world lib') (Item_Ptr h 0) = it" "reset_library pl (cs_lib c) = cs_lib c"
    "li_position it = 0" "4096 \<le> unat (li_size it)"
    "on_return (i64_distance (pl_build pl) (li_base_address it) (ci_max_address (pl_sys pl) - 0x7FFFFFFF))
      (\<lambda>offset. offset <s 0x7FFFFFFF)"
    using proximity_item [OF assms] by blast
  have "bytes_left (pl_build pl) it = Some (li_size it)"
    using it(4) by (simp add: bytes_left_def arith_ok)
  with it show ?thesis
    by (simp add: c_get_buffer_with_proximity_def buffersearchsettings_from_proximity_def Let_def
        c_get_buffer_result [OF it(1)] free_get_buffer_result_def free_locator_item_def locatoritem_bytes_left_def
        locatoritem_min_address_def item_min_address_def word_le_nat_alt)
qed

lemma c_private_memory_tests:
  assumes "honest_os pl" and sys: "sane_sys (pl_sys pl)" and target: "tgt_os (pl_target pl) \<in> {Windows, Linux, Macos}"
  shows "has_memory pl 4096 0 0x7FFFFFFF \<Longrightarrow> c_allocate_private_memory_in_2gib pl c"
    and "has_memory pl 4096 (ci_max_address (pl_sys pl) div 2) (ci_max_address (pl_sys pl)) \<Longrightarrow>
      c_allocate_private_memory_up_to_max_address pl c"
proof -
  have "below_top (0x7FFFFFFF :: usize)" "below_top (ci_max_address (pl_sys pl))"
    using sys by (simp_all add: below_top_def sane_sys_def)
  note a = private_memory_returns [OF assms(1,2) _ this(1), of 0 "w_os (c_world c)"]
    private_memory_returns [OF assms(1,2) _ this(2), of "ci_max_address (pl_sys pl) div 2" "w_os (c_world c)"]
  have dropped: "\<exists>st'. private_allocation_drop pl a st = Some st'" for a st
    using target by (auto simp: private_allocation_drop_def)
  have free: "\<exists>c'. free_allocation_result pl \<lparr>ar_is_ok = True, ar_ok = a, ar_err = e\<rparr> c = Some c'" for a e and c :: "'a c_state"
    using dropped [of a "w_os (c_world c)"] by (auto simp: free_allocation_result_def free_private_allocation_def)
  have return: "on_return (free_allocation_result pl \<lparr>ar_is_ok = True, ar_ok = a, ar_err = e\<rparr> c) (\<lambda>_. True)"
    for a e and c :: "'a c_state" using free [of a e c] by auto
  show "c_allocate_private_memory_in_2gib pl c" if "has_memory pl 4096 0 0x7FFFFFFF"
    using a(1) [OF that] by (auto simp: c_allocate_private_memory_in_2gib_def buffers_allocate_private_memory_def return)
  show "c_allocate_private_memory_up_to_max_address pl c"
    if "has_memory pl 4096 (ci_max_address (pl_sys pl) div 2) (ci_max_address (pl_sys pl))"
    using a(2) [OF that]
    by (auto simp: c_allocate_private_memory_up_to_max_address_def buffers_allocate_private_memory_def return)
qed

end
