(* ===== verification/Mapping_Tests.thy ===== *)
theory Mapping_Tests
  imports Library_Tests
begin

text \<open>
  The unit tests of \<open>memory_mapped_file_unix.rs\<close> and \<open>memory_mapped_file_windows.rs\<close>.  A test leaves its
  mappings to the end, where dropping them cannot fail.
\<close>

section \<open>Unix\<close>

definition test_memory_mapped_file_creation :: "'o platform \<Rightarrow> 'o \<Rightarrow> bool" where
  "test_memory_mapped_file_creation pl st =
     (let file_name = ''/Reloaded.Memory.Buffers.MemoryBuffer.Test, PID '' @ show_word (ci_this_process_id (pl_sys pl));
          file_length = granularity (pl_sys pl)
      in on_return (unix_mmf_new (pl_target pl) (pl_unix pl) file_name file_length st) (\<lambda>(mmf, st).
           \<not> um_already_existed mmf \<and> um_length mmf = file_length \<and>
           on_return (unix_mmf_new (pl_target pl) (pl_unix pl) file_name file_length st) (\<lambda>(mmf_existing, st).
             um_already_existed mmf_existing)))"

definition test_memory_mapped_file_data :: "'o platform \<Rightarrow> 'o machine \<Rightarrow> bool" where
  "test_memory_mapped_file_data pl m =
     (let file_name = ''/test_memory_mapped_file_data PID '' @ show_word (ci_this_process_id (pl_sys pl));
          file_length = granularity (pl_sys pl)
      in on_return (unix_mmf_new (pl_target pl) (pl_unix pl) file_name file_length (os m)) (\<lambda>(mmf, _).
           let data_ptr = um_data mmf; memory = (mem m)(data_ptr := 123)
           in data_ptr \<noteq> 0 \<and> memory data_ptr = 123))"

abbreviation test_file :: "'o platform \<Rightarrow> string" where
  "test_file pl \<equiv> BASE_DIR (pl_target pl) @ ''/Reloaded.Memory.Buffers.MemoryBuffer.Test, PID '' @
     show_word (ci_this_process_id (pl_sys pl))"

text \<open>There is room for the file, and for a second mapping of it.\<close>

definition room_twice :: "'o platform \<Rightarrow> 'o system_view \<Rightarrow> 'o \<Rightarrow> bool" where
  "room_twice pl v st \<longleftrightarrow> v_room v (granularity (pl_sys pl)) st \<and>
     (\<forall>name m st'. unix_mmf_new (pl_target pl) (pl_unix pl) name (granularity (pl_sys pl)) st = Some (m, st') \<longrightarrow>
       v_room v (granularity (pl_sys pl)) st')"

lemma mapping_tests:
  assumes sf: "shared_files pl v"
  shows "test_file pl \<notin> v_files v st \<Longrightarrow> room_twice pl v st \<Longrightarrow> test_memory_mapped_file_creation pl st"
    and "v_room v (granularity (pl_sys pl)) (os m) \<Longrightarrow> test_memory_mapped_file_data pl m"
proof -
  let ?name = "''/Reloaded.Memory.Buffers.MemoryBuffer.Test, PID '' @ show_word (ci_this_process_id (pl_sys pl))"
  let ?data = "''/test_memory_mapped_file_data PID '' @ show_word (ci_this_process_id (pl_sys pl))"
  let ?g = "granularity (pl_sys pl)"
  have plain: "CHR 0x00 \<notin> set ?name" "CHR 0x00 \<notin> set ?data" by (simp_all add: no_nul)
  show "test_memory_mapped_file_creation pl st" 
    if new: "test_file pl \<notin> v_files v st" and room: "room_twice pl v st"
  proof -
    have room1: "v_room v ?g st" using room by (simp add: room_twice_def)
    obtain m st1 where m: "unix_mmf_new (pl_target pl) (pl_unix pl) ?name ?g st = Some (m, st1)"
      "\<not> um_already_existed m" "um_length m = ?g" "test_file pl \<in> v_files v st1"
      by (rule unix_mmf_new_path [OF sf room1 plain(1) refl]) (use new in blast)
    have room2: "v_room v ?g st1" using room m(1) unfolding room_twice_def by blast
    obtain m2 st2 where "unix_mmf_new (pl_target pl) (pl_unix pl) ?name ?g st1 = Some (m2, st2)" "um_already_existed m2"
      by (rule unix_mmf_new_path [OF sf room2 plain(1) refl]) (use m(4) in blast)
    with m show ?thesis by (simp add: test_memory_mapped_file_creation_def Let_def)
  qed
  assume room: "v_room v (granularity (pl_sys pl)) (os m)"
  obtain mm st1 where "unix_mmf_new (pl_target pl) (pl_unix pl) ?data ?g (os m) = Some (mm, st1)" "um_data mm \<noteq> 0"
    by (rule unix_mmf_new_path [OF sf room plain(2) refl]) blast
  then show "test_memory_mapped_file_data pl m" by (simp add: test_memory_mapped_file_data_def Let_def)
qed

section \<open>Windows\<close>

definition test_windows_memory_mapped_file_creation :: "'o platform \<Rightarrow> 'o \<Rightarrow> bool" where
  "test_windows_memory_mapped_file_creation pl st =
     (let file_name = ''/Reloaded.Memory.Buffers.MemoryBuffer.Test, PID '' @ show_word (ci_this_process_id (pl_sys pl));
          file_length = granularity (pl_sys pl)
      in on_return (windows_mmf_new (pl_file_mapping pl) file_name file_length st) (\<lambda>(mmf, st).
           \<not> wm_already_existed mmf \<and> wm_length mmf = file_length \<and>
           on_return (windows_mmf_new (pl_file_mapping pl) file_name file_length st) (\<lambda>(mmf_existing, st).
             wm_already_existed mmf_existing)))"

definition test_windows_memory_mapped_file_data :: "'o platform \<Rightarrow> 'o machine \<Rightarrow> bool" where
  "test_windows_memory_mapped_file_data pl m =
     (let file_name = ''/Reloaded.Memory.Buffers.MemoryBuffer.Test, PID '' @ show_word (ci_this_process_id (pl_sys pl));
          file_length = granularity (pl_sys pl)
      in on_return (windows_mmf_new (pl_file_mapping pl) file_name file_length (os m)) (\<lambda>(mmf, _).
           let data_ptr = wm_data mmf; memory = (mem m)(data_ptr := 123)
           in data_ptr \<noteq> 0 \<and> memory data_ptr = 123))"

text \<open>
  The named mappings of a session: opening finds exactly the names that exist, making one adds its
  name, and views can be mapped.
\<close>

definition named_mappings :: "'o file_mapping_api \<Rightarrow> ('o \<Rightarrow> string set) \<Rightarrow> bool" where
  "named_mappings api names \<longleftrightarrow>
     (\<forall>p st h st'. OpenFileMappingA api p st = (h, st') \<longrightarrow> (h \<noteq> 0 \<longleftrightarrow> p \<in> names st) \<and> names st' = names st) \<and>
     (\<forall>n p st h st'. CreateFileMappingA api n p st = (h, st') \<longrightarrow> h \<noteq> 0 \<and> p \<in> names st') \<and>
     (\<forall>h n st a st'. h \<noteq> 0 \<longrightarrow> MapViewOfFile api h n st = (a, st') \<longrightarrow> a \<noteq> 0 \<and> names st' = names st)"

lemma windows_mmf_new_named:
  assumes law: "named_mappings api names" and plain: "CHR 0x00 \<notin> set name"
  obtains m st' where "windows_mmf_new api name n st = Some (m, st')" "wm_already_existed m \<longleftrightarrow> name \<in> names st"
    "wm_length m = n" "wm_data m \<noteq> 0" "name \<in> names st'"
proof -
  obtain h st1 where opened: "OpenFileMappingA api name st = (h, st1)" by fastforce
  obtain c st2 where made: "CreateFileMappingA api (ucast n) name st1 = (c, st2)" by fastforce
  define h' where "h' = (if h = 0 then c else h)"
  define st3 where "st3 = (if h = 0 then st2 else st1)"
  obtain a st4 where view: "MapViewOfFile api h' n st3 = (a, st4)" by fastforce
  have o: "h \<noteq> 0 \<longleftrightarrow> name \<in> names st" "names st1 = names st" using law opened unfolding named_mappings_def by blast+
  have c: "c \<noteq> 0" "name \<in> names st2" using law made unfolding named_mappings_def by blast+
  have h': "h' \<noteq> 0" "name \<in> names st3" using o c by (auto simp: h'_def st3_def)
  have v: "a \<noteq> 0" "names st4 = names st3" using law view h'(1) unfolding named_mappings_def by blast+
  have new: "windows_mmf_new api name n st
      = Some (\<lparr>wm_already_existed = (h \<noteq> 0), wm_data = a, wm_length = n, wm_map_handle = h'\<rparr>, st4)"
    using opened made view plain by (auto simp: windows_mmf_new_def c_string_def h'_def st3_def)
  show thesis by (rule that [OF new]) (use o(1) h'(2) v in simp_all)
qed

lemma windows_mapping_tests:
  assumes law: "named_mappings (pl_file_mapping pl) names"
  shows "''/Reloaded.Memory.Buffers.MemoryBuffer.Test, PID '' @ show_word (ci_this_process_id (pl_sys pl)) \<notin> names st \<Longrightarrow>
      test_windows_memory_mapped_file_creation pl st"
    and "test_windows_memory_mapped_file_data pl m"
proof -
  let ?name = "''/Reloaded.Memory.Buffers.MemoryBuffer.Test, PID '' @ show_word (ci_this_process_id (pl_sys pl))"
  let ?g = "granularity (pl_sys pl)"
  have plain: "CHR 0x00 \<notin> set ?name" by (simp add: no_nul)
  show "test_windows_memory_mapped_file_creation pl st" if new: "?name \<notin> names st"
  proof -
    obtain m st1 where m: "windows_mmf_new (pl_file_mapping pl) ?name ?g st = Some (m, st1)" "\<not> wm_already_existed m"
      "wm_length m = ?g" "?name \<in> names st1"
      by (rule windows_mmf_new_named [OF law plain]) (use new in blast)
    obtain m2 st2 where "windows_mmf_new (pl_file_mapping pl) ?name ?g st1 = Some (m2, st2)" "wm_already_existed m2"
      by (rule windows_mmf_new_named [OF law plain]) (use m(4) in blast)
    with m show ?thesis by (simp add: test_windows_memory_mapped_file_creation_def Let_def)
  qed
  obtain w st1 where "windows_mmf_new (pl_file_mapping pl) ?name ?g (os m) = Some (w, st1)" "wm_data w \<noteq> 0"
    by (rule windows_mmf_new_named [OF law plain]) blast
  then show "test_windows_memory_mapped_file_data pl m" by (simp add: test_windows_memory_mapped_file_data_def Let_def)
qed

end
