(* ===== verification/Test_Properties.thy ===== *)
theory Test_Properties
  imports Client_Tests Mapping_Tests Finder_Properties
begin

text \<open>
  The unit tests of the crate as properties: those that need no system, those that need a machine with
  free memory, and the one whose expectation depends on the page size.
\<close>

section \<open>The machine\<close>

text \<open>
  A Linux machine with pages of 4 KiB, on which a test process has not used the library: memory in the
  upper half of the addresses, in the lowest 2 GiB and in the last 4 GiB, room for two mappings of the
  first header, no buffer below address 10, and a heap with a page for another header.
\<close>

definition test_bench :: "'o platform \<Rightarrow> 'o system_view \<Rightarrow> 'o library \<Rightarrow> bool" where
  "test_bench pl v lib \<longleftrightarrow> (let sys = pl_sys pl; st = w_os (lib_world lib) in
     tgt_os (pl_target pl) = Linux \<and> proximity_machine pl v lib \<and> room_for_two pl v lib \<and>
     list_all (\<lambda>sz. has_memory pl sz (ci_max_address sys div 2) (ci_max_address sys)) [100, 4096, 4159, 4223, 4351] \<and>
     has_memory pl 4096 0 0x7FFFFFFF \<and> (\<exists>r. allocate pl (request_settings sys 100 0 10) st = Some r) \<and>
     layout_ok (granularity sys) (ucast (ci_page_size sys)) \<and>
     fst (pl_heap_alloc pl (granularity sys) (ucast (ci_page_size sys)) st) \<noteq> 0 \<and>
     test_file pl \<notin> v_files v st \<and> room_twice pl v st)"

lemma test_benchD:
  assumes "test_bench pl v lib"
  shows "test_process pl v lib" "granularity (pl_sys pl) = HEADER_LENGTH" "proximity_machine pl v lib"
    "sz \<in> {100, 4096, 4159, 4223, 4351} \<Longrightarrow> has_memory pl sz (ci_max_address (pl_sys pl) div 2) (ci_max_address (pl_sys pl))"
    "sz \<in> {100, 4096, 4159, 4223, 4351} \<Longrightarrow> test_machine pl v lib sz"
    "honest_os pl" "sane_sys (pl_sys pl)" "shared_files pl v" "free_test_item pl it st"
proof -
  show process: "test_process pl v lib" and gran: "granularity (pl_sys pl) = HEADER_LENGTH" and "proximity_machine pl v lib"
    using assms by (simp_all add: test_bench_def proximity_machine_def Let_def)
  show mem: "has_memory pl sz (ci_max_address (pl_sys pl) div 2) (ci_max_address (pl_sys pl))"
    if "sz \<in> {100, 4096, 4159, 4223, 4351}" for sz
    using assms that by (auto simp: test_bench_def Let_def)
  then show "sz \<in> {100, 4096, 4159, 4223, 4351} \<Longrightarrow> test_machine pl v lib sz"
    using process gran by (simp add: test_machine_def)
  show "honest_os pl" "sane_sys (pl_sys pl)" "shared_files pl v"
    using process by (simp_all add: test_process_def sane_page_def)
  show "free_test_item pl it st" using assms by (simp add: test_bench_def Let_def free_test_item_def)
qed

lemma bench_header_tests:
  assumes bench: "test_bench pl v lib" and ptr: "ptr \<noteq> fst (pl_heap_alloc pl (granularity (pl_sys pl))
      (ucast (ci_page_size (pl_sys pl))) (w_os (lib_world lib)))"
  shows "try_allocate_item_should_allocate_item_when_header_is_not_full_and_within_address_limits pl yield ptr (lib_world lib)"
    "try_allocate_item_should_not_allocate_item_when_header_is_full pl yield ptr (lib_world lib)"
    "try_allocate_item_should_not_allocate_item_when_outside_address_limits pl yield ptr (lib_world lib)"
    "get_next_locator_should_allocate_when_newly_created pl yield ptr (lib_world lib)"
proof -
  let ?sys = "pl_sys pl" and ?w = "lib_world lib"
  note d = test_benchD [OF bench]
  have slots: "\<And>a. length (lh_items (w_headers ?w a)) = 203" and mac: "\<not> cfg_macos_aarch64 (pl_target pl)"
    and page: "sane_page ?sys" using d(1) by (simp_all add: test_process_def fresh_process_def)
  have req: "sane_request ?sys 100 (ci_max_address ?sys)" "sane_request ?sys 100 10"
    using d(2,7) by (simp_all add: sane_request_def sane_sys_def HEADER_LENGTH_def below_top_def)
  obtain it s' st where "allocate pl (request_settings ?sys 100 (ci_max_address ?sys div 2) (ci_max_address ?sys)) (w_os ?w)
      = Some (Inr it, s', st)" using has_memoryD [OF d(4) [of 100]] by blast
  from allocate_test [OF slots this d(6) req(1)]
  show "try_allocate_item_should_allocate_item_when_header_is_not_full_and_within_address_limits pl yield ptr ?w" .
  show "try_allocate_item_should_not_allocate_item_when_header_is_full pl yield ptr ?w" by (rule full_test [OF slots])
  have "\<exists>r. allocate pl (request_settings ?sys 100 0 10) (w_os ?w) = Some r"
    using bench by (simp add: test_bench_def Let_def)
  then obtain r s1 st1 where "allocate pl (request_settings ?sys 100 0 10) (w_os ?w) = Some (r, s1, st1)" by auto
  from outside_test [OF slots this d(6) req(2)]
  show "try_allocate_item_should_not_allocate_item_when_outside_address_limits pl yield ptr ?w" .
  obtain a st2 where heap: "pl_heap_alloc pl (granularity ?sys) (ucast (ci_page_size ?sys)) (w_os ?w) = (a, st2)" by fastforce
  have "layout_ok (granularity ?sys) (ucast (ci_page_size ?sys))" "a \<noteq> 0" "a \<noteq> ptr"
    using bench heap ptr by (simp_all add: test_bench_def Let_def)
  then show "get_next_locator_should_allocate_when_newly_created pl yield ptr ?w"
    by (rule next_test [OF slots mac page _ heap])
qed

lemma bench_aligned:
  assumes "test_bench pl v lib" and "al \<in> {64, 128, 256}"
  shows "get_buffer_aligned_test pl al lib"
  using assms(2) test_benchD(5) [OF assms(1), of "4096 + (al - 1)"] by (intro aligned_test) auto

text \<open>The machine of the samples is such a machine.\<close>

lemma disk_like: "sample_like 4096 (disk_platform sample_linux)"
  by (simp add: sample_like_def disk_platform_def platform_with_def)

lemma disk_memory:
  assumes "unat sz \<le> 0x100000"
  shows "has_memory (disk_platform sample_linux) sz 0x3FFFFFFFFFFF 0x7FFFFFFFFFFF"
    and "has_memory (disk_platform sample_linux) sz 0x7FFF00000001 0x7FFFFFFFFFFF"
    and "has_memory (disk_platform sample_linux) 4096 0 0x7FFFFFFF"
proof -
  have fits: "buffer_fits 0x3FFFFFFFFFFF 0x7FFFFFFFFFFF 0 0x7FFFFFFFFFFF n 4096 0x400000000000"
    "buffer_fits 0x7FFF00000001 0x7FFFFFFFFFFF 0 0x7FFFFFFFFFFF n 4096 0x7FFF00001000" if "unat n \<le> 0x200000" for n
    using that by (simp_all add: buffer_fits_def)
  show "has_memory (disk_platform sample_linux) sz 0x3FFFFFFFFFFF 0x7FFFFFFFFFFF" unfolding has_memory_def
    by (intro allI like_serves [OF disk_like, where c = "0x400000000000"]) (use assms fits in simp_all)
  show "has_memory (disk_platform sample_linux) sz 0x7FFF00000001 0x7FFFFFFFFFFF" unfolding has_memory_def
    by (intro allI like_serves [OF disk_like, where c = "0x7FFF00001000"]) (use assms fits in simp_all)
  show "has_memory (disk_platform sample_linux) 4096 0 0x7FFFFFFF"
    using like_serves_low [OF disk_like] unfolding has_memory_def by blast
qed

lemma disk_dirs: "create_dirs disk_unix path cs st = Some st' \<Longrightarrow> st' = st"
proof (induction cs arbitrary: path)
  case (Cons c cs)
  then show ?case
    by (auto simp: disk_unix_def sample_unix_def Let_def Option.bind_eq_Some_conv split: if_splits)
qed simp

lemma disk_mapped:
  assumes "unix_mmf_new t disk_unix name 4096 ((0x100000, []), fs) = Some (m, st)"
  shows "v_room disk_view 4096 st"
proof -
  let ?st = "((0x100000, []), fs) :: disk"
  have calls: "open_rdwr disk_unix p st = (if p \<in> set (snd st) then 3 else - 1, st)"
    "open_creat disk_unix p st = (4, (fst st, p # snd st))" "ftruncate disk_unix fd n st = st"
    "mmap_shared disk_unix 4096 fd ((0x100000, []), gs) = (0x100000, ((0x101000, []), gs))" for p st fd n gs
    by (simp_all add: disk_unix_def sample_unix_def paged_heap_def)
  have dirs: "create_dir_all disk_unix p ?st \<in> {None, Some ?st}" for p
    using disk_dirs [of "''/''" "split_on (CHR ''/'') p" ?st] by (cases "create_dir_all disk_unix p ?st") (auto simp: create_dir_all_def)
  have "fst st = (0x101000, [])"
    using assms dirs [of "BASE_DIR t"]
    by (auto simp: unix_mmf_new_def Let_def calls c_string_def MAP_FAILED_def split: if_splits)
  then show ?thesis by (simp add: paged_heap_def disk_view_def)
qed

lemma disk_bench: "test_bench (disk_platform sample_linux) disk_view disk_library"
proof -
  let ?pl = "disk_platform sample_linux"
  have sys: "ci_max_address (pl_sys ?pl) = 0x7FFFFFFFFFFF" "granularity (pl_sys ?pl) = 4096" "ci_page_size (pl_sys ?pl) = 4096"
    by (simp_all add: disk_basics sample_granularity sample_sys_def [of 4096] granularity_def)
  have process: "test_process ?pl disk_view disk_library"
    using disk_basics disk_fresh disk_shared_files [of sample_linux] disk_search_ok
    by (simp add: test_process_def search_ok_def)
  have mem: "has_memory ?pl sz (0x7FFFFFFFFFFF div 2) 0x7FFFFFFFFFFF" if "unat sz \<le> 0x100000" for sz
    using disk_memory(1) [OF that] by simp
  have "proximity_machine ?pl disk_view disk_library"
    using process disk_memory(2) [of 4096] sys by (simp add: proximity_machine_def HEADER_LENGTH_def)
  moreover have st: "w_os (lib_world disk_library) = ((0x100000, []), [])" by (simp add: disk_library_def)
  moreover have "room_for_two ?pl disk_view disk_library"
    by (auto simp: room_for_two_def open_or_create_memory_mapped_file_def disk_basics(5,7) sys(2) st Option.bind_eq_Some_conv
        dest: disk_mapped)
  moreover have "room_twice ?pl disk_view ((0x100000, []), [])"
    using disk_fresh(2) [of sample_linux] disk_mapped
    by (auto simp: room_twice_def fresh_process_def sys(2) st disk_basics(7))
  moreover have "fst (pl_heap_alloc ?pl 4096 4096 (w_os (lib_world disk_library))) \<noteq> 0" "layout_ok 4096 4096"
    by (simp_all add: disk_platform_def platform_with_def disk_heap_def disk_library_def paged_heap_def layout_ok_def)
  moreover have "test_file ?pl \<notin> v_files disk_view (w_os (lib_world disk_library))"
    by (simp add: disk_view_def disk_library_def)
  moreover note mem disk_memory(3) [of 4096] like_refuses [OF disk_like, of "w_os (lib_world disk_library)"] disk_basics(5) sys
  ultimately show ?thesis by (simp add: test_bench_def Let_def)
qed

section \<open>Properties\<close>





text \<open>
  C20 The test of the initialization computes the number of items it expects in floating point, rounded
  to the nearest, where the code counts rounded up.  In a fresh process on any lawful Unix system it passes
  exactly when the page size does not leave 8 KiB over a multiple of 16 KiB: the two counts agree for
  4 KiB, 16 KiB and 64 KiB, and differ for 8 KiB.
\<close>

theorem initialization_test_exact:
  assumes "test_process pl v lib"
  shows "find_should_initialize_correctly_when_created pl lib \<longleftrightarrow> unat (granularity (pl_sys pl)) mod 16384 \<noteq> 8192"
  by (rule initialization_test [OF assms])

theorem initialization_test_exact_witness:
  "find_should_initialize_correctly_when_created (disk_platform sample_linux) disk_library"
  using initialization_test_exact [of "disk_platform sample_linux" disk_view disk_library] test_benchD(1,2) [OF disk_bench]
  by (simp add: HEADER_LENGTH_def)

end
