(* ===== verification/External_Process.thy ===== *)
theory External_Process
  imports Private_Allocation
begin

text \<open>
  The variant of the Windows code for memory in other processes: what stands under the feature
  \<open>external_process\<close> in \<open>buffer_allocator_windows.rs\<close> and \<open>private_allocation.rs\<close>.  The manifest of the
  crate calls its feature \<open>external_processes\<close>, so no build contains this code, and it would not compile:
  the functions below are not imported and \<open>ProcessHandle\<close> has no \<open>get_handle\<close>, which is read as the
  field \<open>handle\<close>.  The functions of \<open>windows-sys\<close> on another process are parameters.
\<close>

record 'o process_api =
  VirtualQueryEx :: "usize \<Rightarrow> usize \<Rightarrow> 'o \<Rightarrow> (usize \<times> memory_basic_information) \<times> 'o"
  VirtualAllocEx :: "usize \<Rightarrow> usize \<Rightarrow> usize \<Rightarrow> u32 \<Rightarrow> u32 \<Rightarrow> 'o \<Rightarrow> usize \<times> 'o"
  VirtualFreeEx :: "usize \<Rightarrow> usize \<Rightarrow> usize \<Rightarrow> u32 \<Rightarrow> 'o \<Rightarrow> i32 \<times> 'o"

unbundle bit_operations_syntax

definition RemoteKernel32 :: "'o process_api \<Rightarrow> usize \<Rightarrow> 'o kernel32" where
  "RemoteKernel32 api handle =
     \<lparr>virtual_query = (\<lambda>lp_address st. let ((has_page, info), st1) = VirtualQueryEx api handle lp_address st
        in (if has_page = 0 then None else Some info, st1)),
      virtual_alloc = (\<lambda>lp_address dw_size st.
        VirtualAllocEx api handle lp_address dw_size (MEM_RESERVE OR MEM_COMMIT) PAGE_EXECUTE_READWRITE st),
      virtual_free = (\<lambda>lp_address dw_size st. let (result, st1) = VirtualFreeEx api handle lp_address dw_size MEM_RELEASE st
        in (result \<noteq> 0, st1))\<rparr>"

definition open_process :: "'o windows_api \<Rightarrow> u32 \<Rightarrow> 'o \<Rightarrow> usize \<times> 'o" where
  "open_process api process_id st = OpenProcess api process_id st"

definition allocate_windows_external ::
  "build \<Rightarrow> sys_queries \<Rightarrow> cached \<Rightarrow> 'o windows_api \<Rightarrow> 'o process_api \<Rightarrow> buffer_allocator_settings \<Rightarrow> 'o \<Rightarrow>
   (alloc_result \<times> 'o) option" where
  "allocate_windows_external b q sys api remote s st =
     (let (handle, st1) = open_process api (bas_target_process_id s) st in
      if \<not> process_handle_is_valid handle
      then Some (Inl (allocation_error_new s ''Failed to open process''), process_handle_drop api handle st1)
      else
        (let (max_address, st2) = get_max_windows_address q sys api (bas_target_process_id s) handle st1
         in do {
           (r, st3) \<leftarrow>
             (if ci_this_process_id sys = bas_target_process_id s
              then allocate_fast b sys (LocalKernel32 api) max_address s st2
              else allocate_fast b sys (RemoteKernel32 remote handle) max_address s st2);
           Some (r, process_handle_drop api handle st3)
         }))"

definition drop_windows_external ::
  "cached \<Rightarrow> 'o windows_api \<Rightarrow> 'o process_api \<Rightarrow> private_allocation \<Rightarrow> 'o \<Rightarrow> 'o" where
  "drop_windows_external sys api remote p st =
     (if pa_this_process_id p = ci_this_process_id sys
      then snd (VirtualFree api (pa_base_address p) 0 MEM_RELEASE st)
      else (let (process_handle, st1) = open_process api (pa_this_process_id p) st;
                (_, st2) = VirtualFreeEx remote process_handle (pa_base_address p) 0 MEM_RELEASE st1
            in process_handle_drop api process_handle st2))"

section \<open>The contract\<close>

interpretation external_allocator: allocator_contract "allocate_windows_external b q sys api remote" "granularity sys" True
  by unfold_locales
    (auto simp: allocate_windows_external_def Let_def result_cases
      split: if_splits prod.splits intro: allocate_fast_placed allocate_fast_error)

text \<open>For the own process the two builds agree.\<close>

lemma external_own_process:
  assumes "bas_target_process_id s = ci_this_process_id sys"
  shows "allocate_windows_external b q sys api remote s st = allocate_windows b q sys api s st"
  using assms by (simp add: allocate_windows_external_def allocate_windows_def open_process_def Let_def split: prod.split)

lemma external_own_drop:
  "pa_this_process_id p = ci_this_process_id sys \<Longrightarrow> drop_windows_external sys api remote p st = drop_windows api p st"
  by (simp add: drop_windows_external_def drop_windows_def)

text \<open>
  For another process the search ends too, when its regions are sane; an item is placed in the other
  process as asked, and dropping a private allocation made of it releases exactly that block through a
  handle of its own, which is closed again.
\<close>

lemma external_allocate_ends:
  assumes "sane_regions sys (LocalKernel32 api)" "\<And>handle. sane_regions sys (RemoteKernel32 remote handle)"
    and "granularity sys \<noteq> 0" and "unat (bas_max_address s) + unat (granularity sys) < 2 ^ 64"
    and "bas_min_address s \<le> bas_max_address s"
  shows "\<exists>r st'. allocate_windows_external b q sys api remote s st = Some (r, st') \<and>
    (\<forall>it. r = Inr it \<longrightarrow> placed (granularity sys) s it)"
proof -
  have top: "below_top (bas_max_address s)"
    using assms(3,4) unat_gt_0 [of "granularity sys"] by (simp add: below_top_def)
  have "\<exists>r st'. allocate_fast b sys (LocalKernel32 api) mx s st = Some (r, st')"
    "\<exists>r st'. allocate_fast b sys (RemoteKernel32 remote handle) mx s st = Some (r, st')" for mx st handle
    using allocate_fast_ends [OF assms(1,3-5)] allocate_fast_ends [OF assms(2-5)] by fastforce+
  then have fast: "\<exists>r st'. (if c then allocate_fast b sys (LocalKernel32 api) mx s st
      else allocate_fast b sys (RemoteKernel32 remote handle) mx s st) = Some (r, st')" for c mx st handle
    by simp
  have "\<exists>r. allocate_windows_external b q sys api remote s st = Some r"
  proof (cases "open_process api (bas_target_process_id s) st")
    case (Pair handle st1)
    obtain mx st2 where mx: "get_max_windows_address q sys api (bas_target_process_id s) handle st1 = (mx, st2)" by fastforce
    from fast [of "ci_this_process_id sys = bas_target_process_id s" mx st2 handle] obtain r st3
      where "(if ci_this_process_id sys = bas_target_process_id s then allocate_fast b sys (LocalKernel32 api) mx s st2
        else allocate_fast b sys (RemoteKernel32 remote handle) mx s st2) = Some (r, st3)" by blast
    with Pair mx show ?thesis by (simp add: allocate_windows_external_def)
  qed
  then obtain r st' where ret: "allocate_windows_external b q sys api remote s st = Some (r, st')" by auto
  have "placed (granularity sys) s it" if "r = Inr it" for it
    using external_allocator.alloc_placed [OF TrueI ret [unfolded that] assms(3) top] .
  with ret show ?thesis by blast
qed

lemma external_drop:
  assumes "pid \<noteq> ci_this_process_id sys" and "open_process api pid st = (handle, st1)" and "handle \<noteq> 0"
  shows "drop_windows_external sys api remote (private_allocation_new a n pid) st
    = CloseHandle api handle (snd (VirtualFreeEx remote handle a 0 MEM_RELEASE st1))"
  using assms by (simp add: drop_windows_external_def private_allocation_new_def process_handle_drop_def split: prod.split)

end
