(* ===== verification/Spec2Isabelle.thy ===== *)
theory Spec2Isabelle
  imports Samples C_Api_Properties Interleaving_Properties Finder_Failures Chain_Runs Page_Bytes Copies_Properties
    Memory_Threads_Properties Test_Properties External_Process
begin

text \<open>
  A verification development for the Rust crate \<open>reloaded-memory-buffers\<close> (\<open>src/src-rust\<close>), a
  shared, concurrent, permanent memory allocator tied to the lifetime of a process.  A program asks
  for a buffer within a range of addresses; all copies of the library in the process share one chain
  of headers, found through a memory-mapped file named after the process; a header is a page that
  registers buffers (items); an item is locked while one client appends to it, and what was appended
  is never moved or freed.

  \<^bold>\<open>The parts of the program and their theories\<close> (sources under \<open>src/src-rust/src\<close>):

  \<^item> \<open>Prelude\<close>: machine integers (\<open>usize\<close>, \<open>u32\<close>, \<open>u8\<close>, \<open>i32\<close> as words of a 64-bit target), addition
    and subtraction under the two Cargo profiles (\<open>wadd\<close>, \<open>wsub\<close>: \<open>None\<close> is the panic of the dev
    profile, the release profile wraps), raw bytes of memory.
  \<^item> \<open>Mathematics\<close>, \<open>Address_Range\<close>: \<open>utilities/mathematics.rs\<close>, \<open>utilities/address_range.rs\<close>.
  \<^item> \<open>Platform\<close>: the target (\<open>cfg\<close> switches) and \<open>utilities/cached.rs\<close>.  \<open>Settings\<close>:
    \<open>structs/params\<close> and the data of \<open>structs/errors\<close>.
  \<^item> \<open>Candidates\<close>: \<open>get_possible_buffer_addresses\<close> of \<open>internal/buffer_allocator.rs\<close>.
  \<^item> \<open>Alloc_Contract\<close>, \<open>Alloc_Linux\<close> (with \<open>Memory_Map\<close>: the parser of \<open>/proc/<pid>/maps\<close> and the free
    regions), \<open>Alloc_Windows\<close>, \<open>Alloc_Osx\<close> (with \<open>Page_Walk\<close>: the walk over the pages that both use),
    \<open>Alloc_Mmap\<close>, \<open>Buffer_Allocator\<close>: the allocators of \<open>internal/buffer_allocator*.rs\<close> and the
    dispatch between them.  The locale \<open>allocator_contract\<close> is what each of them promises; it is
    interpreted on every one of them and on the dispatch.
  \<^item> \<open>Spin_Lock\<close>, \<open>Code_Memory\<close>, \<open>Locator_Item\<close>: \<open>structs/internal/locator_item.rs\<close>,
    \<open>structs/safe_locator_item.rs\<close> and the utilities for executable memory.  The locale
    \<open>try_lock_contract\<close> is interpreted on the locks of items and headers, \<open>append_contract\<close> on the
    three append operations.
  \<^item> \<open>Layout\<close>: the layout that \<open>repr(C)\<close> gives to the structures shared between the copies of the library,
    with the wrapper of \<open>utilities/wrappers.rs\<close>.  \<open>Page_Bytes\<close>: a header as the bytes of its page; the
    record with a list of items that the model uses is shown to be what lies in memory.
  \<^item> \<open>Locator_Header\<close>, \<open>Header_Facts\<close>, \<open>Header_Chain\<close>: \<open>structs/internal/locator_header.rs\<close>.  The shared
    state is the record \<open>world\<close>: the memory at each address read as a header, the bytes of the process
    and the state \<open>'o\<close> of the operating system.
  \<^item> \<open>Memory_Mapped_File\<close>, \<open>Locator_Header_Finder\<close>: \<open>internal/memory_mapped_file*.rs\<close> and
    \<open>internal/locator_header_finder.rs\<close>.
  \<^item> \<open>Private_Allocation\<close>, \<open>Buffers\<close>, \<open>Buffer_Facts\<close>: \<open>structs/private_allocation.rs\<close> and the public
    interface \<open>buffers.rs\<close>.
  \<^item> \<open>External_Process\<close>: the Windows code under the feature \<open>external_process\<close> (a name that the crate does
    not declare), for memory in other processes: the same contract, and the same behaviour as the compiled
    code for the own process.
  \<^item> \<open>Samples\<close>: a concrete system on which the properties with hypotheses are instantiated.
  \<^item> \<open>Decimal_Text\<close>, \<open>Error_Text\<close>: numbers and C strings as Rust's standard library prints and parses
    them, and the texts of \<open>structs/errors\<close> (\<open>to_string\<close> and \<open>Display\<close>, both settings of the feature
    \<open>no_format\<close>).
  \<^item> \<open>C_Api\<close>, \<open>C_Api_Properties\<close>: the exported C interface \<open>c/buffers_c_buffers.rs\<close> and
    \<open>c/buffers_c_locatoritem.rs\<close>.  Its state adds the error strings that callers have not freed.
  \<^item> \<open>Arena\<close>, \<open>Sessions\<close>, \<open>Linux_Memory\<close>, \<open>Session_Properties\<close>: the library over time.  \<open>Arena\<close> is the
    invariant that headers and buffers do not overlap; \<open>Sessions\<close> has the abstract specification, a
    ledger of who owns which buffer and what was written where, and the client's operations as a step
    relation over the model of \<open>buffers.rs\<close> and \<open>safe_locator_item.rs\<close>; \<open>Linux_Memory\<close> states what is
    expected of the kernel and shows that the Linux allocator only hands out memory not in use.
  \<^item> \<open>Interleaving\<close>, \<open>Interleaving_Properties\<close>: \<open>get_first_available_item_locked\<close> and
    \<open>try_allocate_item\<close> cut into the steps between which another thread can run, for any number of
    threads on one header.
  \<^item> \<open>Chain_Threads\<close>, \<open>Chain_Threads_Properties\<close>, \<open>Chain_Runs\<close>: threads that walk along the chain and extend
    it.  \<open>walk_step\<close> has the steps of \<open>get_buffer_recursive\<close> and \<open>get_next_locator\<close>, with the steps of
    \<open>Interleaving\<close> inside each header; \<open>walks\<close> the executions, in any order or with the one restriction
    that nobody looks at a header before it is initialized; \<open>Chain_Runs\<close> leads \<open>get_buffer\<close> back to them.
  \<^item> \<open>Finder_Facts\<close>, \<open>Finder_Properties\<close>: the laws of files and shared mappings on Unix, and what the
    search for the first header does under them, in a process that has none and in one that has.
    \<open>Copies\<close>, \<open>Copies_Properties\<close>: the same search as steps, for any number of copies of the
    library and of threads, on the shared page.  \<open>Finder_Failures\<close>: the search without shared files
    (Android, the feature \<open>all_private\<close>) and on Windows.
  \<^item> \<open>Memory_Threads\<close>, \<open>Memory_Threads_Properties\<close>: the threads of \<open>Chain_Threads\<close> with the memory behind
    the items and their appends: \<open>site_step\<close> copies one byte of an \<open>append_bytes\<close> at a time.
  \<^item> \<open>Crate_Tests\<close>, \<open>Header_Tests\<close>, \<open>Library_Tests\<close>, \<open>Mapping_Tests\<close>, \<open>Client_Tests\<close>: the unit tests in
    the sources (the modules \<open>tests\<close>), each a predicate that says that it passes, from the state it starts
    in; \<open>Test_Properties\<close>: when they pass.

  \<^bold>\<open>How code becomes definitions.\<close>  A function that may not return (a panic, an abort, a spin that
  never ends) returns an option, \<open>None\<close> being that it does not return; \<open>Result\<close> is a sum with the error
  on the left; a mutable reference is state passing.  Foreign functions (system calls, the crates
  \<open>mmap-rs\<close>, \<open>itoa\<close>, \<open>clf\<close>, \<open>mach\<close>) are fields of the API records, functions on the state \<open>'o\<close>; what the
  code relies on from them is a named predicate (\<open>honest_os\<close>, \<open>sane_sys\<close>, \<open>heap_ok\<close>, \<open>grants_mmap\<close>, ...).
  What other threads do while this one waits for a lock is the argument \<open>yield\<close> (or \<open>wait\<close>).

  \<^bold>\<open>What is shown.\<close> The candidates for a buffer's address are sound and complete;
  each allocator places an item as asked or reports the settings, and ends; the Linux allocator finds a
  buffer when there is room; the maps file is read back from its printed form and the free regions are
  the complement of the mapped ones; items and headers keep their invariants (\<open>wf_item\<close>,
  \<open>wf_header\<close>, \<open>chain_ok\<close>) under every operation; appended data stays; a
  search ends and returns an item that is locked for the caller and held by nobody else, aligned when
  that was asked for. The first copy of the library in a process makes the first header and all others
  find the same one; so do copies that search at the same time, when none opens the file while another
  makes the header, and a run that does not keep this order ends with two first headers or with a null
  address. Sessions of clients refine the ledger: buffers are owned exclusively and nothing
  that was appended is ever overwritten (on Linux, with a granularity of one 4 KiB page: larger granules
  preallocate buffers that overlap, which is a property too). In every interleaving in which no header
  is looked at before it is initialized, threads on the chain exclude each other from items and headers,
  never panic, and give the locks of the headers back; \<open>get_buffer\<close> as a whole is a run of
  the interleaved steps. The code does not enforce that order, and a run without it ends with two
  holders of one item. What threads that keep the order append at the same time stays apart, byte by
  byte. The records of the model are the bytes of the pages in the layout of the code;
  under the layout of the specification they are misread. The C interface hands out and takes back
  exactly what the Rust one does. The unit tests of the crate pass, on a machine that has the memory they ask
  for, except for one whose expectation is wrong for pages of 8 KiB. Where the code does not do what it
  means to, the theorem says what it does (aliased preallocated buffers, sizes that wrap to 0, truncated reads, the address written in
  place of a value, an item whose room is gone when its lock is taken, a flush of the wrong range).

  \<^bold>\<open>Bounds and fuel.\<close>  No fuel is used: loops are structural, have a measure, or are
  \<open>partial_function (option)\<close> with a theorem that they return.  The retries of the allocators run over
  the \<open>retry_count\<close> of the settings as in the source.

  \<^bold>\<open>Not modelled.\<close> 32-bit targets; memory ordering weaker than
  sequential consistency; interleavings in the search for the first header on Windows and without
  shared files beyond the threads that wait for its lock, and within the operations of sessions (which
  are atomic there; the appends of threads on the chain are not); a page range that becomes several
  headers in the interleaved search; the allocation in
  \<open>try_allocate_item\<close> and the one in \<open>get_next_locator\<close> are one step of a
  thread, with the promise of the allocators as the outcome, and the initialization of a linked header
  is two (its default values, its items); the interleaved chain of macOS on ARM, where the rest of a
  header's pages becomes headers; \<open>lib.rs\<close> (module declarations and documentation); the tests of
  32-bit targets and the benchmarks; the C# library in the same repository, except for the order of the
  fields of its items, which is that of the specification.
\<close>

section \<open>Buffers\<close>

text \<open>
  C2 A search for a buffer ends and answers correctly.  From a consistent chain of headers that
  are not locked, \<open>get_buffer\<close> returns; an item it returns is registered, locked for the caller, has
  the bytes asked for left, lies in the range asked for, and is none of the items that others hold
  (those stay held); an error names the settings of the search.
\<close>

theorem get_buffer_serves:
  assumes "lib_header_address lib = h" and "h \<noteq> 0" and "h \<in> H"
    and "world_ok used H Q (lib_world lib)" and "open_path (lib_world lib) h hs"
    and "allocator_answers pl (bss_size s) (bss_min_address s) (bss_max_address s)"
    and "search_ok pl used yield Q (bss_size s) (bss_max_address s)"
  shows "\<exists>r lib'. get_buffer pl wait yield s lib = Some (r, lib') \<and>
    search_answer used H Q s (r, lib_world lib')"
  using assms by (rule get_buffer_found [where wait = wait]) auto

theorem get_buffer_serves_witness:
  "\<exists>r lib'. get_buffer (sample_platform 4096) (\<lambda>l. l) (\<lambda>w. w) sample_search sample_library = Some (r, lib') \<and>
    search_answer sample_used {0x10000} {} sample_search (r, lib_world lib')"
  by (rule get_buffer_serves [of _ "0x10000" _ _ _ "[0x10000]"])
    (simp_all add: sample_library_def world_ok_def sample_chain sample_open_path sample_search_ok
      sample_answers del: open_path.simps)

text \<open>
  C14 The item \<open>get_buffer_aligned\<close> returns is aligned: the next byte to be written lies at a multiple
  of the alignment, the bytes asked for are still left behind it, inside the range, and the item is
  locked for the caller.
\<close>

theorem get_buffer_aligned_serves:
  assumes "lib_header_address lib = h" and "h \<noteq> 0" and "h \<in> H"
    and "world_ok used H Q (lib_world lib)" and "open_path (lib_world lib) h hs"
    and "al \<noteq> 0" and "unat (bss_size s) + (unat al - 1) < 2 ^ 32"
    and "allocator_answers pl (bss_size s + (al - 1)) (bss_min_address s) (bss_max_address s)"
    and "search_ok pl used yield Q (bss_size s + (al - 1)) (bss_max_address s)"
  shows "\<exists>r lib'. get_buffer_aligned pl wait yield s al lib = Some (r, lib') \<and>
    (\<forall>p. r = Inr p \<longrightarrow> p \<notin> Q \<and> li_is_taken (item_at (lib_world lib') p) = 1 \<and>
      serves_request (bss_size s) (bss_min_address s) (bss_max_address s) (item_at (lib_world lib') p) \<and>
      unat al dvd unat (next_address (item_at (lib_world lib') p)))"
proof -
  let ?s = "s\<lparr>bss_size := bss_size s + (al - 1)\<rparr>"
  have al: "unat (al - 1) = unat al - 1" using assms(6) by (rule unat_minus_one)
  have add: "wadd (pl_build pl) (bss_size s) (al - 1) = Some (bss_size s + (al - 1))"
    "unat (bss_size s + (al - 1)) = unat (bss_size s) + (unat al - 1)"
    using assms(7) al by (simp_all add: arith_ok unat_add_small)
  obtain r w where buf: "get_buffer pl wait yield ?s lib = Some (r, lib\<lparr>lib_world := w\<rparr>)"
    and ans: "search_answer used H Q ?s (r, w)"
    using assms(1-5) by (rule get_buffer_found [where s = ?s and wait = wait])
      (use assms(8,9) in simp_all)
  show ?thesis
  proof (cases r)
    case (Inl e)
    with buf add(1) assms(6) show ?thesis by (simp add: get_buffer_aligned_def)
  next
    case (Inr p)
    have p: "p \<notin> Q" "granted (bss_size ?s) (bss_min_address s) (bss_max_address s) p w"
      using ans Inr by (simp_all add: search_answer_def)
    have "unat (bss_size ?s) = unat (bss_size s) + (unat al - 1)" "below_top (bss_max_address s)"
      using add(2) assms(9) by (simp_all add: search_ok_def sane_request_def)
    with p(2) assms(6) obtain it' where it: "align_item (pl_build pl) al (item_at w p) = Some it'"
      "item_at (put_item p it' w) p = it'"
      "serves_request (bss_size s) (bss_min_address s) (bss_max_address s) it'"
      "unat al dvd unat (next_address it')" "li_is_taken it' = 1"
      by (rule aligned_item)
    with buf add(1) assms(6) Inr p(1) show ?thesis by (simp add: get_buffer_aligned_def)
  qed
qed

theorem get_buffer_aligned_serves_witness:
  "\<exists>r lib'. get_buffer_aligned (sample_platform 4096) (\<lambda>l. l) (\<lambda>w. w) sample_search 64 sample_library
      = Some (r, lib') \<and>
    (\<forall>p. r = Inr p \<longrightarrow> unat (64 :: u32) dvd unat (next_address (item_at (lib_world lib') p)))"
proof -
  have "search_ok (sample_platform 4096) sample_used (\<lambda>w. w) {} 4159 0x7FFFFFFF"
    by (simp add: search_ok_def sample_honest sample_page sample_heap yield_ok_def sane_request_def
        sample_sane sample_granularity below_top_def)
  moreover have "world_ok sample_used {0x10000} {} sample_world" by (simp add: world_ok_def sample_chain)
  moreover note sample_open_path sample_answers [of 4159]
  ultimately have "\<exists>r lib'. get_buffer_aligned (sample_platform 4096) (\<lambda>l. l) (\<lambda>w. w) sample_search 64 sample_library
      = Some (r, lib') \<and>
    (\<forall>p. r = Inr p \<longrightarrow> p \<notin> {} \<and> li_is_taken (item_at (lib_world lib') p) = 1 \<and>
      serves_request (bss_size sample_search) (bss_min_address sample_search) (bss_max_address sample_search)
        (item_at (lib_world lib') p) \<and>
      unat (64 :: u32) dvd unat (next_address (item_at (lib_world lib') p)))"
    by (intro get_buffer_aligned_serves [of _ "0x10000" "{0x10000}" sample_used "{}" "[0x10000]"])
      (simp_all add: sample_library_def del: open_path.simps)
  then show ?thesis by blast
qed

text \<open>
  C16 Proximity: a buffer found with \<open>BufferSearchSettings::from_proximity\<close> lies near its target.  The
  bytes asked for, from the next one to be written on, are at most \<open>proximity\<close> away from it on either
  side, provided the size fits 32 bits.
\<close>

theorem proximity_respected:
  assumes "lib_header_address lib = h" and "h \<noteq> 0" and "h \<in> H"
    and "world_ok used H Q (lib_world lib)" and "open_path (lib_world lib) h hs"
    and "s = search_settings_from_proximity proximity target sz" and "unat sz < 2 ^ 32"
    and "allocator_answers pl (bss_size s) (bss_min_address s) (bss_max_address s)"
    and "search_ok pl used yield Q (bss_size s) (bss_max_address s)"
  shows "\<exists>r lib'. get_buffer pl wait yield s lib = Some (r, lib') \<and>
    (\<forall>p. r = Inr p \<longrightarrow> (let a = unat (next_address (item_at (lib_world lib') p)) in
      unat target \<le> a + unat proximity \<and> a + unat sz \<le> unat target + unat proximity))"
proof -
  obtain r w where buf: "get_buffer pl wait yield s lib = Some (r, lib\<lparr>lib_world := w\<rparr>)"
    and ans: "search_answer used H Q s (r, w)"
    using assms(1-5,8,9) by (rule get_buffer_found [where wait = wait])
  have "unat target \<le> a + unat proximity \<and> a + unat sz \<le> unat target + unat proximity"
    if p: "r = Inr p" and a: "a = unat (next_address (item_at w p))" for p a
  proof -
    have it: "serves_request (bss_size s) (bss_min_address s) (bss_max_address s) (item_at w p)"
      using ans p by (simp add: search_answer_def granted_def)
    have sz: "unat (bss_size s) = unat sz" using assms(6,7) by (simp add: search_settings_from_proximity_def unat_usize_to_u32)
    have lo: "unat target - unat proximity \<le> a"
      using it a assms(6) unat_subtract_with_underflow_cap [of target proximity]
      by (simp add: serves_request_def search_settings_from_proximity_def word_le_nat_alt)
    have "a + free_bytes (item_at w p) = unat (li_base_address (item_at w p)) + unat (li_size (item_at w p))"
      using it a unat_next_address(2) by (simp add: serves_request_def free_bytes_def wf_item_def word_le_nat_alt)
    then have hi: "a + unat sz \<le> unat (add_with_overflow_cap target proximity)"
      using it sz assms(6) by (simp add: serves_request_def search_settings_from_proximity_def)
    have "unat (add_with_overflow_cap target proximity) \<le> unat target + unat proximity"
      using unat_add_with_overflow_cap [of target proximity] by simp
    with lo hi show ?thesis by simp
  qed
  with buf show ?thesis by (simp add: Let_def)
qed

theorem proximity_respected_witness:
  "\<exists>r lib'. get_buffer (sample_platform 4096) (\<lambda>l. l) (\<lambda>w. w)
      (search_settings_from_proximity 0x80000000 0x80020000 4096) sample_library = Some (r, lib') \<and>
    (\<forall>p. r = Inr p \<longrightarrow> (let a = unat (next_address (item_at (lib_world lib') p)) in
      unat (0x80020000 :: usize) \<le> a + unat (0x80000000 :: usize) \<and>
      a + unat (4096 :: usize) \<le> unat (0x80020000 :: usize) + unat (0x80000000 :: usize)))"
proof -
  have s: "search_settings_from_proximity 0x80000000 0x80020000 4096
      = \<lparr>bss_min_address = 0x20000, bss_max_address = 0x100020000, bss_size = 4096\<rparr>"
    by (simp add: search_settings_from_proximity_def subtract_with_underflow_cap_def add_with_overflow_cap_def)
  have "allocator_answers (sample_platform 4096) 4096 0x20000 0x100020000"
    by (rule like_answers [OF sample_platform_like]) simp_all
  moreover have "search_ok (sample_platform 4096) sample_used (\<lambda>w. w) {} 4096 0x100020000"
    by (simp add: search_ok_def sample_honest sample_page sample_heap yield_ok_def sane_request_def
        sample_sane sample_granularity below_top_def)
  moreover have "world_ok sample_used {0x10000} {} sample_world" by (simp add: world_ok_def sample_chain)
  ultimately show ?thesis
    using sample_open_path
    by (intro proximity_respected [of _ "0x10000" "{0x10000}" sample_used "{}" "[0x10000]"])
      (simp_all add: s sample_library_def del: open_path.simps)
qed

section \<open>Headers\<close>

text \<open>
  \<open>get_first_available_item_locked\<close> returns, on a well-formed header, the first registered item
  that is free, has room for the request and lies in the range, and takes its lock; nothing else
  changes.  When there is no such item it returns none and changes nothing.
\<close>

lemma first_available_item_is_first:
  assumes "wf_header (w_headers w h)"
  shows "get_first_available_item_locked pl h sz mn mx w = Some (None, w) \<and>
      (\<forall>i < unat (lh_num_items (w_headers w h)). \<not> available sz mn mx (lh_items (w_headers w h) ! i)) \<or>
    (\<exists>i < unat (lh_num_items (w_headers w h)). available sz mn mx (lh_items (w_headers w h) ! i) \<and>
      (\<forall>j < i. \<not> available sz mn mx (lh_items (w_headers w h) ! j)) \<and>
      get_first_available_item_locked pl h sz mn mx w = Some (Some (Item_Ptr h i),
        put_item (Item_Ptr h i) ((lh_items (w_headers w h) ! i)\<lparr>li_is_taken := 1\<rparr>) w))"
  using assms by (rule search_header)



text \<open>
  The last header of a chain, when it is not locked, gets a successor: \<open>get_next_locator\<close> returns,
  and unless the heap is exhausted it returns the address of a new header that is linked from this
  one, well formed, not locked and not full, in a chain that is consistent.
\<close>

lemma get_next_locator_extends:
  assumes "chain_ok used H w" and "h \<in> H" and "lh_is_locked (w_headers w h) = 0"
    and "\<not> has_next_locator (w_headers w h)"
    and "allocator_answers pl sz mn mx" and "search_ok pl used yield Q sz mx"
  shows "\<exists>r w'. get_next_locator pl yield h w = Some (r, w') \<and> chain_ok used H w' \<and>
    (\<forall>a. r = Inr a \<longrightarrow> lh_next_locator_ptr (w_headers w' h) = a \<and> chain_ok used (insert a H) w' \<and>
      lh_is_locked (w_headers w' a) = 0 \<and> unat (lh_num_items (w_headers w' a)) < 203)"
proof -
  from assms(6) have e: "sane_page (pl_sys pl)" "heap_ok pl used" "yield_ok used yield"
    by (simp_all add: search_ok_def)
  have layout: "layout_ok (granularity (pl_sys pl)) (ucast (ci_page_size (pl_sys pl)))"
    using assms(5) by (simp add: allocator_answers_def)
  obtain r w' where ret: "get_next_locator pl yield h w = Some (r, w')"
    "\<forall>a. r = Inr a \<longrightarrow> lh_is_locked (w_headers w' a) = 0 \<and> \<not> is_full (w_headers w' a) \<and> wf_header (w_headers w' a)"
    using get_next_answers [OF e(1,2) layout assms(1-4)] by blast
  with get_next_locator_ok [OF ret(1) assms(1,2) e(3,1,2)] show ?thesis by (auto simp: is_full_iff not_le)
qed

text \<open>
  A header that is initialized with the rest of its pages as buffers registers one item per
  16 KiB chunk, is not locked, ends the chain and is well formed; but all of these items start at
  the same address, the end of the header, because the address is not advanced in the loop.
\<close>

lemma initialize_registers_chunks:
  assumes "\<not> cfg_macos_aarch64 (pl_target pl)"
    and "4096 \<le> unat len" and "unat len \<le> 4096 + 203 * 16384" and "unat h + unat len < 2 ^ 64"
    and "length (lh_items (w_headers w h)) = 203"
  shows "\<exists>w'. initialize pl h len w = Some w' \<and> wf_header (w_headers w' h) \<and>
    lh_is_locked (w_headers w' h) = 0 \<and> \<not> has_next_locator (w_headers w' h) \<and>
    unat (lh_num_items (w_headers w' h)) = (unat len - 4096 + 16383) div 16384 \<and>
    (\<forall>j < unat (lh_num_items (w_headers w' h)). lh_items (w_headers w' h) ! j =
      locator_item_new (h + HEADER_LENGTH) (of_nat (min 16384 (unat len - 4096 - 16384 * j))))"
proof -
  let ?f = "fresh_header h (unat len) (lh_items (w_headers w h))"
  have wf: "wf_header ?f" using assms by (intro wf_fresh_header) simp_all
  have n: "unat (lh_num_items ?f) = chunks (unat len - 4096)"
    using chunks_le [OF assms(3)] by (simp add: fresh_header_def unat_of_nat)
  have "lh_items ?f ! j = locator_item_new (h + HEADER_LENGTH) (of_nat (min 16384 (unat len - 4096 - 16384 * j)))"
    if "j < unat (lh_num_items ?f)" for j
    using fresh_header_slot that n by (simp add: chunk_length_def)
  then show ?thesis
    using initialize_buffers [OF assms(1-3,5)] wf n
    by (simp add: chunks_def) (simp add: fresh_header_def has_next_locator_def)
qed

text \<open>
  C34 On pages larger than a header and two chunks, two callers get the same memory: after
  \<open>initialize\<close>, two searches in a row for a small buffer succeed, lock two different items, and the
  next byte each caller will write is at the same address.
\<close>

theorem preallocated_buffers_alias:
  assumes "\<not> cfg_macos_aarch64 (pl_target pl)"
    and "4096 + 2 * 16384 \<le> unat len" and "unat len \<le> 4096 + 203 * 16384"
    and "unat h + unat len < 2 ^ 64" and "length (lh_items (w_headers w h)) = 203"
    and "unat sz \<le> 16384" and "unat mn \<le> unat h + 4096" and "unat h + 4096 + 16384 \<le> unat mx"
  shows "\<exists>w1 w2 w3. initialize pl h len w = Some w1 \<and>
    get_first_available_item_locked pl h sz mn mx w1 = Some (Some (Item_Ptr h 0), w2) \<and>
    get_first_available_item_locked pl h sz mn mx w2 = Some (Some (Item_Ptr h 1), w3) \<and>
    next_address (item_at w3 (Item_Ptr h 0)) = next_address (item_at w3 (Item_Ptr h 1))"
proof -
  let ?f = "fresh_header h (unat len) (lh_items (w_headers w h))" and ?r = "unat len - 4096"
  let ?it = "locator_item_new (h + HEADER_LENGTH) 16384"
  have wf: "wf_header ?f" using assms by (intro wf_fresh_header) simp_all
  have "2 * 16384 \<le> ?r" using assms(2) by simp
  then have c: "2 \<le> chunks ?r" "chunk_length ?r 0 = 16384" "chunk_length ?r 1 = 16384"
    unfolding chunks_def by (auto simp: chunk_length_def less_eq_div_iff_mult_less_eq)
  have n: "2 \<le> unat (lh_num_items ?f)" and len: "length (lh_items ?f) = 203"
    using chunks_le [OF assms(3)] c(1) wf by (simp_all add: fresh_header_def unat_of_nat wf_header_def)
  have items: "lh_items ?f ! 0 = ?it" "lh_items ?f ! 1 = ?it"
    using fresh_header_slot [of 0 "unat len" h] fresh_header_slot [of 1 "unat len" h] c by simp_all
  have base: "unat (h + HEADER_LENGTH) = unat h + 4096"
    using assms(2,4) by (subst unat_add_small) (simp_all add: HEADER_LENGTH_def)
  then have "h + HEADER_LENGTH \<noteq> 0" by (metis add_is_0 unat_0 zero_neq_numeral)
  then have av: "available sz mn mx ?it"
    using assms base by (simp add: available_def serves_request_def wf_item_def free_bytes_def
        next_address_def word_le_nat_alt)
  let ?w1 = "put_header h ?f w"
  let ?w2 = "put_item (Item_Ptr h 0) (?it\<lparr>li_is_taken := 1\<rparr>) ?w1"
  have s1: "get_first_available_item_locked pl h sz mn mx ?w1 = Some (Some (Item_Ptr h 0), ?w2)"
    using search_finds [of ?w1 h 0 sz mn mx pl] wf av n items(1) by simp
  have h2: "w_headers ?w2 h = ?f\<lparr>lh_items := (lh_items ?f)[0 := ?it\<lparr>li_is_taken := 1\<rparr>]\<rparr>"
    by (simp add: put_item_def Let_def)
  have wf2: "wf_header (w_headers ?w2 h)"
    unfolding h2 using wf n items(1) wf_header_slot [OF wf, of 0]
    by (intro wf_header_update wf_slot_take) auto
  have taken: "\<not> available sz mn mx (lh_items (w_headers ?w2 h) ! 0)"
    and second: "lh_items (w_headers ?w2 h) ! 1 = ?it"
    using items len by (simp_all add: h2 available_def)
  have s2: "get_first_available_item_locked pl h sz mn mx ?w2 = Some (Some (Item_Ptr h 1),
      put_item (Item_Ptr h 1) (?it\<lparr>li_is_taken := 1\<rparr>) ?w2)"
    using search_finds [OF wf2, of 1 sz mn mx pl] second av taken n by (simp add: h2)
  show ?thesis
    using s1 s2 initialize_buffers [OF assms(1) _ assms(3,5)] assms(2) items len
    by (auto simp: item_at_def put_item_def Let_def next_address_def)
qed

theorem preallocated_buffers_alias_witness:
  "\<exists>w1 w2 w3. initialize (sample_platform 0x10000) 0x10000 0x10000 sample_world = Some w1 \<and>
    get_first_available_item_locked (sample_platform 0x10000) 0x10000 64 0 0x7FFFFFFF w1 = Some (Some (Item_Ptr 0x10000 0), w2) \<and>
    get_first_available_item_locked (sample_platform 0x10000) 0x10000 64 0 0x7FFFFFFF w2 = Some (Some (Item_Ptr 0x10000 1), w3) \<and>
    next_address (item_at w3 (Item_Ptr 0x10000 0)) = next_address (item_at w3 (Item_Ptr 0x10000 1))"
  by (rule preallocated_buffers_alias) (simp_all add: sample_world_def sample_header_def)

text \<open>
  Where pages are never writable and executable at once (macOS on ARM), the pages behind a new
  header become further headers: \<open>initialize\<close> leaves a chain with one header per 4 KiB, in order of
  their addresses, none locked and none with an item.
\<close>

lemma initialize_chains_headers:
  assumes "cfg_macos_aarch64 (pl_target pl)"
    and "4096 \<le> unat len" and "unat len < 2 ^ 32" and "unat h + unat len < 2 ^ 64"
  shows "\<exists>w'. initialize pl h len w = Some w' \<and> open_path w' h (page_headers h (unat len div 4096)) \<and>
    (\<forall>x \<in> set (page_headers h (unat len div 4096)). lh_num_items (w_headers w' x) = 0)"
proof -
  let ?r = "ucast (len - HEADER_LENGTH) :: u32"
  let ?w1 = "put_header h (set_default_values h (w_headers w h)) w"
  have le: "HEADER_LENGTH \<le> len" using assms(2) by (simp add: HEADER_LENGTH_def word_le_nat_alt)
  then have "unat (len - HEADER_LENGTH) = unat len - 4096" by (simp add: unat_sub HEADER_LENGTH_def)
  then have r: "4096 + unat ?r = unat len" using assms(2,3) by (simp add: unat_usize_to_u32)
  then have d: "unat len div 4096 = Suc (unat ?r div 4096)" by (simp flip: r add: div_add_self1)
  have "block_in UNIV h (4096 + unat ?r)" using assms(4) r by (simp add: block_in_def)
  from as_headers_path [OF this, of ?w1]
  have "open_path (initialize_remaining_space_as_headers h ?r ?w1) h (page_headers h (unat len div 4096)) \<and>
    (\<forall>x \<in> set (page_headers h (unat len div 4096)).
      lh_num_items (w_headers (initialize_remaining_space_as_headers h ?r ?w1) x) = 0)"
    unfolding d by (simp add: set_default_values_def has_next_locator_def del: open_path.simps)
  moreover have "initialize pl h len w = Some (initialize_remaining_space_as_headers h ?r ?w1)"
    using assms(1) le by (simp add: initialize_def arith_ok Let_def)
  ultimately show ?thesis by blast
qed

text \<open>
  The version in the low three bits of the flags reads back as it was set, modulo 8, and setting
  it keeps the other five bits.
\<close>

lemma set_version_roundtrip:
  "version (set_version v hdr) = v AND 7 \<and>
   lh_flags (set_version v hdr) AND 0xF8 = lh_flags hdr AND 0xF8"
proof -
  have "((f AND 0xF8) OR (v AND 7)) AND 7 = v AND 7" "((f AND 0xF8) OR (v AND 7)) AND 0xF8 = f AND 0xF8"
    for f v :: u8
    by (simp_all add: bit.conj_disj_distrib2 and.assoc)
  then show ?thesis by (simp add: version_def set_version_def)
qed

text \<open>
  C25 The type of a header: an item that is registered in a well-formed header may be locked,
  unlocked, dropped and appended to (data that fits), and the header is well formed afterwards.  The
  appends return, and write at the address they return.
\<close>

theorem item_operations_keep_header:
  assumes "wf_header hdr" and "i < unat (lh_num_items hdr)" and "length d \<le> free_bytes (lh_items hdr ! i)"
  shows "wf_header (put_slot i (snd (item_try_lock (lh_items hdr ! i))) hdr) \<and>
    wf_header (put_slot i (item_unlock (lh_items hdr ! i)) hdr) \<and>
    wf_header (put_slot i (safe_drop (lh_items hdr ! i)) hdr) \<and>
    (\<exists>it m1. append_code b t api d (lh_items hdr ! i) m = Some (next_address (lh_items hdr ! i), it, m1) \<and>
      wf_header (put_slot i it hdr) \<and> read_bytes (next_address (lh_items hdr ! i)) (length d) (mem m1) = d) \<and>
    (\<exists>it m1. append_bytes b t api d (lh_items hdr ! i) m = Some (next_address (lh_items hdr ! i), it, m1) \<and>
      wf_header (put_slot i it hdr) \<and> read_bytes (next_address (lh_items hdr ! i)) (length d) (mem m1) = d) \<and>
    (\<exists>it m1. append_copy b t api d (lh_items hdr ! i) m = Some (next_address (lh_items hdr ! i), it, m1) \<and>
      wf_header (put_slot i it hdr) \<and> read_bytes (next_address (lh_items hdr ! i)) (length d) (mem m1) = d)"
proof -
  let ?it = "lh_items hdr ! i"
  have it: "wf_slot ?it" "wf_item ?it" using slot_facts(1) [OF assms(1,2)] by (simp_all add: wf_slot_def)
  note keep = put_slot_wf [OF assms(1,2)]
  have "wf_slot (advance (length d) ?it)" using it advance_facts(3) [OF it(2) assms(3)] by (simp add: wf_slot_def)
  note app = keep [OF this]
  have "read_bytes (next_address ?it) (length d) (write_bytes (next_address ?it) d (mem m)) = d"
    using room_in_memory [OF it(2) assms(3)] by (intro read_write_same) simp
  with app append_code_writes [OF it(2) assms(3), of b t api m] append_bytes_writes [OF it(2) assms(3), of b t api m]
    append_copy_writes [OF it(2) assms(3), of b t api m]
  have "\<exists>it m1. append_code b t api d ?it m = Some (next_address ?it, it, m1) \<and>
      wf_header (put_slot i it hdr) \<and> read_bytes (next_address ?it) (length d) (mem m1) = d"
    "\<exists>it m1. append_bytes b t api d ?it m = Some (next_address ?it, it, m1) \<and>
      wf_header (put_slot i it hdr) \<and> read_bytes (next_address ?it) (length d) (mem m1) = d"
    "\<exists>it m1. append_copy b t api d ?it m = Some (next_address ?it, it, m1) \<and>
      wf_header (put_slot i it hdr) \<and> read_bytes (next_address ?it) (length d) (mem m1) = d" by auto
  moreover have "wf_slot (snd (item_try_lock ?it))" "wf_slot (item_unlock ?it)" "wf_slot (safe_drop ?it)"
    using it(1) by (simp_all add: item_try_lock_def item_unlock_def safe_drop_def wf_slot_def Let_def)
  ultimately show ?thesis by (simp add: keep)
qed

theorem item_operations_keep_header_witness:
  "\<exists>it m1. append_bytes Debug \<lparr>tgt_os = Linux, tgt_arch = X86_64\<rparr> sample_code [1, 2, 3] (lh_items paged_header ! 0)
      (w_machine sample_world) = Some (0x3000000, it, m1) \<and>
    wf_header (put_slot 0 it paged_header) \<and> read_bytes 0x3000000 3 (mem m1) = [1, 2, 3]"
proof -
  have "next_address (lh_items paged_header ! 0) = 0x3000000" "length [1, 2, 3 :: u8] \<le> free_bytes (lh_items paged_header ! 0)"
    "0 < unat (lh_num_items paged_header)" by (simp_all add: paged_items next_address_def free_bytes_def)
  with item_operations_keep_header [OF paged_header_wf, of 0 "[1, 2, 3]" Debug "\<lparr>tgt_os = Linux, tgt_arch = X86_64\<rparr>"
      sample_code "w_machine sample_world"]
  show ?thesis by (simp add: numeral_3_eq_3)
qed

section \<open>Allocation\<close>

text \<open>
  C9 On every system, an item from \<open>allocate\<close> answers the request as it was made: at least the size
  asked for, inside the range, aligned to the granularity, empty and free; an error names the
  sanitized settings.
\<close>

theorem allocate_answers_request:
  assumes "allocate pl s st = Some (r, s', st')" and "honest_os pl"
    and "sane_request (pl_sys pl) (bas_size s) (bas_max_address s)"
  shows "case r of
      Inr it \<Rightarrow> serves_request (bas_size s) (bas_min_address s) (bas_max_address s) it \<and>
        li_position it = 0 \<and> li_is_taken it = 0 \<and>
        unat (granularity (pl_sys pl)) dvd unat (li_base_address it) \<and>
        unat (granularity (pl_sys pl)) dvd unat (li_size it)
    | Inl e \<Rightarrow> bae_settings e = s'"
proof (cases r)
  case (Inl e)
  with assms(1) have "allocate_os pl s' st = Some (Inl e, st')"
    by (auto simp: allocate_def Option.bind_eq_Some_conv)
  then have "error_for s' e" by (rule os_allocator.alloc_error)
  with Inl show ?thesis by (simp add: error_for_def)
next
  case (Inr it)
  with allocate_fresh [OF assms(1) [unfolded Inr] assms(2,3)] show ?thesis by simp
qed

theorem allocate_answers_request_witness:
  "\<exists>r s' st'. allocate (sample_platform 4096) (request_settings (sample_sys 4096) 4096 0x20000 0x7FFFFFFF) 0
      = Some (r, s', st') \<and>
    (\<forall>it. r = Inr it \<longrightarrow> serves_request 4096 0x20000 0x7FFFFFFF it)"
proof -
  obtain r s' st' where ret: "allocate (sample_platform 4096)
      (request_settings (sample_sys 4096) 4096 0x20000 0x7FFFFFFF) 0 = Some (r, s', st')"
    using sample_answers [of 4096] by (fastforce simp: allocator_answers_def)
  from allocate_answers_request [OF ret sample_honest] ret sample_request show ?thesis by auto
qed

text \<open>
  C33 The page walks of the Windows allocator end, the brute-force one included: with a
  \<open>VirtualQuery\<close> that reports non-empty regions inside the address space, \<open>allocate_windows\<close> returns,
  and an item it returns is placed as asked.
\<close>

theorem windows_allocate_ends:
  assumes "sane_regions sys (LocalKernel32 api)" and "granularity sys \<noteq> 0"
    and "unat (bas_max_address s) + unat (granularity sys) < 2 ^ 64"
    and "bas_min_address s \<le> bas_max_address s"
  shows "\<exists>r st'. allocate_windows b q sys api s st = Some (r, st') \<and>
    (\<forall>it. r = Inr it \<longrightarrow> placed (granularity sys) s it)"
proof -
  have top: "below_top (bas_max_address s)"
    using assms(2,3) unat_gt_0 [of "granularity sys"] by (simp add: below_top_def)
  have "\<exists>r st'. allocate_fast b sys (LocalKernel32 api) mx s st = Some (r, st')" for mx st
    using allocate_fast_ends [OF assms] by fastforce
  then have "\<exists>r. allocate_windows b q sys api s st = Some r"
    by (auto simp: allocate_windows_def Let_def split: prod.split) (metis bind.bind_lunit case_prod_conv)
  then obtain r st' where ret: "allocate_windows b q sys api s st = Some (r, st')" by auto
  have "placed (granularity sys) s it" if "r = Inr it" for it
    using windows_allocator.alloc_placed [OF TrueI ret [unfolded that] assms(2) top] .
  with ret show ?thesis by blast
qed

theorem windows_allocate_ends_witness:
  "\<exists>r st'. allocate_windows Debug (pl_queries (sample_platform 4096)) (sample_sys 0x10000) sample_windows
      (request_settings (sample_sys 0x10000) 0x10000 0x10000 0x7FFFFFFF) 0 = Some (r, st') \<and>
    (\<forall>it. r = Inr it \<longrightarrow> placed (granularity (sample_sys 0x10000))
      (request_settings (sample_sys 0x10000) 0x10000 0x10000 0x7FFFFFFF) it)"
  by (rule windows_allocate_ends)
    (auto simp: sane_regions_def sample_windows_def LocalKernel32_def sample_granularity split: if_splits)

text \<open>
  The page walk of the macOS allocator ends: with a \<open>mach_vm_region\<close> that answers with regions
  ending above the address asked for, \<open>allocate_osx\<close> returns, and an item it returns is placed as
  asked when the kernel allocates at the address it was given.
\<close>

lemma osx_allocate_ends:
  assumes "sane_mach_regions api" and "fixed_allocate api" and "granularity sys \<noteq> 0"
    and "unat (bas_max_address s) + unat (granularity sys) < 2 ^ 64"
    and "bas_min_address s \<le> bas_max_address s"
  shows "\<exists>r st'. allocate_osx b t sys api s st = Some (r, st') \<and>
    (\<forall>it. r = Inr it \<longrightarrow> placed (granularity sys) s it)"
proof -
  have top: "below_top (bas_max_address s)"
    using assms(3,4) unat_gt_0 [of "granularity sys"] by (simp add: below_top_def)
  obtain r st' where ret: "allocate_osx b t sys api s st = Some (r, st')"
    using allocate_osx_ends [OF assms(1,3-5)] by fastforce
  have "placed (granularity sys) s it" if "r = Inr it" for it
    using osx_allocator.alloc_placed [OF assms(2) ret [unfolded that] assms(3) top] .
  with ret show ?thesis by blast
qed

end
